(* ===== verification/Prelude.thy ===== *)
theory Prelude
  imports Main "HOL-Library.Word"
begin

text \<open>
  Shared vocabulary of the TunnelMate development: the C integer types as words, the
  collections of simplification rules the components add to, the doubling loop every growable
  buffer of the code uses, C strings as NUL-free character lists with \<open>snprintf\<close>'s truncation,
  and the list lemmas several components need.
\<close>

unbundle bit_operations_syntax

type_synonym u8 = "8 word"
type_synonym u16 = "16 word"
type_synonym u32 = "32 word"
type_synonym u64 = "64 word"
type_synonym bytes = "8 word list"

named_theorems wire_simps \<open>definitions of the fixed-width readers and writers\<close>
named_theorems inv_intros \<open>preservation of the components' invariants\<close>

abbreviation SIZE_MAX :: nat where
  "SIZE_MAX \<equiv> 18446744073709551615"

section \<open>Growable buffers\<close>

text \<open>
  Every growable buffer of the program (frame reader, relay queues, socket write buffers, UDP
  output queues) reallocates with \<open>while (ncap < need) ncap *= 2\<close>. The code only enters the loop
  with a positive \<open>ncap\<close>; the guard \<open>0 < c\<close> makes the function total.
\<close>

function grow_cap :: "nat \<Rightarrow> nat \<Rightarrow> nat" where
  "grow_cap c need = (if c < need \<and> 0 < c then grow_cap (2 * c) need else c)"
  by pat_completeness auto
termination
  by (relation "measure (\<lambda>(c, need). need - c)") auto

declare grow_cap.simps [simp del]

lemma grow_cap_ge: "0 < c \<Longrightarrow> need \<le> grow_cap c need"
proof (induction c need rule: grow_cap.induct)
  case (1 c need)
  then show ?case
    by (cases "c < need") (simp_all add: grow_cap.simps [of c need])
qed

lemma grow_cap_lower: "c \<le> grow_cap c need"
proof (induction c need rule: grow_cap.induct)
  case (1 c need)
  then show ?case
    by (cases "c < need \<and> 0 < c") (auto simp add: grow_cap.simps [of c need])
qed

lemma grow_cap_upper: "grow_cap c need \<le> max c (2 * need)"
proof (induction c need rule: grow_cap.induct)
  case (1 c need)
  then show ?case
    by (cases "c < need \<and> 0 < c") (auto simp add: grow_cap.simps [of c need])
qed

text \<open>The capacity step shared by all buffers: start size \<open>init\<close> when nothing is allocated yet.\<close>

definition next_cap :: "nat \<Rightarrow> nat \<Rightarrow> nat \<Rightarrow> nat" where
  "next_cap init cap need =
     (if cap < need then grow_cap (if cap = 0 then init else cap) need else cap)"

lemma next_cap_ge: "0 < init \<Longrightarrow> need \<le> next_cap init cap need"
  by (auto simp: next_cap_def intro: grow_cap_ge)

lemma next_cap_upper:
  "next_cap init cap need \<le> max (max init cap) (2 * need)"
  using grow_cap_upper [of "if cap = 0 then init else cap" need]
  by (auto simp: next_cap_def split: if_splits)

section \<open>C strings\<close>

text \<open>
  A C string is modelled by the characters before its terminating NUL. \<open>cstr\<close> reads the string at
  the start of a memory area; \<open>snprintf_s n s\<close> is what \<open>snprintf(buf, n, "%s", s)\<close> leaves in a
  buffer of \<open>n\<close> bytes.
\<close>

definition cstr :: "'a::zero list \<Rightarrow> 'a list" where
  "cstr m = takeWhile (\<lambda>c. c \<noteq> 0) m"

definition snprintf_s :: "nat \<Rightarrow> 'a list \<Rightarrow> 'a list" where
  "snprintf_s n s = take (n - 1) s"

lemma length_snprintf_s: "length (snprintf_s n s) \<le> n - 1"
  by (simp add: snprintf_s_def)

lemma snprintf_s_id: "length s < n \<Longrightarrow> snprintf_s n s = s"
  by (simp add: snprintf_s_def)

lemma cstr_append_0: "0 \<notin> set s \<Longrightarrow> cstr (s @ 0 # r) = s"
  by (induction s) (auto simp: cstr_def)

section \<open>Lists\<close>

text \<open>Linked lists of the program are walked from the head; \<open>list_find\<close> is that first match.\<close>

lemma find_Some_in: "List.find P xs = Some x \<Longrightarrow> x \<in> set xs \<and> P x"
  by (induction xs) (auto split: if_splits)

lemma find_None_iff_all: "List.find P xs = None \<longleftrightarrow> (\<forall>x \<in> set xs. \<not> P x)"
  by (induction xs) auto

lemma find_map_unique:
  "distinct (map f xs) \<Longrightarrow> x \<in> set xs \<Longrightarrow> List.find (\<lambda>y. f y = f x) xs = Some x"
  by (induction xs) (auto simp: rev_image_eqI)

lemma take_append_exact [simp]: "length xs = n \<Longrightarrow> take n (xs @ ys) = xs"
  by simp

lemma drop_append_exact [simp]: "length xs = n \<Longrightarrow> drop n (xs @ ys) = ys"
  by simp

end
