(* ===== verification/Wire.thy ===== *)
theory Wire
  imports Prelude
begin

text \<open>
  \<open>common/include/tunnelmate/common.h\<close>: protocol constants, message types, status codes and the
  big-endian readers and writers. A pointer into a buffer is the list of bytes from that address on.
\<close>

section \<open>Constants and enumerations\<close>

definition TM_PROTO_VERSION :: u8 where "TM_PROTO_VERSION = 1"
definition TM_PROTO_STRING :: string where "TM_PROTO_STRING = ''TunnelMate/1''"
definition TM_PROTO_STRING_LEN :: nat where "TM_PROTO_STRING_LEN = 11"
definition TM_MAX_FRAME_PAYLOAD :: nat where "TM_MAX_FRAME_PAYLOAD = 256 * 1024"
definition TM_MAX_TUNNEL_ID :: nat where "TM_MAX_TUNNEL_ID = 128"
definition TM_MAX_SECRET :: nat where "TM_MAX_SECRET = 256"
definition TM_DEFAULT_DATAGRAM :: int where "TM_DEFAULT_DATAGRAM = 1400"

text \<open>The largest chunk one TLS read delivers (\<open>common/src/tls.c\<close>).\<close>

definition TM_SSL_INBUF_SIZE :: nat where "TM_SSL_INBUF_SIZE = 65536"

definition TM_MSG_HELLO :: u8 where "TM_MSG_HELLO = 1"
definition TM_MSG_HELLO_ACK :: u8 where "TM_MSG_HELLO_ACK = 2"
definition TM_MSG_REGISTER :: u8 where "TM_MSG_REGISTER = 3"
definition TM_MSG_REGISTER_OK :: u8 where "TM_MSG_REGISTER_OK = 4"
definition TM_MSG_REGISTER_ERROR :: u8 where "TM_MSG_REGISTER_ERROR = 5"
definition TM_MSG_PING :: u8 where "TM_MSG_PING = 6"
definition TM_MSG_PONG :: u8 where "TM_MSG_PONG = 7"
definition TM_MSG_OPEN_STREAM :: u8 where "TM_MSG_OPEN_STREAM = 8"
definition TM_MSG_OPEN_STREAM_ACK :: u8 where "TM_MSG_OPEN_STREAM_ACK = 9"
definition TM_MSG_OPEN_STREAM_ERROR :: u8 where "TM_MSG_OPEN_STREAM_ERROR = 10"
definition TM_MSG_DATA_BIND :: u8 where "TM_MSG_DATA_BIND = 11"
definition TM_MSG_DATA_BIND_OK :: u8 where "TM_MSG_DATA_BIND_OK = 12"
definition TM_MSG_DATA_BIND_ERROR :: u8 where "TM_MSG_DATA_BIND_ERROR = 13"
definition TM_MSG_CLOSE_STREAM :: u8 where "TM_MSG_CLOSE_STREAM = 14"
definition TM_MSG_GOING_AWAY :: u8 where "TM_MSG_GOING_AWAY = 15"
definition TM_MSG_ERROR :: u8 where "TM_MSG_ERROR = 16"
definition TM_MSG_KILL_STREAM :: u8 where "TM_MSG_KILL_STREAM = 17"
definition TM_MSG_AUTH :: u8 where "TM_MSG_AUTH = 19"
definition TM_MSG_AUTH_OK :: u8 where "TM_MSG_AUTH_OK = 20"
definition TM_MSG_AUTH_ERROR :: u8 where "TM_MSG_AUTH_ERROR = 21"

lemmas msg_defs =
  TM_MSG_HELLO_def TM_MSG_HELLO_ACK_def TM_MSG_REGISTER_def TM_MSG_REGISTER_OK_def
  TM_MSG_REGISTER_ERROR_def TM_MSG_PING_def TM_MSG_PONG_def TM_MSG_OPEN_STREAM_def
  TM_MSG_OPEN_STREAM_ACK_def TM_MSG_OPEN_STREAM_ERROR_def TM_MSG_DATA_BIND_def
  TM_MSG_DATA_BIND_OK_def TM_MSG_DATA_BIND_ERROR_def TM_MSG_CLOSE_STREAM_def
  TM_MSG_GOING_AWAY_def TM_MSG_ERROR_def TM_MSG_KILL_STREAM_def TM_MSG_AUTH_def
  TM_MSG_AUTH_OK_def TM_MSG_AUTH_ERROR_def

definition TM_ENV_FLAG_DIR_P2S :: u8 where "TM_ENV_FLAG_DIR_P2S = 1"
definition TM_ENV_FLAG_AUTH_REQ :: u8 where "TM_ENV_FLAG_AUTH_REQ = 2"
definition TM_ENV_FLAG_AUTH_OK :: u8 where "TM_ENV_FLAG_AUTH_OK = 4"
definition TM_ENV_FLAG_AUTH_ERR :: u8 where "TM_ENV_FLAG_AUTH_ERR = 8"
definition TM_ENV_FLAG_ALL :: u8 where
  "TM_ENV_FLAG_ALL =
     TM_ENV_FLAG_DIR_P2S OR TM_ENV_FLAG_AUTH_REQ OR TM_ENV_FLAG_AUTH_OK OR TM_ENV_FLAG_AUTH_ERR"

lemmas env_flag_defs =
  TM_ENV_FLAG_DIR_P2S_def TM_ENV_FLAG_AUTH_REQ_def TM_ENV_FLAG_AUTH_OK_def
  TM_ENV_FLAG_AUTH_ERR_def TM_ENV_FLAG_ALL_def

datatype tm_proto = TM_PROTO_TCP | TM_PROTO_UDP

datatype tm_status =
    TM_OK | TM_ERR | TM_ERR_AGAIN | TM_ERR_EOF | TM_ERR_PROTO | TM_ERR_TLS | TM_ERR_OOM
  | TM_ERR_BUSY | TM_ERR_NOTFOUND | TM_ERR_FULL | TM_ERR_INVALID | TM_ERR_IO

section \<open>Big-endian integers\<close>

definition rd_u16 :: "bytes \<Rightarrow> u16" where
  [wire_simps]: "rd_u16 p = push_bit 8 (ucast (p ! 0)) OR ucast (p ! 1)"

definition rd_u32 :: "bytes \<Rightarrow> u32" where
  [wire_simps]: "rd_u32 p =
     push_bit 24 (ucast (p ! 0)) OR push_bit 16 (ucast (p ! 1)) OR
     push_bit 8 (ucast (p ! 2)) OR ucast (p ! 3)"

definition rd_u64 :: "bytes \<Rightarrow> u64" where
  [wire_simps]: "rd_u64 p = push_bit 32 (ucast (rd_u32 p)) OR ucast (rd_u32 (drop 4 p))"

definition wr_u16 :: "u16 \<Rightarrow> bytes" where
  [wire_simps]: "wr_u16 v = [ucast (drop_bit 8 v), ucast v]"

definition wr_u32 :: "u32 \<Rightarrow> bytes" where
  [wire_simps]: "wr_u32 v =
     [ucast (drop_bit 24 v), ucast (drop_bit 16 v), ucast (drop_bit 8 v), ucast v]"

definition wr_u64 :: "u64 \<Rightarrow> bytes" where
  [wire_simps]: "wr_u64 v = wr_u32 (ucast (drop_bit 32 v)) @ wr_u32 (ucast v)"

lemma length_wr_u16 [simp]: "length (wr_u16 v) = 2"
  by (simp add: wr_u16_def)

lemma length_wr_u32 [simp]: "length (wr_u32 v) = 4"
  by (simp add: wr_u32_def)

lemma length_wr_u64 [simp]: "length (wr_u64 v) = 8"
  by (simp add: wr_u64_def)

lemma rd_wr_u16 [simp]: "rd_u16 (wr_u16 v @ r) = v"
  by (rule bit_word_eqI) (auto simp: wire_simps bit_simps)

lemma rd_wr_u32 [simp]: "rd_u32 (wr_u32 v @ r) = v"
proof (rule bit_word_eqI)
  fix n assume "n < LENGTH(32)"
  then show "bit (rd_u32 (wr_u32 v @ r)) n = bit v n"
    by (cases "n < 8"; cases "n < 16"; cases "n < 24") (auto simp: wire_simps bit_simps)
qed

lemma rd_wr_u64 [simp]: "rd_u64 (wr_u64 v @ r) = v"
proof -
  have "rd_u64 (wr_u64 v @ r) = push_bit 32 (ucast (ucast (drop_bit 32 v) :: u32)) OR ucast (ucast v :: u32)"
    by (simp add: rd_u64_def wr_u64_def)
  also have "\<dots> = v"
    by (rule bit_word_eqI) (auto simp: bit_simps)
  finally show ?thesis .
qed

lemma not_bit_u8_high [simp]: "8 \<le> n \<Longrightarrow> \<not> bit (w :: u8) n"
  using bit_imp_le_length [of w n] by auto

lemma wr_rd_u16: "wr_u16 (rd_u16 (a # b # r)) = [a, b]"
  by (auto simp: wire_simps bit_simps intro!: bit_word_eqI)

lemma wr_rd_u32: "wr_u32 (rd_u32 (a # b # c # d # r)) = [a, b, c, d]"
  by (auto simp: wire_simps bit_simps intro!: bit_word_eqI)

section \<open>Bits of a byte\<close>

lemma word_or_zero: "(x :: u8) OR y = 0 \<longleftrightarrow> x = 0 \<and> y = 0"
  by (auto simp: bit_eq_iff bit_simps)

lemma word_xor_zero: "(x :: u8) XOR y = 0 \<longleftrightarrow> x = y"
  by (auto simp: bit_eq_iff bit_simps)

lemma nat_and_mask: "(x :: nat) AND mask m = x mod 2 ^ m"
  by (simp add: take_bit_eq_mod flip: take_bit_eq_mask)

lemma nat_and_high_mask:
  assumes "(x :: nat) < 2 ^ (n + m)"
  shows "x AND push_bit n (mask m) = 2 ^ n * (x div 2 ^ n)"
proof -
  have "x AND push_bit n (mask m) = push_bit n (take_bit m (drop_bit n x))"
    by (rule bit_eqI) (auto simp: bit_simps)
  moreover have "take_bit m (drop_bit n x) = drop_bit n x"
    using assms by (simp add: take_bit_nat_eq_self drop_bit_eq_div less_mult_imp_div_less power_add
        mult.commute)
  ultimately show ?thesis by (simp add: push_bit_eq_mult drop_bit_eq_div)
qed

lemma div_eq_range: "0 < k \<Longrightarrow> n div k = q \<longleftrightarrow> q * k \<le> n \<and> n < Suc q * (k :: nat)"
  by (metis div_nat_eqI div_less_iff_less_mult less_Suc_eq_le less_eq_div_iff_mult_less_eq
      mult.commute order_antisym order_refl)

lemma u8_lt: "unat (c :: u8) < 256"
  using unsigned_less [of c] by simp

lemmas u8_mask_simps = word_unat_eq_iff unsigned_and_eq mask_eq_exp_minus_1 push_bit_eq_mult

lemma lead_masks:
  "(c :: u8) AND 0xE0 = 0xC0 \<longleftrightarrow> 0xC0 \<le> unat c \<and> unat c < 0xE0"
  "c AND 0xF0 = 0xE0 \<longleftrightarrow> 0xE0 \<le> unat c \<and> unat c < 0xF0"
  "c AND 0xF8 = 0xF0 \<longleftrightarrow> 0xF0 \<le> unat c \<and> unat c < 0xF8"
  "c AND 0xC0 = 0x80 \<longleftrightarrow> 0x80 \<le> unat c \<and> unat c < 0xC0"
  using nat_and_high_mask [of "unat c" 5 3] div_eq_range [of 32 "unat c" 6]
    nat_and_high_mask [of "unat c" 4 4] div_eq_range [of 16 "unat c" 14]
    nat_and_high_mask [of "unat c" 3 5] div_eq_range [of 8 "unat c" 30]
    nat_and_high_mask [of "unat c" 6 2] div_eq_range [of 64 "unat c" 2] u8_lt [of c]
  by (simp_all add: u8_mask_simps)

lemma payload_masks:
  "unat ((c :: u8) AND 0x1F) = unat c mod 32" "unat (c AND 0x0F) = unat c mod 16"
  "unat (c AND 0x07) = unat c mod 8" "unat (c AND 0x3F) = unat c mod 64"
  using nat_and_mask [of "unat c" 5] nat_and_mask [of "unat c" 4] nat_and_mask [of "unat c" 3]
    nat_and_mask [of "unat c" 6]
  by (simp_all add: u8_mask_simps)

lemma u8_nibbles: "unat (drop_bit 4 (c :: u8)) = unat c div 16" "unat (c AND 0xF) = unat c mod 16"
  using payload_masks(2) [of c] by (simp_all add: drop_bit_eq_div unat_div)

end
