(* ===== verification/Utf8.thy ===== *)
theory Utf8
  imports Wire
begin

text \<open>
  \<open>common/src/common.c\<close>: the UTF-8 check and the constant-time comparison. Memory is a byte list
  and a read outside it is the outcome \<open>None\<close>, so that the bounds of the reads are part of the
  model. The reference definition is the byte-range table of RFC 3629.
\<close>

section \<open>Model\<close>

definition load :: "bytes \<Rightarrow> nat \<Rightarrow> u8 option" where
  "load m i = (if i < length m then Some (m ! i) else None)"

text \<open>The inner \<open>for\<close> loop over the continuation bytes: \<open>Some None\<close> is its \<open>return false\<close>.\<close>

fun utf8_cont :: "bytes \<Rightarrow> nat \<Rightarrow> nat \<Rightarrow> u32 \<Rightarrow> u32 option option" where
  "utf8_cont m i 0 cp = Some (Some cp)"
| "utf8_cont m i (Suc k) cp =
     (case load m i of
        None \<Rightarrow> None
      | Some b \<Rightarrow> if b AND 0xC0 \<noteq> 0x80 then Some None
                 else utf8_cont m (Suc i) k (push_bit 6 cp OR ucast (b AND 0x3F)))"

definition utf8_lead :: "u8 \<Rightarrow> (u32 \<times> nat) option" where
  "utf8_lead c =
     (if c AND 0xE0 = 0xC0 then Some (ucast (c AND 0x1F), 1)
      else if c AND 0xF0 = 0xE0 then Some (ucast (c AND 0x0F), 2)
      else if c AND 0xF8 = 0xF0 then Some (ucast (c AND 0x07), 3)
      else None)"

definition utf8_bad_cp :: "nat \<Rightarrow> u32 \<Rightarrow> bool" where
  "utf8_bad_cp cont cp \<longleftrightarrow>
     cont = 1 \<and> cp < 0x80 \<or> cont = 2 \<and> cp < 0x800 \<or> cont = 3 \<and> cp < 0x10000 \<or> cp > 0x10FFFF \<or>
     cp \<ge> 0xD800 \<and> cp \<le> 0xDFFF"

function utf8_loop :: "bytes \<Rightarrow> nat \<Rightarrow> nat \<Rightarrow> bool option" where
  "utf8_loop s len i =
     (if \<not> i < len then Some True
      else case load s i of
        None \<Rightarrow> None
      | Some c \<Rightarrow>
          if c < 0x80 then utf8_loop s len (i + 1)
          else case utf8_lead c of
            None \<Rightarrow> Some False
          | Some (cp, cont) \<Rightarrow>
              if len + 1 \<le> i + cont then Some False
              else if len < i + cont then Some False
              else case utf8_cont s (i + 1) cont cp of
                None \<Rightarrow> None
              | Some None \<Rightarrow> Some False
              | Some (Some cp) \<Rightarrow>
                  if utf8_bad_cp cont cp then Some False else utf8_loop s len (i + cont + 1))"
  by pat_completeness auto
termination
  by (relation "measure (\<lambda>(s, len, i). len - i)") auto

declare utf8_loop.simps [simp del]

definition tm_utf8_valid :: "bytes \<Rightarrow> nat \<Rightarrow> bool option" where
  "tm_utf8_valid s len = utf8_loop s len 0"

fun ct_loop :: "u8 \<Rightarrow> bytes \<Rightarrow> bytes \<Rightarrow> nat \<Rightarrow> u8" where
  "ct_loop diff a b 0 = diff"
| "ct_loop diff a b (Suc n) = ct_loop (diff OR (hd a XOR hd b)) (tl a) (tl b) n"

definition tm_ct_eq :: "bytes \<Rightarrow> bytes \<Rightarrow> nat \<Rightarrow> bool" where
  "tm_ct_eq a b len \<longleftrightarrow> ct_loop 0 a b len = 0"

section \<open>Constant-time comparison\<close>

lemma ct_loop_zero:
  "n \<le> length a \<Longrightarrow> n \<le> length b \<Longrightarrow> ct_loop d a b n = 0 \<longleftrightarrow> d = 0 \<and> take n a = take n b"
proof (induction n arbitrary: d a b)
  case (Suc n)
  then show ?case
    by (cases a; cases b) (auto simp: word_or_zero word_xor_zero)
qed simp

text \<open>
  The constant-time comparison decides equality of its first \<open>len\<close> bytes.
\<close>
lemma tm_ct_eq_correct:
  assumes "len \<le> length a" "len \<le> length b"
  shows "tm_ct_eq a b len \<longleftrightarrow> take len a = take len b"
  using ct_loop_zero [OF assms, of 0] by (simp add: tm_ct_eq_def)

section \<open>UTF-8: equivalence with RFC 3629\<close>

definition tail :: "u8 \<Rightarrow> bool" where
  "tail b \<longleftrightarrow> 0x80 \<le> b \<and> b \<le> 0xBF"

fun utf8_ref :: "bytes \<Rightarrow> bool" where
  "utf8_ref [] = True"
| "utf8_ref (a # s) =
     (if a \<le> 0x7F then utf8_ref s
      else if 0xC2 \<le> a \<and> a \<le> 0xDF then
        (case s of b # t \<Rightarrow> tail b \<and> utf8_ref t | _ \<Rightarrow> False)
      else if 0xE0 \<le> a \<and> a \<le> 0xEF then
        (case s of b # c # t \<Rightarrow>
             tail b \<and> (a = 0xE0 \<longrightarrow> 0xA0 \<le> b) \<and> (a = 0xED \<longrightarrow> b \<le> 0x9F) \<and> tail c \<and> utf8_ref t
         | _ \<Rightarrow> False)
      else if 0xF0 \<le> a \<and> a \<le> 0xF4 then
        (case s of b # c # d # t \<Rightarrow>
             tail b \<and> (a = 0xF0 \<longrightarrow> 0x90 \<le> b) \<and> (a = 0xF4 \<longrightarrow> b \<le> 0x8F) \<and>
             tail c \<and> tail d \<and> utf8_ref t
         | _ \<Rightarrow> False)
      else False)"

lemma unat_push6:
  assumes b: "unat b < 64" and cp: "unat cp < 2 ^ 26"
  shows "unat (push_bit 6 (cp :: u32) OR b) = 64 * unat cp + unat b"
proof -
  have "push_bit 6 cp AND b = 0"
  proof (rule bit_word_eqI)
    fix n
    have "take_bit 6 b = b" using b by (simp add: take_bit_eq_mod word_unat_eq_iff unat_mod)
    then have "bit b n \<Longrightarrow> n < 6" by (metis bit_take_bit_iff)
    then show "bit (push_bit 6 cp AND b) n = bit (0 :: u32) n" by (auto simp: bit_simps)
  qed
  then have "push_bit 6 cp OR b = push_bit 6 cp + b" by (simp add: disjunctive_add_eq_or)
  also have "unat \<dots> = 64 * unat cp + unat b"
    using b cp by (simp add: push_bit_eq_mult unat_word_ariths)
  finally show ?thesis .
qed

lemma tail_unat: "tail b \<longleftrightarrow> 0x80 \<le> unat b \<and> unat b < 0xC0"
  by (auto simp: tail_def word_le_nat_alt)

lemma tail_0 [simp]: "\<not> tail 0"
  by (simp add: tail_unat)

text \<open>One continuation byte: the code point becomes \<open>64 * cp + (b - 128)\<close>.\<close>

definition cp_step :: "u32 \<Rightarrow> u8 \<Rightarrow> u32" where
  "cp_step cp b = push_bit 6 cp OR ucast (b AND 0x3F)"

lemma unat_cp_step:
  "tail b \<Longrightarrow> unat cp < 2 ^ 26 \<Longrightarrow> unat (cp_step cp b) = 64 * unat cp + (unat b - 128)"
proof -
  assume b: "tail b" and cp: "unat cp < 2 ^ 26"
  have "unat (ucast (b AND 0x3F) :: u32) = unat b mod 64"
    using payload_masks(4) [of b] by (simp add: unsigned_ucast_eq take_bit_nat_eq_self)
  moreover have "unat b mod 64 = unat b - 128"
    using b by (intro mod_nat_eqI) (auto simp: tail_unat)
  ultimately show ?thesis using unat_push6 [OF _ cp] b by (simp add: cp_step_def tail_unat)
qed

lemma utf8_cont_step:
  "utf8_cont (p @ b # t) (length p) (Suc k) cp =
     (if tail b then utf8_cont ((p @ [b]) @ t) (length (p @ [b])) k (cp_step cp b) else Some None)"
  by (simp add: load_def lead_masks tail_unat cp_step_def)

lemma utf8_lead_cases:
  obtains (bad) "utf8_lead c = None" "\<not> (0xC0 \<le> unat c \<and> unat c < 0xF8)"
  | (one) "utf8_lead c = Some (ucast (c AND 0x1F), 1)" "0xC0 \<le> unat c" "unat c < 0xE0"
      "unat (ucast (c AND 0x1F) :: u32) = unat c - 0xC0"
  | (two) "utf8_lead c = Some (ucast (c AND 0x0F), 2)" "0xE0 \<le> unat c" "unat c < 0xF0"
      "unat (ucast (c AND 0x0F) :: u32) = unat c - 0xE0"
  | (three) "utf8_lead c = Some (ucast (c AND 0x07), 3)" "0xF0 \<le> unat c" "unat c < 0xF8"
      "unat (ucast (c AND 0x07) :: u32) = unat c - 0xF0"
proof -
  have u: "unat (ucast (w :: u8) :: u32) = unat w" for w
    using u8_lt [of w] by (simp add: unsigned_ucast_eq take_bit_nat_eq_self)
  have m: "0xC0 \<le> unat c \<Longrightarrow> unat c < 0xE0 \<Longrightarrow> unat c mod 32 = unat c - 0xC0"
    "0xE0 \<le> unat c \<Longrightarrow> unat c < 0xF0 \<Longrightarrow> unat c mod 16 = unat c - 0xE0"
    "0xF0 \<le> unat c \<Longrightarrow> unat c < 0xF8 \<Longrightarrow> unat c mod 8 = unat c - 0xF0"
    by (auto intro!: mod_nat_eqI)
  consider "0xC0 \<le> unat c \<and> unat c < 0xE0" | "0xE0 \<le> unat c \<and> unat c < 0xF0"
    | "0xF0 \<le> unat c \<and> unat c < 0xF8" | "\<not> (0xC0 \<le> unat c \<and> unat c < 0xF8)" by linarith
  then show thesis
    by cases (auto simp: utf8_lead_def lead_masks u payload_masks m intro: one two three bad)
qed

lemma utf8_bad_cp_unat:
  "utf8_bad_cp k cp \<longleftrightarrow> k = 1 \<and> unat cp < 0x80 \<or> k = 2 \<and> unat cp < 0x800 \<or>
     k = 3 \<and> unat cp < 0x10000 \<or> unat cp > 0x10FFFF \<or> unat cp \<ge> 0xD800 \<and> unat cp \<le> 0xDFFF"
  by (simp add: utf8_bad_cp_def word_less_nat_alt word_le_nat_alt)

text \<open>The continuation loop on a NUL-terminated tail: a missing byte reads the terminator.\<close>

fun conts :: "bytes \<Rightarrow> nat \<Rightarrow> u32 \<Rightarrow> u32 option" where
  "conts t 0 cp = Some cp"
| "conts [] (Suc k) cp = None"
| "conts (b # t) (Suc k) cp = (if tail b then conts t k (cp_step cp b) else None)"

lemma utf8_cont_conts: "utf8_cont (q @ t @ [0]) (length q) k cp = Some (conts t k cp)"
proof (induction t k cp arbitrary: q rule: conts.induct)
  case (2 k cp)
  then show ?case using utf8_cont_step [of q 0 "[]" k cp] by simp
next
  case (3 b t k cp)
  show ?case
    using utf8_cont_step [of q b "t @ [0]" k cp] "3" [of "q @ [b]"] by simp
qed simp

lemma conts_length: "conts t k cp = Some x \<Longrightarrow> k \<le> length t"
  by (induction t k cp rule: conts.induct) (auto split: if_splits)

lemma cp_range2:
  fixes x y z :: nat
  assumes "x < 16" "y < 64" "z < 64"
  shows "4096 * x + 64 * y + z < 0x800 \<longleftrightarrow> x = 0 \<and> y < 32"
    "0xD800 \<le> 4096 * x + 64 * y + z \<and> 4096 * x + 64 * y + z \<le> 0xDFFF \<longleftrightarrow> x = 13 \<and> 32 \<le> y"
    "\<not> 0x10FFFF < 4096 * x + 64 * y + z"
  subgoal using assms by linarith
  subgoal
  proof -
    consider "x \<le> 12" | "x = 13" | "14 \<le> x" by linarith
    then show ?thesis using assms by cases linarith+
  qed
  subgoal using assms by linarith
  done

lemma cp_range3:
  fixes x y z w :: nat
  assumes "x < 8" "y < 64" "z < 64" "w < 64"
  shows "262144 * x + 4096 * y + 64 * z + w < 0x10000 \<longleftrightarrow> x = 0 \<and> y < 16"
    "0x10FFFF < 262144 * x + 4096 * y + 64 * z + w \<longleftrightarrow> 4 < x \<or> x = 4 \<and> 16 \<le> y"
  using assms by linarith+

lemma bad_cp2:
  assumes "224 \<le> unat a" "unat a < 240" "tail b" "tail c"
    and "unat cp = 4096 * (unat a - 224) + 64 * (unat b - 128) + (unat c - 128)"
  shows "utf8_bad_cp 2 cp \<longleftrightarrow> unat a = 0xE0 \<and> unat b < 0xA0 \<or> unat a = 0xED \<and> 0x9F < unat b"
proof -
  obtain x y z where xyz: "unat a = 224 + x" "unat b = 128 + y" "unat c = 128 + z"
    using assms(1,3,4) by (auto simp: tail_unat le_iff_add)
  then have "x < 16" "y < 64" "z < 64" using assms(2-4) by (auto simp: tail_unat)
  note cp_range2 [OF this]
  then have "utf8_bad_cp 2 cp \<longleftrightarrow> x = 0 \<and> y < 32 \<or> x = 13 \<and> 32 \<le> y"
    unfolding utf8_bad_cp_unat assms(5) xyz by simp
  then show ?thesis unfolding xyz by auto
qed

lemma bad_cp3:
  assumes "240 \<le> unat a" "unat a < 248" "tail b" "tail c" "tail d"
    and "unat cp = 262144 * (unat a - 240) + 4096 * (unat b - 128) + 64 * (unat c - 128) + (unat d - 128)"
  shows "utf8_bad_cp 3 cp \<longleftrightarrow>
    unat a = 0xF0 \<and> unat b < 0x90 \<or> 0xF4 < unat a \<or> unat a = 0xF4 \<and> 0x8F < unat b"
proof -
  obtain x y z w where xyz: "unat a = 240 + x" "unat b = 128 + y" "unat c = 128 + z" "unat d = 128 + w"
    using assms(1,3-5) by (auto simp: tail_unat le_iff_add)
  then have "x < 8" "y < 64" "z < 64" "w < 64" using assms(2-5) by (auto simp: tail_unat)
  note cp_range3 [OF this]
  then have "utf8_bad_cp 3 cp \<longleftrightarrow> (x = 0 \<and> y < 16) \<or> (4 < x \<or> x = 4 \<and> 16 \<le> y)"
    unfolding utf8_bad_cp_unat assms(6) xyz by auto
  then show ?thesis unfolding xyz by auto
qed

lemma utf8_ref_multibyte:
  assumes "\<not> a \<le> 0x7F"
  shows "utf8_ref (a # t) = (case utf8_lead a of None \<Rightarrow> False | Some (cp, k) \<Rightarrow>
     (case conts t k cp of None \<Rightarrow> False | Some cp \<Rightarrow> \<not> utf8_bad_cp k cp \<and> utf8_ref (drop k t)))"
proof (cases rule: utf8_lead_cases [of a])
  case bad
  then show ?thesis using assms by (auto simp: word_le_nat_alt)
next
  case one
  then show ?thesis using assms
    by (cases t) (auto simp: word_le_nat_alt utf8_bad_cp_unat unat_cp_step tail_unat)
next
  case two
  show ?thesis
  proof (cases "\<exists>b c u. t = b # c # u \<and> tail b \<and> tail c")
    case True
    then obtain b c u where t: "t = b # c # u" "tail b" "tail c" by blast
    have "unat (cp_step (cp_step (ucast (a AND 0x0F)) b) c) =
        4096 * (unat a - 0xE0) + 64 * (unat b - 128) + (unat c - 128)"
      using two u8_lt [of b] by (simp add: unat_cp_step t(2,3))
    note bad = bad_cp2 [OF two(2,3) t(2,3) this]
    have "conts t 2 cp = Some (cp_step (cp_step cp b) c)" for cp using t by (simp add: numeral_2_eq_2)
    then show ?thesis using assms two(1-3) t
      by (auto simp: word_le_nat_alt bad word_unat_eq_iff)
  next
    case False
    then have "conts t 2 cp = None" for cp
      by (cases t; cases "tl t") (auto simp: numeral_2_eq_2)
    then show ?thesis using assms two False
      by (auto simp: word_le_nat_alt split: list.split)
  qed
next
  case three
  show ?thesis
  proof (cases "\<exists>b c d u. t = b # c # d # u \<and> tail b \<and> tail c \<and> tail d")
    case True
    then obtain b c d u where t: "t = b # c # d # u" "tail b" "tail c" "tail d" by blast
    have "unat (cp_step (cp_step (cp_step (ucast (a AND 0x07)) b) c) d) =
        262144 * (unat a - 0xF0) + 4096 * (unat b - 128) + 64 * (unat c - 128) + (unat d - 128)"
      using three u8_lt [of b] u8_lt [of c] by (simp add: unat_cp_step t(2-4))
    note bad = bad_cp3 [OF three(2,3) t(2-4) this]
    have "conts t 3 cp = Some (cp_step (cp_step (cp_step cp b) c) d)" for cp
      using t by (simp add: numeral_3_eq_3)
    then show ?thesis using assms three(1-3) t
      by (auto simp: word_le_nat_alt bad word_unat_eq_iff)
  next
    case False
    then have "conts t 3 cp = None" for cp
      by (cases t; cases "tl t"; cases "tl (tl t)") (auto simp: numeral_3_eq_3)
    then show ?thesis using assms three False
      by (auto simp: word_le_nat_alt split: list.split)
  qed
qed

lemma utf8_loop_ref:
  "utf8_loop (p @ s @ [0]) (length p + length s) (length p) = Some (utf8_ref s)"
proof (induction s arbitrary: p rule: length_induct)
  case (1 s)
  show ?case
  proof (cases s)
    case Nil
    then show ?thesis by (simp add: utf8_loop.simps)
  next
    case s: (Cons a t)
    have skip: "utf8_loop (p @ s @ [0]) (length p + length s) (length p + k + 1) = Some (utf8_ref (drop k t))"
      if "k \<le> length t" for k
    proof -
      let ?q = "p @ a # take k t"
      have m: "?q @ drop k t @ [0] = p @ s @ [0]"
        unfolding s by (metis append.assoc append_Cons append_take_drop_id)
      have n: "length ?q + length (drop k t) = length p + length s" "length ?q = length p + k + 1"
        using that by (simp_all add: s)
      have "length (drop k t) < length s" by (simp add: s)
      with 1 have "utf8_loop (?q @ drop k t @ [0]) (length ?q + length (drop k t)) (length ?q) =
          Some (utf8_ref (drop k t))" by blast
      then show ?thesis unfolding m n(1) unfolding n(2) .
    qed
    have unf: "utf8_loop (p @ s @ [0]) (length p + length s) (length p) =
      (if a < 0x80 then Some (utf8_ref t)
       else case utf8_lead a of None \<Rightarrow> Some False
         | Some (cp, k) \<Rightarrow> if length s < k then Some False
             else case conts t k cp of None \<Rightarrow> Some False
                | Some cp \<Rightarrow> Some (\<not> utf8_bad_cp k cp \<and> utf8_ref (drop k t)))"
      using utf8_cont_conts [of "p @ [a]" t] skip [of 0] skip [OF conts_length]
      unfolding utf8_loop.simps [of "p @ s @ [0]" _ "length p"]
      by (auto simp: s load_def split: option.split)
    show ?thesis
    proof (cases "a \<le> 0x7F")
      case True
      then have "a < 0x80" by (simp add: word_less_nat_alt word_le_nat_alt)
      with True show ?thesis unfolding unf by (simp add: s)
    next
      case False
      then have "\<not> a < 0x80" by (simp add: word_less_nat_alt word_le_nat_alt)
      then have "utf8_loop (p @ s @ [0]) (length p + length s) (length p) = Some (utf8_ref (a # t))"
        unfolding unf utf8_ref_multibyte [OF False]
        by (auto simp: s dest: conts_length split: option.split)
      then show ?thesis by (simp only: s)
    qed
  qed
qed


text \<open>
  Without the terminator the check reads one byte past the end: a buffer that holds exactly a
  lead byte (or ends in a truncated sequence) makes it load the byte at index \<open>len\<close>.
\<close>
lemma tm_utf8_valid_overread:
  "0xC0 \<le> unat c \<Longrightarrow> unat c < 0xE0 \<Longrightarrow> tm_utf8_valid [c] 1 = None"
  by (cases rule: utf8_lead_cases [of c])
    (auto simp: tm_utf8_valid_def utf8_loop.simps [of _ _ 0] load_def word_less_nat_alt)

end
