(* ===== verification/IoLeg.thy ===== *)
theory IoLeg
  imports Wire
begin

text \<open>
  The interface of a relay leg (\<open>common/include/tunnelmate/io.h\<close>): what \<open>tm_io_write\<close> promises to
  the relay, as the locale \<open>io_leg\<close>, and the client side of that contract, the loop of
  \<open>flush_pend\<close> (\<open>broker/src/relay.c\<close>) that feeds a queue into a leg. The raw TCP leg, the TLS leg and
  their dispatch \<open>tm_io\<close> are the instances.

  A callback into the owner is an \<open>upcall\<close> in the result of the operation that makes it.
\<close>

definition TM_IO_HIGH_WATER :: nat where "TM_IO_HIGH_WATER = 256 * 1024"
definition TM_IO_LOW_WATER :: nat where "TM_IO_LOW_WATER = 128 * 1024"

datatype upcall = UpLow | UpError tm_status

datatype uv_status = UV_OK | UV_ECANCELED | UV_FAILED

fun up_error :: "upcall list \<Rightarrow> bool" where
  "up_error [] = False"
| "up_error (UpError e # ups) = True"
| "up_error (UpLow # ups) = up_error ups"

text \<open>
  The loop of \<open>flush_pend\<close> on one leg. \<open>FlError\<close> is an error callback made from inside a write that
  still returned \<open>TM_OK\<close>: the leg is then gone; the result carries the slice being written and the
  bytes behind it. A low-water callback from inside the loop finds the \<open>in_progress\<close> flag set and
  the queue non-empty, and changes nothing (\<open>relay_low_nested\<close> in theory \<open>Relay\<close>).
  \<open>FlDone\<close> carries what is left in the queue and whether the queue was dropped on a refused write.
\<close>

datatype 'i flush_result = FlDone 'i bytes bool | FlError 'i bytes bytes

function flush_loop ::
    "('i \<Rightarrow> bytes \<Rightarrow> tm_status \<times> 'i \<times> upcall list) \<Rightarrow> 'i \<Rightarrow> bytes \<Rightarrow> 'i flush_result" where
  "flush_loop wr io buf =
     (if buf = [] then FlDone io [] False
      else
        let n = (if length buf < 65536 then length buf else 65536) in
        case wr io (take n buf) of (r, io', ups) \<Rightarrow>
          if r = TM_ERR_BUSY then FlDone io' buf False
          else if r \<noteq> TM_OK then FlDone io' [] True
          else if up_error ups then FlError io' (take n buf) (drop n buf)
          else flush_loop wr io' (drop n buf))"
  by pat_completeness auto
termination
  by (relation "measure (\<lambda>(wr, io, buf). length buf)") (auto split: if_splits)

declare flush_loop.simps [simp del]

locale io_leg =
  fixes inv :: "'i \<Rightarrow> bool"
    and accepted :: "'i \<Rightarrow> bytes"
    and sent :: "'i \<Rightarrow> bytes"
    and drained :: "'i \<Rightarrow> bool"
    and put :: "'i \<Rightarrow> bytes \<Rightarrow> tm_status \<times> 'i \<times> upcall list"
  assumes write_ok: "inv i \<Longrightarrow> put i d = (TM_OK, i', ups) \<Longrightarrow> \<not> up_error ups \<Longrightarrow>
      inv i' \<and> accepted i' = accepted i @ d"
    and write_refused: "inv i \<Longrightarrow> put i d = (r, i', ups) \<Longrightarrow> r \<noteq> TM_OK \<Longrightarrow>
      inv i' \<and> accepted i' = accepted i \<and> sent i' = sent i \<and> ups = [] \<and> r \<in> {TM_ERR_BUSY, TM_ERR}"
    and write_sent: "inv i \<Longrightarrow> put i d = (r, i', ups) \<Longrightarrow> \<exists>s. sent i' = sent i @ s"
    and sent_prefix: "inv i \<Longrightarrow> \<exists>q. accepted i = sent i @ q"
    and drained_sent: "inv i \<Longrightarrow> drained i \<Longrightarrow> sent i = accepted i"
begin

lemma flush_step:
  assumes "flush_loop put io buf = FlDone io' rest dropped" "inv io" "buf \<noteq> []"
  obtains (busy) "rest = buf" "\<not> dropped" "inv io'" "accepted io' = accepted io" "sent io' = sent io"
  | (refused) "rest = []" "dropped" "inv io'" "accepted io' = accepted io" "sent io' = sent io"
  | (ok) n i1 s where "flush_loop put i1 (drop n buf) = FlDone io' rest dropped" "inv i1"
      "accepted i1 = accepted io @ take n buf" "sent i1 = sent io @ s" "length (drop n buf) < length buf"
proof -
  define n where "n = (if length buf < 65536 then length buf else 65536)"
  have n: "length (drop n buf) < length buf" using assms(3) by (simp add: n_def)
  obtain r i1 ups where w: "put io (take n buf) = (r, i1, ups)" by (cases "put io (take n buf)") auto
  have unf: "flush_loop put io buf =
      (if r = TM_ERR_BUSY then FlDone i1 buf False else if r \<noteq> TM_OK then FlDone i1 [] True
       else if up_error ups then FlError i1 (take n buf) (drop n buf) else flush_loop put i1 (drop n buf))"
    using assms(3) w by (simp add: flush_loop.simps [of put io buf] n_def Let_def)
  show thesis
  proof (cases "r = TM_OK")
    case True
    with w unf assms(1) have "\<not> up_error ups" "put io (take n buf) = (TM_OK, i1, ups)"
      by (auto split: if_splits)
    with True unf assms(1,2) write_ok [of io "take n buf"] write_sent [of io "take n buf"] n
    show thesis by (auto intro: ok)
  next
    case False
    with write_refused [OF assms(2) w] unf assms(1) show thesis
      by (auto split: if_splits intro: busy refused)
  qed
qed

text \<open>Flushing moves bytes from the queue to the leg, in order; only a refused write drops any.\<close>

lemma flush_loop_accepted:
  "flush_loop put io buf = FlDone io' rest dropped \<Longrightarrow> inv io \<Longrightarrow>
     inv io' \<and> (if dropped then rest = [] \<and> (\<exists>q. accepted io @ buf = accepted io' @ q)
               else accepted io' @ rest = accepted io @ buf)"
proof (induction buf arbitrary: io rule: length_induct)
  case (1 buf)
  show ?case
  proof (cases "buf = []")
    case True
    then show ?thesis using "1.prems" by (auto simp: flush_loop.simps)
  next
    case False
    from "1.prems" False show ?thesis
    proof (cases rule: flush_step)
      case (ok n i1 s)
      have eq: "accepted i1 @ drop n buf = accepted io @ buf" using ok(3) by simp
      from ok "1.IH" have "inv io' \<and> (if dropped then rest = [] \<and> (\<exists>q. accepted i1 @ drop n buf = accepted io' @ q)
          else accepted io' @ rest = accepted i1 @ drop n buf)"
        by blast
      then show ?thesis unfolding eq .
    qed auto
  qed
qed

lemma flush_loop_sent:
  "flush_loop put io buf = FlDone io' rest dropped \<Longrightarrow> inv io \<Longrightarrow> \<exists>s. sent io' = sent io @ s"
proof (induction buf arbitrary: io rule: length_induct)
  case (1 buf)
  show ?case
  proof (cases "buf = []")
    case True
    then show ?thesis using "1.prems" by (auto simp: flush_loop.simps)
  next
    case False
    from "1.prems" False show ?thesis
    proof (cases rule: flush_step)
      case (ok n i1 s)
      then obtain u where "sent io' = sent i1 @ u" using "1.IH" by blast
      then show ?thesis using ok(4) by simp
    qed auto
  qed
qed

text \<open>A leg that is drained has put every byte it ever accepted on the wire.\<close>

lemma flush_drained:
  assumes "inv io" "flush_loop put io buf = FlDone io' [] False" "drained io'"
  shows "sent io' = accepted io @ buf"
  using flush_loop_accepted [OF assms(2,1)] drained_sent [of io'] assms(3) by simp

end

text \<open>
  Half-close (\<open>tm_io_shutdown_send\<close>): a leg that is not half-closed refuses a write only for lack of
  room, so flushing it drops nothing; half-closing keeps every accepted byte.
\<close>

locale half_close_leg = io_leg +
  fixes shut :: "'a \<Rightarrow> bool"
    and shutdown :: "'a \<Rightarrow> 'a \<times> upcall list"
  assumes put_shut: "inv i \<Longrightarrow> put i d = (r, i', ups) \<Longrightarrow> shut i' = shut i"
    and put_open: "inv i \<Longrightarrow> \<not> shut i \<Longrightarrow> put i d = (r, i', ups) \<Longrightarrow> r \<noteq> TM_ERR"
    and shutdown_keeps: "inv i \<Longrightarrow> shutdown i = (i', ups) \<Longrightarrow> \<not> up_error ups \<Longrightarrow>
      inv i' \<and> accepted i' = accepted i \<and> shut i'"
    and shutdown_sent: "inv i \<Longrightarrow> shutdown i = (i', ups) \<Longrightarrow> \<exists>s. sent i' = sent i @ s"
begin

lemma flush_loop_open:
  "flush_loop put io buf = FlDone io' rest dropped \<Longrightarrow> inv io \<Longrightarrow> \<not> shut io \<Longrightarrow>
     \<not> dropped \<and> \<not> shut io' \<and> inv io' \<and> accepted io' @ rest = accepted io @ buf"
proof (induction buf arbitrary: io rule: length_induct)
  case (1 buf)
  let ?n = "if length buf < 65536 then length buf else 65536"
  have "\<not> dropped \<and> \<not> shut io'"
  proof (cases "buf = []")
    case True
    then show ?thesis using "1.prems" by (auto simp: flush_loop.simps)
  next
    case False
    obtain r i1 ups where w: "put io (take ?n buf) = (r, i1, ups)"
      by (cases "put io (take ?n buf)") auto
    have sh: "\<not> shut i1" "r \<noteq> TM_ERR"
      using put_shut [OF "1.prems"(2) w] put_open [OF "1.prems"(2,3) w] "1.prems"(3) by simp_all
    show ?thesis
    proof (cases "r = TM_OK")
      case True
      then have nerr: "\<not> up_error ups" and rec: "flush_loop put i1 (drop ?n buf) = FlDone io' rest dropped"
        using "1.prems"(1) False w by (auto simp: flush_loop.simps [of put io buf] Let_def split: if_splits)
      have "inv i1" using write_ok [OF "1.prems"(2)] w True nerr by blast
      moreover have "length (drop ?n buf) < length buf" using False by simp
      ultimately show ?thesis using "1.IH" rec sh(1) by blast
    next
      case no: False
      then have "r = TM_ERR_BUSY" using write_refused [OF "1.prems"(2) w] sh(2) by auto
      then show ?thesis
        using "1.prems"(1) False w sh(1) by (auto simp: flush_loop.simps [of put io buf] Let_def)
    qed
  qed
  then show ?case using flush_loop_accepted [OF "1.prems"(1,2)] by auto
qed

end

end
