(* ===== verification/IoTcp.thy ===== *)
theory IoTcp
  imports IoLeg
begin

text \<open>
  \<open>common/src/io.c\<close>, raw TCP legs: the bounded write queue in front of \<open>uv_write\<close>, half-close and
  read pausing. \<open>tc_wb\<close> holds the bytes \<open>wb[0 .. wb_len)\<close>. libuv is not part of the sources: the
  results of its immediate calls are a tape of answers in the state (\<open>tc_uv\<close>, \<open>True\<close> for
  success, further answers being successes), and its completion callbacks are events.
  \<open>tc_sent\<close> records the bytes handed to \<open>uv_write\<close>, in order. An immediate error of \<open>uv_write\<close> is
  a real failure: libuv reports a cancellation only through the completion callback.

  A callback into the owner is an \<open>upcall\<close> in the result. It is the last thing the operation does,
  except in \<open>tcp_pump\<close> and \<open>tcp_write_done\<close>, whose code after the callback is the separate
  definitions \<open>tcp_pump_tail\<close> and \<open>tcp_write_done_tail\<close>.
\<close>

section \<open>Model\<close>

record tm_io_tcp =
  tc_low_cb :: bool
  tc_error_cb :: bool
  tc_reading :: bool
  tc_uv_reading :: bool
  tc_write_closed :: bool
  tc_closed :: bool
  tc_wb :: bytes
  tc_wb_cap :: nat
  tc_wb_off :: nat
  tc_in_flight :: nat
  tc_wreq_pending :: bool
  tc_free_after_wreq :: bool
  tc_above_low :: bool
  tc_fin_sent :: bool
  tc_queued_total :: u64
  tc_sent :: bytes
  tc_uv :: "bool list"

definition tm_io_tcp_new :: "bool \<Rightarrow> bool \<Rightarrow> bool list \<Rightarrow> tm_io_tcp" where
  "tm_io_tcp_new low_cb error_cb uv =
     \<lparr>tc_low_cb = low_cb, tc_error_cb = error_cb, tc_reading = False, tc_uv_reading = False,
      tc_write_closed = False, tc_closed = False, tc_wb = [], tc_wb_cap = 0, tc_wb_off = 0,
      tc_in_flight = 0, tc_wreq_pending = False, tc_free_after_wreq = False, tc_above_low = False,
      tc_fin_sent = False, tc_queued_total = 0, tc_sent = [], tc_uv = uv\<rparr>"

definition tcp_maybe_low :: "tm_io_tcp \<Rightarrow> upcall list" where
  "tcp_maybe_low t = (if tc_wb t = [] \<and> tc_low_cb t then [UpLow] else [])"

definition tcp_fin :: "tm_io_tcp \<Rightarrow> tm_io_tcp" where
  "tcp_fin t = (if tc_fin_sent t then t else t\<lparr>tc_fin_sent := True\<rparr>)"

definition tcp_error_up :: "tm_io_tcp \<Rightarrow> upcall list" where
  "tcp_error_up t = (if tc_error_cb t \<and> \<not> tc_closed t then [UpError TM_ERR_IO] else [])"

text \<open>The part of \<open>tcp_write_done\<close> before the callbacks: the captured bytes are complete.\<close>

definition tcp_write_acked :: "tm_io_tcp \<Rightarrow> tm_io_tcp" where
  "tcp_write_acked t =
     (let t = t\<lparr>tc_wreq_pending := False, tc_wb_off := tc_wb_off t + tc_in_flight t,
                tc_in_flight := 0\<rparr>
      in if tc_wb_off t = length (tc_wb t) then t\<lparr>tc_wb := [], tc_wb_off := 0\<rparr> else t)"

definition tcp_pump :: "tm_io_tcp \<Rightarrow> tm_io_tcp \<times> upcall list" where
  "tcp_pump t =
     (if tc_wreq_pending t \<or> tc_closed t then (t, [])
      else if tc_wb_off t = length (tc_wb t) then
        let t = t\<lparr>tc_wb := [], tc_wb_off := 0\<rparr> in (t, tcp_maybe_low t)
      else if tc_write_closed t \<and> tc_fin_sent t then (t, [])
      else
        let t = t\<lparr>tc_in_flight := length (tc_wb t) - tc_wb_off t\<rparr>;
            ok = (case tc_uv t of [] \<Rightarrow> True | r # _ \<Rightarrow> r);
            t = t\<lparr>tc_uv := tl (tc_uv t), tc_wreq_pending := True\<rparr>
        in if ok then (t\<lparr>tc_sent := tc_sent t @ drop (tc_wb_off t) (tc_wb t)\<rparr>, [])
           else let t = tcp_write_acked t in (t, tcp_error_up t))"

definition tcp_pump_tail :: "tm_io_tcp \<Rightarrow> tm_io_tcp" where
  "tcp_pump_tail t = (if tc_write_closed t \<and> tc_wb t = [] then tcp_fin t else t)"

text \<open>
  \<open>tcp_write_done\<close> as the completion callback: \<open>None\<close> when it frees the object; the flag says
  whether the function goes on (with \<open>tcp_pump\<close>) after the callback.
\<close>

definition tcp_write_done :: "tm_io_tcp \<Rightarrow> uv_status \<Rightarrow> (tm_io_tcp \<times> upcall list \<times> bool) option" where
  "tcp_write_done t status =
     (let t = tcp_write_acked t in
      if tc_free_after_wreq t then None
      else if status \<noteq> UV_OK \<and> status \<noteq> UV_ECANCELED then Some (t, tcp_error_up t, False)
      else Some (t, tcp_maybe_low t, True))"

definition tcp_write_done_tail :: "tm_io_tcp \<Rightarrow> tm_io_tcp \<times> upcall list" where
  "tcp_write_done_tail t = tcp_pump t"

definition tcp_close :: "tm_io_tcp \<Rightarrow> tm_io_tcp option" where
  "tcp_close t =
     (if tc_closed t then Some t
      else
        let t = t\<lparr>tc_closed := True, tc_uv_reading := (tc_uv_reading t \<and> \<not> tc_reading t)\<rparr>
        in if tc_wreq_pending t then Some (t\<lparr>tc_free_after_wreq := True\<rparr>) else None)"

definition tcp_start :: "tm_io_tcp \<Rightarrow> tm_io_tcp" where
  "tcp_start t = (if tc_reading t then t else t\<lparr>tc_reading := True, tc_uv_reading := True\<rparr>)"

text \<open>The queue after the copy in \<open>tcp_write\<close>, before the pump (the buffer only moves when no write is in flight).\<close>

definition tcp_enqueue :: "tm_io_tcp \<Rightarrow> bytes \<Rightarrow> tm_io_tcp" where
  "tcp_enqueue t data =
     (let len = length data;
          t = (if tc_wb_cap t < length (tc_wb t) + len then
                 let t = (if tc_wb_off t \<noteq> 0
                          then t\<lparr>tc_wb := drop (tc_wb_off t) (tc_wb t), tc_wb_off := 0\<rparr> else t);
                     ncap = (if tc_wb_cap t \<noteq> 0 then tc_wb_cap t * 2 else 65536)
                 in t\<lparr>tc_wb_cap := grow_cap ncap (length (tc_wb t) + len)\<rparr>
               else t);
          t = t\<lparr>tc_wb := tc_wb t @ data, tc_queued_total := tc_queued_total t + of_nat len\<rparr>
      in if TM_IO_LOW_WATER < length (tc_wb t) then t\<lparr>tc_above_low := True\<rparr> else t)"

definition tcp_write :: "tm_io_tcp \<Rightarrow> bytes \<Rightarrow> tm_status \<times> tm_io_tcp \<times> upcall list" where
  "tcp_write t data =
     (if tc_closed t \<or> tc_write_closed t then (TM_ERR, t, [])
      else if TM_IO_HIGH_WATER < length (tc_wb t) + length data
        then (TM_ERR_BUSY, t\<lparr>tc_above_low := True\<rparr>, [])
      else if tc_wb_cap t < length (tc_wb t) + length data \<and> tc_wreq_pending t
        then (TM_ERR_BUSY, t\<lparr>tc_above_low := True\<rparr>, [])
      else case tcp_pump (tcp_enqueue t data) of (t', ups) \<Rightarrow> (TM_OK, t', ups))"

definition tcp_shutdown_send :: "tm_io_tcp \<Rightarrow> tm_io_tcp" where
  "tcp_shutdown_send t =
     (if tc_closed t \<or> tc_write_closed t then t
      else let t = t\<lparr>tc_write_closed := True\<rparr>
           in if tc_wreq_pending t \<or> tc_wb t \<noteq> [] then t else tcp_fin t)"

definition tcp_write_available :: "tm_io_tcp \<Rightarrow> bool" where
  "tcp_write_available t \<longleftrightarrow> length (tc_wb t) < TM_IO_LOW_WATER"

definition tcp_pause_read :: "tm_io_tcp \<Rightarrow> tm_io_tcp" where
  "tcp_pause_read t = (if tc_reading t \<and> \<not> tc_closed t then t\<lparr>tc_uv_reading := False\<rparr> else t)"

definition tcp_resume_read :: "tm_io_tcp \<Rightarrow> tm_io_tcp" where
  "tcp_resume_read t = (if tc_reading t \<and> \<not> tc_closed t then t\<lparr>tc_uv_reading := True\<rparr> else t)"

definition tcp_pending :: "tm_io_tcp \<Rightarrow> nat" where
  "tcp_pending t = length (tc_wb t) - tc_wb_off t"

definition tcp_drained :: "tm_io_tcp \<Rightarrow> bool" where
  "tcp_drained t \<longleftrightarrow> \<not> tc_wreq_pending t \<and> length (tc_wb t) - tc_wb_off t = 0"

definition tcp_open :: "tm_io_tcp \<Rightarrow> bool" where
  "tcp_open t \<longleftrightarrow> \<not> tc_closed t"

definition tcp_set_cbs :: "tm_io_tcp \<Rightarrow> bool \<Rightarrow> bool \<Rightarrow> tm_io_tcp" where
  "tcp_set_cbs t low_cb error_cb = t\<lparr>tc_low_cb := low_cb, tc_error_cb := error_cb\<rparr>"

section \<open>Invariant and accepted bytes\<close>

text \<open>
  \<open>tcp_accepted\<close> is everything the leg has taken over from its owner: what went to \<open>uv_write\<close> and
  what still waits behind it. \<open>tcp_inv\<close> holds in every state the code leaves a leg in,
  \<open>tcp_live\<close> for a wired, open leg between two events.
\<close>

definition tcp_inv :: "tm_io_tcp \<Rightarrow> bool" where
  "tcp_inv t \<longleftrightarrow>
     tc_wb_off t + tc_in_flight t \<le> length (tc_wb t) \<and> length (tc_wb t) \<le> tc_wb_cap t \<and>
     length (tc_wb t) \<le> TM_IO_HIGH_WATER \<and> tc_wb_cap t \<le> 2 * TM_IO_HIGH_WATER \<and>
     (tc_wreq_pending t \<longleftrightarrow> tc_in_flight t \<noteq> 0) \<and>
     (tc_fin_sent t \<longrightarrow> tc_write_closed t \<and> \<not> tc_wreq_pending t \<and> tc_wb t = [])"

definition tcp_live :: "tm_io_tcp \<Rightarrow> bool" where
  "tcp_live t \<longleftrightarrow> tcp_inv t \<and> \<not> tc_closed t \<and> tc_low_cb t \<and> tc_error_cb t \<and>
     (\<not> tc_wreq_pending t \<longrightarrow> tc_wb t = [])"

definition tcp_accepted :: "tm_io_tcp \<Rightarrow> bytes" where
  "tcp_accepted t = tc_sent t @ drop (tc_wb_off t + tc_in_flight t) (tc_wb t)"

lemmas tcp_defs = tcp_inv_def tcp_live_def tcp_accepted_def tcp_pump_def tcp_write_acked_def
  tcp_maybe_low_def tcp_error_up_def tcp_fin_def Let_def

lemma tcp_live_new: "tcp_live (tm_io_tcp_new True True uv)"
  by (simp add: tcp_defs tm_io_tcp_new_def)

text \<open>One round of \<open>tcp_pump\<close>: everything queued goes into one \<open>uv_write\<close>.\<close>

lemma tcp_pump_ok:
  assumes "tcp_inv t" "\<not> tc_closed t" "tc_low_cb t" "tc_error_cb t"
    and "tcp_pump t = (t', ups)" "\<not> up_error ups"
  shows "tcp_live t' \<and> tcp_accepted t' = tcp_accepted t \<and> (\<exists>s. tc_sent t' = tc_sent t @ s)"
  using assms by (auto simp: tcp_defs split: if_splits list.splits)

lemma tcp_enqueue_inv:
  assumes "tcp_live t" "\<not> tc_write_closed t" "length (tc_wb t) + length data \<le> TM_IO_HIGH_WATER"
    and "tc_wb_cap t < length (tc_wb t) + length data \<Longrightarrow> \<not> tc_wreq_pending t"
  shows "tcp_inv (tcp_enqueue t data) \<and> tcp_accepted (tcp_enqueue t data) = tcp_accepted t @ data"
proof (cases "tc_wb_cap t < length (tc_wb t) + length data")
  case True
  let ?c = "if tc_wb_cap t \<noteq> 0 then tc_wb_cap t * 2 else 65536"
  have "tc_wb t = []" "tc_wb_off t = 0" "tc_in_flight t = 0"
    using assms(1) assms(4) [OF True] by (auto simp: tcp_live_def tcp_inv_def)
  moreover have "length data \<le> grow_cap ?c (length data)" by (rule grow_cap_ge) simp
  moreover have "grow_cap ?c (length data) \<le> 2 * TM_IO_HIGH_WATER"
    using grow_cap_upper [of ?c "length data"] True assms(3) calculation(1)
    by (auto simp: TM_IO_HIGH_WATER_def)
  ultimately show ?thesis
    using assms True by (auto simp: tcp_enqueue_def tcp_live_def tcp_inv_def tcp_accepted_def Let_def)
next
  case False
  then show ?thesis
    using assms by (auto simp: tcp_enqueue_def tcp_live_def tcp_inv_def tcp_accepted_def Let_def)
qed

lemma tcp_enqueue_fields [simp]:
  "tc_closed (tcp_enqueue t data) = tc_closed t" "tc_low_cb (tcp_enqueue t data) = tc_low_cb t"
  "tc_error_cb (tcp_enqueue t data) = tc_error_cb t" "tc_sent (tcp_enqueue t data) = tc_sent t"
  "tc_write_closed (tcp_enqueue t data) = tc_write_closed t"
  by (simp_all add: tcp_enqueue_def Let_def)

lemma tcp_pump_sent: "\<exists>s. tc_sent (fst (tcp_pump t)) = tc_sent t @ s"
  by (auto simp: tcp_defs split: list.splits)

interpretation tcp_leg: io_leg tcp_live tcp_accepted tc_sent tcp_drained tcp_write
proof unfold_locales
  fix t d t' ups
  assume live: "tcp_live t" and w: "tcp_write t d = (TM_OK, t', ups)" and e: "\<not> up_error ups"
  then have "tcp_pump (tcp_enqueue t d) = (t', ups)" and nw: "\<not> tc_write_closed t"
    and h: "length (tc_wb t) + length d \<le> TM_IO_HIGH_WATER"
    and c: "tc_wb_cap t < length (tc_wb t) + length d \<Longrightarrow> \<not> tc_wreq_pending t"
    by (auto simp: tcp_write_def split: if_splits prod.splits)
  with live e tcp_enqueue_inv [OF live nw h c] show "tcp_live t' \<and> tcp_accepted t' = tcp_accepted t @ d"
    using tcp_pump_ok [of "tcp_enqueue t d" t' ups] by (simp add: tcp_live_def)
next
  fix t d r t' ups
  assume "tcp_live t" "tcp_write t d = (r, t', ups)" "r \<noteq> TM_OK"
  then show "tcp_live t' \<and> tcp_accepted t' = tcp_accepted t \<and> tc_sent t' = tc_sent t \<and> ups = [] \<and>
      r \<in> {TM_ERR_BUSY, TM_ERR}"
    by (auto simp: tcp_write_def tcp_live_def tcp_inv_def tcp_accepted_def split: if_splits prod.splits)
next
  fix t d r t' ups
  assume "tcp_write t d = (r, t', ups)"
  then show "\<exists>s. tc_sent t' = tc_sent t @ s"
    using tcp_pump_sent [of "tcp_enqueue t d"] by (auto simp: tcp_write_def split: if_splits prod.splits)
next
  fix t
  show "\<exists>q. tcp_accepted t = tc_sent t @ q" by (simp add: tcp_accepted_def)
  assume "tcp_live t" "tcp_drained t"
  then show "tc_sent t = tcp_accepted t"
    by (simp add: tcp_live_def tcp_inv_def tcp_drained_def tcp_accepted_def)
qed

lemma tcp_shutdown_live:
  "tcp_live t \<Longrightarrow> tcp_live (tcp_shutdown_send t) \<and> tcp_accepted (tcp_shutdown_send t) = tcp_accepted t \<and>
     tc_write_closed (tcp_shutdown_send t) \<and> tc_sent (tcp_shutdown_send t) = tc_sent t"
  by (auto simp: tcp_shutdown_send_def tcp_defs)

lemma tcp_pump_write_closed: "tcp_pump t = (t', ups) \<Longrightarrow> tc_write_closed t' = tc_write_closed t"
  by (auto simp: tcp_pump_def tcp_write_acked_def Let_def split: if_splits)

interpretation tcp_half: half_close_leg tcp_live tcp_accepted tc_sent tcp_drained tcp_write
  tc_write_closed "\<lambda>t. (tcp_shutdown_send t, [])"
proof unfold_locales
  fix t d r t' ups
  assume *: "tcp_live t" "tcp_write t d = (r, t', ups)"
  show "tc_write_closed t' = tc_write_closed t"
    using * tcp_pump_write_closed [of "tcp_enqueue t d"]
    by (auto simp: tcp_write_def split: if_splits prod.splits)
  assume "\<not> tc_write_closed t"
  with * show "r \<noteq> TM_ERR" by (auto simp: tcp_write_def tcp_live_def split: if_splits prod.splits)
qed (use tcp_shutdown_live in \<open>auto\<close>)

section \<open>Every history of a leg\<close>

text \<open>
  The events of a wired leg in the order they may occur: its owner writes, half-closes, pauses,
  resumes or starts reading; libuv completes a write. \<open>h\<close> is everything the leg has accepted. A
  history ends with the first error callback, after which the owner closes the leg.
\<close>

inductive tcp_history :: "tm_io_tcp \<Rightarrow> bytes \<Rightarrow> bool" where
  fresh: "tcp_history (tm_io_tcp_new True True uv) []"
| queued: "tcp_history t h \<Longrightarrow> tcp_write t d = (TM_OK, t', ups) \<Longrightarrow> \<not> up_error ups \<Longrightarrow>
    tcp_history t' (h @ d)"
| refused: "tcp_history t h \<Longrightarrow> tcp_write t d = (r, t', ups) \<Longrightarrow> r \<noteq> TM_OK \<Longrightarrow> tcp_history t' h"
| half_closed: "tcp_history t h \<Longrightarrow> tcp_history (tcp_shutdown_send t) h"
| completed: "tcp_history t h \<Longrightarrow> tc_wreq_pending t \<Longrightarrow>
    tcp_write_done t status = Some (t1, ups1, True) \<Longrightarrow> tcp_write_done_tail t1 = (t2, ups2) \<Longrightarrow>
    \<not> up_error ups2 \<Longrightarrow> tcp_history (tcp_pump_tail t2) h"
| paused: "tcp_history t h \<Longrightarrow> tcp_history (tcp_pause_read t) h"
| resumed: "tcp_history t h \<Longrightarrow> tcp_history (tcp_resume_read t) h"
| started: "tcp_history t h \<Longrightarrow> tcp_history (tcp_start t) h"

lemma tcp_acked_inv:
  "tcp_inv t \<Longrightarrow> \<not> tc_fin_sent t \<Longrightarrow>
     tcp_inv (tcp_write_acked t) \<and> tcp_accepted (tcp_write_acked t) = tcp_accepted t"
  by (auto simp: tcp_inv_def tcp_write_acked_def tcp_accepted_def Let_def)

lemma tcp_acked_fields [simp]:
  "tc_closed (tcp_write_acked t) = tc_closed t" "tc_low_cb (tcp_write_acked t) = tc_low_cb t"
  "tc_error_cb (tcp_write_acked t) = tc_error_cb t" "tc_fin_sent (tcp_write_acked t) = tc_fin_sent t"
  by (simp_all add: tcp_write_acked_def Let_def)

lemma tcp_pump_tail_live:
  "tcp_live t \<Longrightarrow> tcp_live (tcp_pump_tail t) \<and> tcp_accepted (tcp_pump_tail t) = tcp_accepted t"
  by (auto simp: tcp_pump_tail_def tcp_defs)

lemma tcp_completed_live:
  assumes "tcp_live t" "tc_wreq_pending t" "tcp_write_done t status = Some (t1, ups1, True)"
    and "tcp_write_done_tail t1 = (t2, ups2)" "\<not> up_error ups2"
  shows "tcp_live (tcp_pump_tail t2) \<and> tcp_accepted (tcp_pump_tail t2) = tcp_accepted t"
proof -
  have t1: "t1 = tcp_write_acked t" "\<not> tc_fin_sent t"
    using assms(1-3) by (auto simp: tcp_write_done_def tcp_live_def tcp_inv_def Let_def split: if_splits)
  then have "tcp_inv t1 \<and> tcp_accepted t1 = tcp_accepted t"
    using tcp_acked_inv assms(1) by (simp add: tcp_live_def)
  then show ?thesis
    using tcp_pump_ok [of t1 t2 ups2] tcp_pump_tail_live [of t2] assms(1,4,5) t1
    by (simp add: tcp_write_done_tail_def tcp_live_def)
qed

lemma tcp_quiet_ops:
  assumes "tcp_live t"
  shows "tcp_live (tcp_shutdown_send t) \<and> tcp_accepted (tcp_shutdown_send t) = tcp_accepted t"
    "tcp_live (tcp_pause_read t) \<and> tcp_accepted (tcp_pause_read t) = tcp_accepted t"
    "tcp_live (tcp_resume_read t) \<and> tcp_accepted (tcp_resume_read t) = tcp_accepted t"
    "tcp_live (tcp_start t) \<and> tcp_accepted (tcp_start t) = tcp_accepted t"
  using assms
  by (auto simp: tcp_shutdown_send_def tcp_pause_read_def tcp_resume_read_def tcp_start_def tcp_defs)

lemma tcp_history_live: "tcp_history t h \<Longrightarrow> tcp_live t \<and> tcp_accepted t = h"
proof (induction rule: tcp_history.induct)
  case (queued t h d t' ups)
  then show ?case using tcp_leg.write_ok by blast
next
  case (refused t h d r t' ups)
  then show ?case using tcp_leg.write_refused by blast
next
  case (completed t h status t1 ups1 t2 ups2)
  then show ?case using tcp_completed_live by blast
qed (simp_all add: tcp_live_new tcp_quiet_ops, simp add: tm_io_tcp_new_def tcp_accepted_def)

text \<open>
  (C6) A raw TCP leg never reorders, duplicates or loses a byte it accepted: in every history what
  \<open>uv_write\<close> was given is a prefix of the accepted bytes, the rest is exactly the unsent queue,
  which stays below the 256 KiB high-water mark in an allocation of at most twice that; and the
  FIN goes out only when every accepted byte has gone before it.
\<close>
theorem tcp_leg_safe:
  assumes "tcp_history t h"
  shows "h = tc_sent t @ drop (tc_wb_off t + tc_in_flight t) (tc_wb t) \<and>
    length (tc_wb t) \<le> TM_IO_HIGH_WATER \<and> tc_wb_cap t \<le> 2 * TM_IO_HIGH_WATER \<and>
    (tcp_drained t \<or> tc_fin_sent t \<longrightarrow> tc_sent t = h)"
  using tcp_history_live [OF assms] tcp_leg.drained_sent [of t]
  by (auto simp: tcp_live_def tcp_inv_def tcp_accepted_def)

definition demo_tcp :: tm_io_tcp where
  "demo_tcp = (tm_io_tcp_new True True [])
     \<lparr>tc_wb := [7, 8], tc_wb_cap := 65536, tc_in_flight := 2, tc_wreq_pending := True,
      tc_queued_total := 2, tc_sent := [7, 8]\<rparr>"

definition demo_tcp_done :: tm_io_tcp where
  "demo_tcp_done = demo_tcp\<lparr>tc_wb := [], tc_in_flight := 0, tc_wreq_pending := False\<rparr>"

lemmas demo_tcp_defs = demo_tcp_def demo_tcp_done_def tm_io_tcp_new_def

lemma demo_tcp_write: "tcp_write (tm_io_tcp_new True True []) [7, 8] = (TM_OK, demo_tcp, [])"
  by (simp add: tcp_write_def tcp_enqueue_def tcp_pump_def demo_tcp_defs TM_IO_HIGH_WATER_def
      TM_IO_LOW_WATER_def grow_cap.simps Let_def)

lemma demo_tcp_done: "tcp_write_done demo_tcp UV_OK = Some (demo_tcp_done, [UpLow], True)"
  "tcp_write_done_tail demo_tcp_done = (demo_tcp_done, [UpLow])"
  "tcp_pump_tail demo_tcp_done = demo_tcp_done"
  by (simp_all add: tcp_write_done_def tcp_write_done_tail_def tcp_pump_tail_def tcp_pump_def
      tcp_write_acked_def tcp_maybe_low_def demo_tcp_defs Let_def)

theorem tcp_leg_safe_witness:
  "\<exists>t. tcp_history t [7, 8] \<and> tc_sent t = [7, 8] \<and> tc_fin_sent t"
proof -
  have "tcp_history demo_tcp ([] @ [7, 8])"
    by (rule tcp_history.queued [OF tcp_history.fresh demo_tcp_write]) simp
  moreover have "tc_wreq_pending demo_tcp" by (simp add: demo_tcp_defs)
  ultimately have "tcp_history (tcp_shutdown_send demo_tcp_done) [7, 8]"
    using tcp_history.completed [OF _ _ demo_tcp_done(1,2)] tcp_history.half_closed
    by (simp add: demo_tcp_done(3))
  moreover have "tc_fin_sent (tcp_shutdown_send demo_tcp_done)"
    by (simp add: tcp_shutdown_send_def tcp_fin_def demo_tcp_defs)
  ultimately show ?thesis using tcp_leg_safe [of "tcp_shutdown_send demo_tcp_done" "[7, 8]"] by blast
qed

end
