(* ===== verification/IoSsl.thy ===== *)
theory IoSsl
  imports IoLeg
begin

text \<open>
  \<open>common/src/tls.c\<close>, the write side of \<open>tm_ssl_stream\<close> over TCP: the plaintext queue \<open>pq\<close>, the
  encryption pump, half-close with \<open>close_notify\<close>, read pausing and closing. \<open>ss_pq\<close> holds the bytes
  \<open>pq[0 .. pq_len)\<close>.

  OpenSSL and libuv are not part of the sources. Their answers are tapes in the state: \<open>ss_bio\<close> for
  the ciphertext BIO (\<open>BIO_read\<close> finds nothing, or a chunk that \<open>uv_write\<close> then accepts or refuses)
  and \<open>ss_sw\<close> for \<open>SSL_write\<close>. A success of \<open>SSL_write\<close> consumes between 1 byte and the length it
  was given, as OpenSSL documents; past the end of a tape the BIO is empty and \<open>SSL_write\<close> wants
  more I/O. \<open>ss_plain\<close> records the plaintext OpenSSL took, in order, and \<open>ss_notified\<close> whether
  \<open>SSL_shutdown\<close> has been called.
\<close>

section \<open>Model\<close>

definition TM_PQ_HIGH :: nat where "TM_PQ_HIGH = 256 * 1024"
definition TM_PQ_LOW :: nat where "TM_PQ_LOW = 128 * 1024"

datatype ss_state = TM_SS_STATE_HANDSHAKE | TM_SS_STATE_OPEN | TM_SS_STATE_CLOSED

datatype bio_ans = BioEmpty | BioChunk bool
datatype sw_ans = SwOk nat | SwWant | SwZero | SwFail

record tm_ssl_stream =
  ss_state :: ss_state
  ss_cbs :: bool
  ss_read_started :: bool
  ss_uv_reading :: bool
  ss_close_sent :: bool
  ss_write_pq_total :: u64
  ss_shutdown_pending :: bool
  ss_inflight :: bool
  ss_pq :: bytes
  ss_pq_cap :: nat
  ss_pq_off :: nat
  ss_retry_len :: nat
  ss_last_err :: "tm_status option"
  ss_above_low :: bool
  ss_read_paused :: bool
  ss_pumping_read :: bool
  ss_free_pending :: bool
  ss_plain :: bytes
  ss_notified :: bool
  ss_bio :: "bio_ans list"
  ss_sw :: "sw_ans list"

definition tm_ssl_stream_new :: "bio_ans list \<Rightarrow> sw_ans list \<Rightarrow> tm_ssl_stream" where
  "tm_ssl_stream_new bio sw =
     \<lparr>ss_state = TM_SS_STATE_HANDSHAKE, ss_cbs = True, ss_read_started = False,
      ss_uv_reading = False, ss_close_sent = False, ss_write_pq_total = 0,
      ss_shutdown_pending = False, ss_inflight = False, ss_pq = [], ss_pq_cap = 0, ss_pq_off = 0,
      ss_retry_len = 0, ss_last_err = None, ss_above_low = False, ss_read_paused = False,
      ss_pumping_read = False, ss_free_pending = False, ss_plain = [], ss_notified = False,
      ss_bio = bio, ss_sw = sw\<rparr>"

definition finish_close :: "tm_ssl_stream \<Rightarrow> tm_ssl_stream \<times> upcall list" where
  "finish_close s =
     (if ss_state s = TM_SS_STATE_CLOSED then (s, [])
      else
        let s = s\<lparr>ss_state := TM_SS_STATE_CLOSED\<rparr> in
        if ss_cbs s
        then (s\<lparr>ss_cbs := False\<rparr>,
              [UpError (case ss_last_err s of Some e \<Rightarrow> e | None \<Rightarrow> TM_ERR_IO)])
        else (s, []))"

text \<open>The length handed to \<open>SSL_write\<close>: the pinned retry length, else at most one TLS record.\<close>

definition ssl_write_len :: "tm_ssl_stream \<Rightarrow> nat" where
  "ssl_write_len s =
     (let available = length (ss_pq s) - ss_pq_off s in
      if ss_retry_len s \<noteq> 0 then ss_retry_len s
      else if available < 16384 then available else 16384)"

text \<open>OpenSSL takes \<open>w\<close> bytes of the queue, within its documented range.\<close>

definition ssl_take :: "tm_ssl_stream \<Rightarrow> nat \<Rightarrow> tm_ssl_stream" where
  "ssl_take s w =
     (let w = max 1 (min w (ssl_write_len s)) in
      s\<lparr>ss_retry_len := 0, ss_pq_off := ss_pq_off s + w,
        ss_plain := ss_plain s @ take w (drop (ss_pq_off s) (ss_pq s))\<rparr>)"

definition ssl_wrap :: "tm_ssl_stream \<Rightarrow> tm_ssl_stream" where
  "ssl_wrap s = (if ss_pq_off s = length (ss_pq s) then s\<lparr>ss_pq := [], ss_pq_off := 0\<rparr> else s)"

text \<open>The next answer of the ciphertext BIO and of \<open>SSL_write\<close>.\<close>

definition bio_read :: "tm_ssl_stream \<Rightarrow> bio_ans \<times> tm_ssl_stream" where
  "bio_read s = (case ss_bio s of [] \<Rightarrow> (BioEmpty, s) | a # bs \<Rightarrow> (a, s\<lparr>ss_bio := bs\<rparr>))"

definition ssl_write_call :: "tm_ssl_stream \<Rightarrow> sw_ans \<times> tm_ssl_stream" where
  "ssl_write_call s = (case ss_sw s of [] \<Rightarrow> (SwWant, s) | a # ws \<Rightarrow> (a, s\<lparr>ss_sw := ws\<rparr>))"

lemma bio_read_sw [simp]: "bio_read s = (a, s') \<Longrightarrow> ss_sw s' = ss_sw s"
  by (auto simp: bio_read_def split: list.splits)

lemma ssl_write_call_shorter: "ssl_write_call s = (SwOk w, s') \<Longrightarrow> length (ss_sw s') < length (ss_sw s)"
  by (auto simp: ssl_write_call_def split: list.splits)

function pump_write_loop :: "tm_ssl_stream \<Rightarrow> tm_ssl_stream \<times> upcall list" where
  "pump_write_loop s =
     (case bio_read s of
        (BioChunk True, s1) \<Rightarrow> (s1\<lparr>ss_inflight := True\<rparr>, [])
      | (BioChunk False, s1) \<Rightarrow> finish_close (s1\<lparr>ss_last_err := Some TM_ERR_IO\<rparr>)
      | (BioEmpty, s1) \<Rightarrow>
          if ss_pq_off s1 = length (ss_pq s1) then
            let s2 = s1\<lparr>ss_pq := [], ss_pq_off := 0\<rparr> in
            if ss_above_low s2 then (s2\<lparr>ss_above_low := False\<rparr>, [UpLow]) else (s2, [])
          else (case ssl_write_call s1 of
              (SwOk w, s2) \<Rightarrow> pump_write_loop (ssl_wrap (ssl_take s2 w))
            | (SwWant, s2) \<Rightarrow> (s2\<lparr>ss_retry_len := ssl_write_len s2\<rparr>, [])
            | (SwZero, s2) \<Rightarrow> finish_close (s2\<lparr>ss_last_err := Some TM_ERR_EOF\<rparr>)
            | (SwFail, s2) \<Rightarrow> finish_close (s2\<lparr>ss_last_err := Some TM_ERR_TLS\<rparr>)))"
  by pat_completeness auto
termination
proof (relation "measure (\<lambda>s. length (ss_sw s))", goal_cases)
  case (2 s x s1 y s2 w)
  then show ?case using ssl_write_call_shorter [of s1 w s2] bio_read_sw [of s BioEmpty s1]
    by (auto simp: ssl_wrap_def ssl_take_def Let_def dest!: sym [of _ "bio_read _"] sym [of _ "ssl_write_call _"])
qed simp

declare pump_write_loop.simps [simp del]

definition pump_write :: "tm_ssl_stream \<Rightarrow> tm_ssl_stream \<times> upcall list" where
  "pump_write s =
     (if ss_state s = TM_SS_STATE_CLOSED \<or> ss_inflight s then (s, []) else pump_write_loop s)"

definition tm_ssl_stream_write_available :: "tm_ssl_stream \<Rightarrow> bool" where
  "tm_ssl_stream_write_available s \<longleftrightarrow> length (ss_pq s) < TM_PQ_HIGH"

definition tm_ssl_stream_pending :: "tm_ssl_stream \<Rightarrow> nat" where
  "tm_ssl_stream_pending s = length (ss_pq s) - ss_pq_off s"

definition tm_ssl_stream_drained :: "tm_ssl_stream \<Rightarrow> bool" where
  "tm_ssl_stream_drained s \<longleftrightarrow> ss_pq_off s = length (ss_pq s) \<and> \<not> ss_inflight s"

text \<open>The copy into the queue in \<open>tm_ssl_stream_write\<close>, growing the allocation as needed.\<close>

definition ssl_enqueue :: "tm_ssl_stream \<Rightarrow> bytes \<Rightarrow> tm_ssl_stream" where
  "ssl_enqueue s data =
     (let len = length data;
          s = (if TM_PQ_LOW < length (ss_pq s) + len then s\<lparr>ss_above_low := True\<rparr> else s);
          s = s\<lparr>ss_write_pq_total := ss_write_pq_total s + of_nat len\<rparr>;
          s = (if ss_pq_cap s < length (ss_pq s) + len then
                 let ncap = grow_cap (if ss_pq_cap s \<noteq> 0 then ss_pq_cap s * 2 else 16384)
                              (length (ss_pq s) + len);
                     s = (if ss_pq_off s \<noteq> 0
                          then s\<lparr>ss_pq := drop (ss_pq_off s) (ss_pq s), ss_pq_off := 0\<rparr> else s)
                 in s\<lparr>ss_pq_cap := ncap\<rparr>
               else s)
      in s\<lparr>ss_pq := ss_pq s @ data\<rparr>)"

definition tm_ssl_stream_write ::
    "tm_ssl_stream \<Rightarrow> bytes \<Rightarrow> tm_status \<times> tm_ssl_stream \<times> upcall list" where
  "tm_ssl_stream_write s data =
     (if ss_state s \<noteq> TM_SS_STATE_OPEN \<or> ss_close_sent s then (TM_ERR, s, [])
      else if TM_PQ_HIGH < length (ss_pq s) + length data
        then (TM_ERR_BUSY, s\<lparr>ss_above_low := True\<rparr>, [])
      else case pump_write (ssl_enqueue s data) of (s', ups) \<Rightarrow> (TM_OK, s', ups))"

definition ssl_shutdown_finish :: "tm_ssl_stream \<Rightarrow> tm_ssl_stream \<times> upcall list" where
  "ssl_shutdown_finish s =
     (if ss_state s \<noteq> TM_SS_STATE_OPEN then (s, [])
      else pump_write (s\<lparr>ss_pq := [], ss_pq_off := 0, ss_retry_len := 0,
                         ss_shutdown_pending := False, ss_notified := True\<rparr>))"

function tls_try_shutdown :: "tm_ssl_stream \<Rightarrow> tm_ssl_stream \<times> upcall list" where
  "tls_try_shutdown s =
     (if ss_pq_off s < length (ss_pq s) \<and> ss_state s = TM_SS_STATE_OPEN then
        (case ssl_write_call s of
           (SwOk w, s1) \<Rightarrow> tls_try_shutdown (ssl_take s1 w)
         | (SwWant, s1) \<Rightarrow> pump_write (s1\<lparr>ss_retry_len := ssl_write_len s1\<rparr>)
         | (SwZero, s1) \<Rightarrow> finish_close (s1\<lparr>ss_last_err := Some TM_ERR_EOF\<rparr>)
         | (SwFail, s1) \<Rightarrow> finish_close (s1\<lparr>ss_last_err := Some TM_ERR_TLS\<rparr>))
      else ssl_shutdown_finish s)"
  by pat_completeness auto
termination
proof (relation "measure (\<lambda>s. length (ss_sw s))", goal_cases)
  case (2 s x s1 w)
  then show ?case using ssl_write_call_shorter [of s w s1]
    by (auto simp: ssl_take_def Let_def dest!: sym [of _ "ssl_write_call _"])
qed simp

declare tls_try_shutdown.simps [simp del]

definition tm_ssl_stream_shutdown_send :: "tm_ssl_stream \<Rightarrow> tm_ssl_stream \<times> upcall list" where
  "tm_ssl_stream_shutdown_send s =
     (if ss_state s \<noteq> TM_SS_STATE_OPEN \<or> ss_close_sent s then (s, [])
      else tls_try_shutdown (s\<lparr>ss_close_sent := True, ss_shutdown_pending := True\<rparr>))"

text \<open>
  \<open>on_write_done\<close>: \<open>None\<close> when it frees the stream (\<open>do_free\<close>); the flag says whether it goes on,
  with \<open>on_write_done_tail\<close>, after the callback \<open>pump_write\<close> may have made.
\<close>

definition on_write_done ::
    "tm_ssl_stream \<Rightarrow> uv_status \<Rightarrow> (tm_ssl_stream \<times> upcall list \<times> bool) option" where
  "on_write_done s status =
     (let s = s\<lparr>ss_inflight := False\<rparr> in
      if ss_state s = TM_SS_STATE_CLOSED then None
      else if status = UV_FAILED then
        (case finish_close (s\<lparr>ss_last_err := Some TM_ERR_IO\<rparr>) of (s, ups) \<Rightarrow> Some (s, ups, False))
      else (case pump_write s of (s, ups) \<Rightarrow> Some (s, ups, True)))"

definition on_write_done_tail :: "tm_ssl_stream \<Rightarrow> tm_ssl_stream \<times> upcall list" where
  "on_write_done_tail s =
     (if ss_shutdown_pending s \<and> ss_state s = TM_SS_STATE_OPEN then tls_try_shutdown s else (s, []))"

definition promote_open :: "tm_ssl_stream \<Rightarrow> tm_ssl_stream" where
  "promote_open s = s\<lparr>ss_state := TM_SS_STATE_OPEN\<rparr>"

definition tm_ssl_stream_start :: "tm_ssl_stream \<Rightarrow> tm_ssl_stream" where
  "tm_ssl_stream_start s =
     (if ss_read_started s then s else s\<lparr>ss_read_started := True, ss_uv_reading := True\<rparr>)"

definition tm_ssl_stream_pause_read :: "tm_ssl_stream \<Rightarrow> tm_ssl_stream" where
  "tm_ssl_stream_pause_read s =
     (let s = s\<lparr>ss_read_paused := True\<rparr> in
      if \<not> ss_read_started s \<or> ss_state s = TM_SS_STATE_CLOSED then s
      else s\<lparr>ss_uv_reading := False\<rparr>)"

text \<open>
  \<open>tm_ssl_stream_resume_read\<close> up to its last call, \<open>pump_read\<close>, whose deliveries are the next read
  events of the leg.
\<close>

definition tm_ssl_stream_resume_read :: "tm_ssl_stream \<Rightarrow> tm_ssl_stream" where
  "tm_ssl_stream_resume_read s =
     (if \<not> ss_read_paused s then s
      else
        let s = s\<lparr>ss_read_paused := False\<rparr> in
        if \<not> ss_read_started s \<or> ss_state s = TM_SS_STATE_CLOSED then s
        else s\<lparr>ss_uv_reading := True\<rparr>)"

text \<open>\<open>tm_ssl_stream_close\<close>: \<open>None\<close> when the stream is freed on the spot.\<close>

definition tm_ssl_stream_close :: "tm_ssl_stream \<Rightarrow> tm_ssl_stream option" where
  "tm_ssl_stream_close s =
     (if ss_state s = TM_SS_STATE_CLOSED then Some s
      else
        let s = s\<lparr>ss_state := TM_SS_STATE_CLOSED, ss_cbs := False\<rparr>;
            s = (if ss_read_started s then s\<lparr>ss_uv_reading := False\<rparr> else s)
        in if ss_inflight s \<or> ss_pumping_read s then Some (s\<lparr>ss_free_pending := True\<rparr>) else None)"

section \<open>Invariant and accepted bytes\<close>

definition ssl_inv :: "tm_ssl_stream \<Rightarrow> bool" where
  "ssl_inv s \<longleftrightarrow>
     ss_pq_off s \<le> length (ss_pq s) \<and> length (ss_pq s) \<le> ss_pq_cap s \<and>
     length (ss_pq s) \<le> TM_PQ_HIGH \<and> ss_pq_cap s \<le> 2 * TM_PQ_HIGH \<and>
     ss_retry_len s \<le> length (ss_pq s) - ss_pq_off s \<and>
     (ss_notified s \<longrightarrow> ss_close_sent s \<and> ss_pq s = [] \<and> \<not> ss_shutdown_pending s) \<and>
     (ss_shutdown_pending s \<longrightarrow> ss_close_sent s)"

definition ssl_accepted :: "tm_ssl_stream \<Rightarrow> bytes" where
  "ssl_accepted s = ss_plain s @ drop (ss_pq_off s) (ss_pq s)"

definition ssl_live :: "tm_ssl_stream \<Rightarrow> bool" where
  "ssl_live s \<longleftrightarrow> ssl_inv s \<and> ss_cbs s \<and> ss_state s = TM_SS_STATE_OPEN"

lemma ssl_write_len_bounds:
  "ssl_inv s \<Longrightarrow> ss_pq_off s < length (ss_pq s) \<Longrightarrow>
     0 < ssl_write_len s \<and> ssl_write_len s \<le> length (ss_pq s) - ss_pq_off s"
  by (auto simp: ssl_write_len_def ssl_inv_def Let_def)

text \<open>
  What the pumps leave alone: \<open>ssl_step s s'\<close> relates a state to a later one of the same queue. The
  accepted bytes are the same and more of them may be encrypted; the invariant is kept.
\<close>

definition ssl_step :: "tm_ssl_stream \<Rightarrow> tm_ssl_stream \<Rightarrow> bool" where
  "ssl_step s s' \<longleftrightarrow> ssl_inv s' \<and> ssl_accepted s' = ssl_accepted s \<and>
     (\<exists>p. ss_plain s' = ss_plain s @ p) \<and> ss_close_sent s' = ss_close_sent s \<and>
     (ss_notified s \<longrightarrow> ss_notified s')"

lemma ssl_step_refl [simp]: "ssl_inv s \<Longrightarrow> ssl_step s s"
  by (simp add: ssl_step_def)

lemma ssl_step_trans: "ssl_step s s' \<Longrightarrow> ssl_step s' s'' \<Longrightarrow> ssl_step s s''"
  by (auto simp: ssl_step_def)

text \<open>\<open>ssl_alive s s' ups\<close>: unless the error callback fired, the stream is as open as before.\<close>

definition ssl_alive :: "tm_ssl_stream \<Rightarrow> tm_ssl_stream \<Rightarrow> upcall list \<Rightarrow> bool" where
  "ssl_alive s s' ups \<longleftrightarrow>
     (ss_cbs s \<and> ss_state s \<noteq> TM_SS_STATE_CLOSED \<and> \<not> up_error ups \<longrightarrow>
        ss_cbs s' \<and> ss_state s' = ss_state s)"

lemma ssl_take_step:
  assumes "ssl_inv s" "ss_pq_off s < length (ss_pq s)"
  shows "ssl_step s (ssl_take s w) \<and> ssl_alive s (ssl_take s w) []"
proof -
  let ?w = "max 1 (min w (ssl_write_len s))"
  have w: "?w \<le> length (ss_pq s) - ss_pq_off s" using ssl_write_len_bounds [OF assms] by auto
  have "take ?w (drop (ss_pq_off s) (ss_pq s)) @ drop (ss_pq_off s + ?w) (ss_pq s) = drop (ss_pq_off s) (ss_pq s)"
    by (metis append_take_drop_id drop_drop add.commute)
  then have "ssl_step s (ssl_take s w)"
    using assms w by (auto simp: ssl_step_def ssl_take_def ssl_inv_def ssl_accepted_def Let_def)
  then show ?thesis by (simp add: ssl_alive_def ssl_take_def Let_def)
qed

lemma ssl_wrap_step: "ssl_inv s \<Longrightarrow> ssl_step s (ssl_wrap s) \<and> ssl_alive s (ssl_wrap s) []"
  by (auto simp: ssl_step_def ssl_alive_def ssl_wrap_def ssl_inv_def ssl_accepted_def)

lemma finish_close_step:
  "ssl_inv s \<Longrightarrow> finish_close s = (s', ups) \<Longrightarrow> ssl_step s s' \<and> ssl_alive s s' ups"
  by (auto simp: finish_close_def ssl_step_def ssl_alive_def ssl_inv_def ssl_accepted_def Let_def
      split: if_splits)

text \<open>Updates of fields the queue does not depend on.\<close>

definition ssl_same :: "tm_ssl_stream \<Rightarrow> tm_ssl_stream \<Rightarrow> bool" where
  "ssl_same s s' \<longleftrightarrow> ss_pq s' = ss_pq s \<and> ss_pq_off s' = ss_pq_off s \<and> ss_pq_cap s' = ss_pq_cap s \<and>
     ss_retry_len s' = ss_retry_len s \<and> ss_plain s' = ss_plain s \<and> ss_close_sent s' = ss_close_sent s \<and>
     ss_notified s' = ss_notified s \<and> ss_shutdown_pending s' = ss_shutdown_pending s \<and>
     ss_cbs s' = ss_cbs s \<and> ss_state s' = ss_state s"

lemma ssl_same_step: "ssl_same s s' \<Longrightarrow> ssl_inv s \<Longrightarrow> ssl_step s s' \<and> ssl_alive s s' ups"
  by (auto simp: ssl_same_def ssl_step_def ssl_alive_def ssl_inv_def ssl_accepted_def)

lemma bio_read_same: "bio_read s = (a, s') \<Longrightarrow> ssl_same s s'"
  by (auto simp: bio_read_def ssl_same_def split: list.splits)

lemma ssl_write_call_same: "ssl_write_call s = (a, s') \<Longrightarrow> ssl_same s s'"
  by (auto simp: ssl_write_call_def ssl_same_def split: list.splits)

lemma ssl_step_chain:
  "ssl_step s s1 \<and> ssl_alive s s1 [] \<Longrightarrow> ssl_step s1 s2 \<and> ssl_alive s1 s2 ups \<Longrightarrow>
     ssl_step s s2 \<and> ssl_alive s s2 ups"
  by (auto simp: ssl_step_def ssl_alive_def)

lemma ssl_close_after_same:
  assumes "ssl_inv s" "ssl_same s s1" "finish_close (s1\<lparr>ss_last_err := e\<rparr>) = (s', ups)"
  shows "ssl_step s s' \<and> ssl_alive s s' ups"
proof -
  have same: "ssl_same s (s1\<lparr>ss_last_err := e\<rparr>)" using assms(2) by (simp add: ssl_same_def)
  from ssl_same_step [OF this assms(1), of "[]"] show ?thesis
    by (rule ssl_step_chain) (use finish_close_step [OF _ assms(3)] ssl_same_step [OF same assms(1)] in
        \<open>auto simp: ssl_step_def\<close>)
qed

lemma ssl_retry_step:
  assumes "ssl_inv s" "ssl_same s s1" "ss_pq_off s1 < length (ss_pq s1)"
  shows "ssl_step s (s1\<lparr>ss_retry_len := ssl_write_len s1\<rparr>) \<and>
    ssl_alive s (s1\<lparr>ss_retry_len := ssl_write_len s1\<rparr>) ups"
proof -
  have "ssl_inv s1" using ssl_same_step [OF assms(2,1)] by (simp add: ssl_step_def)
  then show ?thesis
    using assms(1,2) ssl_write_len_bounds [OF _ assms(3)]
    by (auto simp: ssl_same_def ssl_step_def ssl_alive_def ssl_inv_def ssl_accepted_def)
qed

lemma pump_write_loop_step:
  "ssl_inv s \<Longrightarrow> pump_write_loop s = (s', ups) \<Longrightarrow> ssl_step s s' \<and> ssl_alive s s' ups"
proof (induction s arbitrary: s' ups rule: pump_write_loop.induct)
  case (1 s)
  obtain a s1 where b: "bio_read s = (a, s1)" by (cases "bio_read s")
  note same = bio_read_same [OF b]
  note eq = "1.prems"(2) [unfolded pump_write_loop.simps [of s] b]
  have inv1: "ssl_inv s1" using ssl_same_step [OF same "1.prems"(1)] by (simp add: ssl_step_def)
  show ?case
  proof (cases a)
    case (BioChunk ok)
    show ?thesis
    proof (cases ok)
      case True
      then have "s' = s1\<lparr>ss_inflight := True\<rparr>" using eq BioChunk by simp
      then have "ssl_same s s'" using same by (simp add: ssl_same_def)
      then show ?thesis using "1.prems"(1) by (rule ssl_same_step)
    next
      case False
      then show ?thesis
        using eq BioChunk by (intro ssl_close_after_same [OF "1.prems"(1) same]) simp
    qed
  next
    case BioEmpty
    show ?thesis
    proof (cases "ss_pq_off s1 = length (ss_pq s1)")
      case True
      let ?s2 = "s1\<lparr>ss_pq := [], ss_pq_off := 0\<rparr>"
      have "ssl_step s ?s2 \<and> ssl_alive s ?s2 []"
        using True same "1.prems"(1)
        by (auto simp: ssl_same_def ssl_step_def ssl_alive_def ssl_inv_def ssl_accepted_def)
      moreover have "ssl_same ?s2 s'"
        using True eq BioEmpty by (auto simp: ssl_same_def Let_def split: if_splits)
      ultimately show ?thesis
        using ssl_same_step [of ?s2 s' ups] ssl_step_chain [of s ?s2 s' ups] by (simp add: ssl_step_def)
    next
      case False
      then have lt: "ss_pq_off s1 < length (ss_pq s1)" using inv1 by (simp add: ssl_inv_def)
      obtain x s2 where w: "ssl_write_call s1 = (x, s2)" by (cases "ssl_write_call s1")
      have same2: "ssl_same s s2" using same ssl_write_call_same [OF w] by (auto simp: ssl_same_def)
      have lt2: "ss_pq_off s2 < length (ss_pq s2)"
        using lt ssl_write_call_same [OF w] by (simp add: ssl_same_def)
      have inv2: "ssl_inv s2" using ssl_same_step [OF same2 "1.prems"(1)] by (simp add: ssl_step_def)
      show ?thesis
      proof (cases x)
        case (SwOk n)
        let ?t = "ssl_wrap (ssl_take s2 n)"
        note take = ssl_take_step [OF inv2 lt2, of n]
        then have "ssl_inv (ssl_take s2 n)" by (simp add: ssl_step_def)
        then have t: "ssl_step s ?t \<and> ssl_alive s ?t []"
          by (intro ssl_step_chain [OF ssl_same_step [OF same2 "1.prems"(1)]]
              ssl_step_chain [OF take] ssl_wrap_step)
        moreover have "pump_write_loop ?t = (s', ups)" using eq BioEmpty False w SwOk by simp
        then have "ssl_step ?t s' \<and> ssl_alive ?t s' ups"
          using "1.IH" [OF b [symmetric] BioEmpty False w [symmetric] SwOk] t by (simp add: ssl_step_def)
        ultimately show ?thesis by (rule ssl_step_chain)
      next
        case SwWant
        then have "s' = s2\<lparr>ss_retry_len := ssl_write_len s2\<rparr>" "ups = []"
          using eq BioEmpty False w by simp_all
        then show ?thesis using ssl_retry_step [OF "1.prems"(1) same2 lt2] by simp
      next
        case SwZero
        then show ?thesis
          using eq BioEmpty False w by (intro ssl_close_after_same [OF "1.prems"(1) same2]) simp
      next
        case SwFail
        then show ?thesis
          using eq BioEmpty False w by (intro ssl_close_after_same [OF "1.prems"(1) same2]) simp
      qed
    qed
  qed
qed

lemma pump_write_step:
  "ssl_inv s \<Longrightarrow> pump_write s = (s', ups) \<Longrightarrow> ssl_step s s' \<and> ssl_alive s s' ups"
  using pump_write_loop_step [of s s' ups]
  by (auto simp: pump_write_def ssl_alive_def split: if_splits)

lemma ssl_shutdown_finish_step:
  assumes "ssl_inv s" "ss_close_sent s" "ss_state s = TM_SS_STATE_OPEN \<Longrightarrow> ss_pq_off s = length (ss_pq s)"
    and "ssl_shutdown_finish s = (s', ups)"
  shows "ssl_step s s' \<and> ssl_alive s s' ups"
proof (cases "ss_state s = TM_SS_STATE_OPEN")
  case True
  let ?s = "s\<lparr>ss_pq := [], ss_pq_off := 0, ss_retry_len := 0, ss_shutdown_pending := False, ss_notified := True\<rparr>"
  have s: "ssl_step s ?s \<and> ssl_alive s ?s []"
    using assms(1,2) assms(3) [OF True]
    by (auto simp: ssl_step_def ssl_alive_def ssl_inv_def ssl_accepted_def)
  moreover have "pump_write ?s = (s', ups)" using assms(4) True by (simp add: ssl_shutdown_finish_def)
  then have "ssl_step ?s s' \<and> ssl_alive ?s s' ups"
    using s by (intro pump_write_step) (simp_all add: ssl_step_def)
  ultimately show ?thesis by (rule ssl_step_chain)
next
  case False
  then show ?thesis using assms(1,4) by (auto simp: ssl_shutdown_finish_def ssl_alive_def)
qed

lemma tls_try_shutdown_step:
  "ssl_inv s \<Longrightarrow> ss_close_sent s \<Longrightarrow> tls_try_shutdown s = (s', ups) \<Longrightarrow>
     ssl_step s s' \<and> ssl_alive s s' ups"
proof (induction s arbitrary: s' ups rule: tls_try_shutdown.induct)
  case (1 s)
  note eq = "1.prems"(3) [unfolded tls_try_shutdown.simps [of s]]
  show ?case
  proof (cases "ss_pq_off s < length (ss_pq s) \<and> ss_state s = TM_SS_STATE_OPEN")
    case False
    then show ?thesis
      using "1.prems"(1,2) eq by (intro ssl_shutdown_finish_step) (auto simp: ssl_inv_def)
  next
    case True
    obtain x s1 where w: "ssl_write_call s = (x, s1)" by (cases "ssl_write_call s")
    note same = ssl_write_call_same [OF w]
    have lt: "ss_pq_off s1 < length (ss_pq s1)" using True same by (simp add: ssl_same_def)
    have inv1: "ssl_inv s1" using ssl_same_step [OF same "1.prems"(1)] by (simp add: ssl_step_def)
    show ?thesis
    proof (cases x)
      case (SwOk n)
      have t: "ssl_step s (ssl_take s1 n) \<and> ssl_alive s (ssl_take s1 n) []"
        by (rule ssl_step_chain [OF ssl_same_step [OF same "1.prems"(1)] ssl_take_step [OF inv1 lt]])
      moreover have "tls_try_shutdown (ssl_take s1 n) = (s', ups)" using eq True w SwOk by simp
      then have "ssl_step (ssl_take s1 n) s' \<and> ssl_alive (ssl_take s1 n) s' ups"
        using t "1.prems"(2) by (intro "1.IH" [OF True w [symmetric] SwOk]) (auto simp: ssl_step_def)
      ultimately show ?thesis by (rule ssl_step_chain)
    next
      case SwWant
      let ?t = "s1\<lparr>ss_retry_len := ssl_write_len s1\<rparr>"
      note r = ssl_retry_step [OF "1.prems"(1) same lt, of "[]"]
      moreover have "pump_write ?t = (s', ups)" using eq True w SwWant by simp
      then have "ssl_step ?t s' \<and> ssl_alive ?t s' ups"
        using r by (intro pump_write_step) (simp_all add: ssl_step_def)
      ultimately show ?thesis by (rule ssl_step_chain)
    next
      case SwZero
      then show ?thesis
        using eq True w by (intro ssl_close_after_same [OF "1.prems"(1) same]) simp
    next
      case SwFail
      then show ?thesis
        using eq True w by (intro ssl_close_after_same [OF "1.prems"(1) same]) simp
    qed
  qed
qed

lemma ssl_shutdown_send_step:
  assumes "ssl_inv s" "tm_ssl_stream_shutdown_send s = (s', ups)"
  shows "ssl_inv s' \<and> ssl_accepted s' = ssl_accepted s \<and> (\<exists>p. ss_plain s' = ss_plain s @ p) \<and>
    ssl_alive s s' ups"
proof (cases "ss_state s \<noteq> TM_SS_STATE_OPEN \<or> ss_close_sent s")
  case True
  then show ?thesis using assms by (auto simp: tm_ssl_stream_shutdown_send_def ssl_alive_def)
next
  case False
  let ?s = "s\<lparr>ss_close_sent := True, ss_shutdown_pending := True\<rparr>"
  have "ssl_inv ?s" using assms(1) False by (auto simp: ssl_inv_def)
  moreover have "tls_try_shutdown ?s = (s', ups)"
    using assms(2) False by (simp add: tm_ssl_stream_shutdown_send_def)
  ultimately have "ssl_step ?s s' \<and> ssl_alive ?s s' ups" by (intro tls_try_shutdown_step) simp_all
  then show ?thesis by (auto simp: ssl_step_def ssl_alive_def ssl_accepted_def)
qed

lemma ssl_enqueue_inv:
  assumes "ssl_inv s" "\<not> ss_close_sent s" "length (ss_pq s) + length data \<le> TM_PQ_HIGH"
  shows "ssl_inv (ssl_enqueue s data) \<and> ssl_accepted (ssl_enqueue s data) = ssl_accepted s @ data"
proof (cases "ss_pq_cap s < length (ss_pq s) + length data")
  case True
  let ?c = "if ss_pq_cap s \<noteq> 0 then ss_pq_cap s * 2 else 16384" and ?n = "length (ss_pq s) + length data"
  have "?n \<le> grow_cap ?c ?n" by (rule grow_cap_ge) simp
  moreover have "grow_cap ?c ?n \<le> 2 * TM_PQ_HIGH"
    using grow_cap_upper [of ?c ?n] True assms(3) by (auto simp: TM_PQ_HIGH_def)
  ultimately show ?thesis
    using assms True by (auto simp: ssl_enqueue_def ssl_inv_def ssl_accepted_def Let_def)
next
  case False
  then show ?thesis using assms by (auto simp: ssl_enqueue_def ssl_inv_def ssl_accepted_def Let_def)
qed

lemma ssl_enqueue_fields [simp]:
  "ss_cbs (ssl_enqueue s data) = ss_cbs s" "ss_state (ssl_enqueue s data) = ss_state s"
  "ss_plain (ssl_enqueue s data) = ss_plain s"
  by (simp_all add: ssl_enqueue_def Let_def)

interpretation ssl_leg: io_leg ssl_live ssl_accepted ss_plain tm_ssl_stream_drained tm_ssl_stream_write
proof unfold_locales
  fix s d s' ups
  assume live: "ssl_live s" and w: "tm_ssl_stream_write s d = (TM_OK, s', ups)" and e: "\<not> up_error ups"
  then have p: "pump_write (ssl_enqueue s d) = (s', ups)" and "\<not> ss_close_sent s"
    and "length (ss_pq s) + length d \<le> TM_PQ_HIGH"
    by (auto simp: tm_ssl_stream_write_def split: if_splits prod.splits)
  with live have inv: "ssl_inv (ssl_enqueue s d)" "ssl_accepted (ssl_enqueue s d) = ssl_accepted s @ d"
    using ssl_enqueue_inv by (auto simp: ssl_live_def)
  from pump_write_step [OF this(1) p] e live inv(2)
  show "ssl_live s' \<and> ssl_accepted s' = ssl_accepted s @ d"
    by (simp add: ssl_live_def ssl_step_def ssl_alive_def)
next
  fix s d r s' ups
  assume "ssl_live s" "tm_ssl_stream_write s d = (r, s', ups)" "r \<noteq> TM_OK"
  then show "ssl_live s' \<and> ssl_accepted s' = ssl_accepted s \<and> ss_plain s' = ss_plain s \<and> ups = [] \<and>
      r \<in> {TM_ERR_BUSY, TM_ERR}"
    by (auto simp: tm_ssl_stream_write_def ssl_live_def ssl_inv_def ssl_accepted_def
        split: if_splits prod.splits)
next
  fix s d r s' ups
  assume live: "ssl_live s" and w: "tm_ssl_stream_write s d = (r, s', ups)"
  show "\<exists>p. ss_plain s' = ss_plain s @ p"
  proof (cases "ss_close_sent s \<or> TM_PQ_HIGH < length (ss_pq s) + length d")
    case True
    then show ?thesis using live w by (auto simp: tm_ssl_stream_write_def ssl_live_def split: if_splits)
  next
    case False
    then have "pump_write (ssl_enqueue s d) = (s', ups)"
      using live w by (auto simp: tm_ssl_stream_write_def ssl_live_def split: prod.splits)
    then show ?thesis
      using pump_write_step [of "ssl_enqueue s d" s' ups] ssl_enqueue_inv [of s d] live False
      by (auto simp: ssl_live_def ssl_step_def)
  qed
next
  fix s
  show "\<exists>q. ssl_accepted s = ss_plain s @ q" by (simp add: ssl_accepted_def)
  assume "tm_ssl_stream_drained s"
  then show "ss_plain s = ssl_accepted s" by (simp add: tm_ssl_stream_drained_def ssl_accepted_def)
qed

lemma ssl_shutdown_close_sent:
  assumes "ssl_inv s" "ss_state s = TM_SS_STATE_OPEN" "tm_ssl_stream_shutdown_send s = (s', ups)"
  shows "ss_close_sent s'"
proof (cases "ss_close_sent s")
  case True
  then show ?thesis using assms(3) by (simp add: tm_ssl_stream_shutdown_send_def)
next
  case False
  let ?s = "s\<lparr>ss_close_sent := True, ss_shutdown_pending := True\<rparr>"
  have "ssl_inv ?s" "tls_try_shutdown ?s = (s', ups)"
    using assms False by (auto simp: ssl_inv_def tm_ssl_stream_shutdown_send_def)
  from tls_try_shutdown_step [OF this(1) _ this(2)] show ?thesis by (simp add: ssl_step_def)
qed

interpretation ssl_half: half_close_leg ssl_live ssl_accepted ss_plain tm_ssl_stream_drained
  tm_ssl_stream_write ss_close_sent tm_ssl_stream_shutdown_send
proof unfold_locales
  fix s d r s' ups
  assume *: "ssl_live s" "tm_ssl_stream_write s d = (r, s', ups)"
  show "ss_close_sent s' = ss_close_sent s"
  proof (cases "ss_close_sent s \<or> TM_PQ_HIGH < length (ss_pq s) + length d")
    case False
    then have "pump_write (ssl_enqueue s d) = (s', ups)" "ssl_inv (ssl_enqueue s d)"
      using * ssl_enqueue_inv [of s d]
      by (auto simp: tm_ssl_stream_write_def ssl_live_def split: prod.splits)
    then show ?thesis
      using pump_write_step [of "ssl_enqueue s d" s' ups] by (simp add: ssl_step_def ssl_enqueue_def Let_def)
  qed (use * in \<open>auto simp: tm_ssl_stream_write_def ssl_live_def split: if_splits\<close>)
  assume "\<not> ss_close_sent s"
  with * show "r \<noteq> TM_ERR" by (auto simp: tm_ssl_stream_write_def ssl_live_def split: if_splits prod.splits)
next
  fix s s' ups
  assume *: "ssl_live s" "tm_ssl_stream_shutdown_send s = (s', ups)"
  then show "\<exists>p. ss_plain s' = ss_plain s @ p"
    using ssl_shutdown_send_step by (simp add: ssl_live_def)
  assume "\<not> up_error ups"
  with * show "ssl_live s' \<and> ssl_accepted s' = ssl_accepted s \<and> ss_close_sent s'"
    using ssl_shutdown_send_step [of s s' ups] ssl_shutdown_close_sent [of s s' ups]
    by (simp add: ssl_live_def ssl_alive_def)
qed

section \<open>Every history of a TLS leg\<close>

text \<open>
  The events of an established TLS stream: its owner writes, half-closes, pauses or resumes; libuv
  completes a write; OpenSSL and libuv answer as the tapes say, which are arbitrary. \<open>h\<close> is the
  plaintext accepted so far. A history ends with the first error callback.
\<close>

inductive ssl_history :: "tm_ssl_stream \<Rightarrow> bytes \<Rightarrow> bool" where
  established: "ssl_history (promote_open (tm_ssl_stream_new bio sw)) []"
| queued: "ssl_history s h \<Longrightarrow> tm_ssl_stream_write s d = (TM_OK, s', ups) \<Longrightarrow> \<not> up_error ups \<Longrightarrow>
    ssl_history s' (h @ d)"
| refused: "ssl_history s h \<Longrightarrow> tm_ssl_stream_write s d = (r, s', ups) \<Longrightarrow> r \<noteq> TM_OK \<Longrightarrow> ssl_history s' h"
| half_closed: "ssl_history s h \<Longrightarrow> tm_ssl_stream_shutdown_send s = (s', ups) \<Longrightarrow> \<not> up_error ups \<Longrightarrow>
    ssl_history s' h"
| completed: "ssl_history s h \<Longrightarrow> on_write_done s status = Some (s1, ups1, True) \<Longrightarrow>
    \<not> up_error ups1 \<Longrightarrow> on_write_done_tail s1 = (s2, ups2) \<Longrightarrow> \<not> up_error ups2 \<Longrightarrow> ssl_history s2 h"
| paused: "ssl_history s h \<Longrightarrow> ssl_history (tm_ssl_stream_pause_read s) h"
| resumed: "ssl_history s h \<Longrightarrow> ssl_history (tm_ssl_stream_resume_read s) h"
| started: "ssl_history s h \<Longrightarrow> ssl_history (tm_ssl_stream_start s) h"

lemma ssl_live_step: "ssl_live s \<Longrightarrow> ssl_step s s' \<and> ssl_alive s s' ups \<Longrightarrow> \<not> up_error ups \<Longrightarrow>
    ssl_live s' \<and> ssl_accepted s' = ssl_accepted s"
  by (simp add: ssl_live_def ssl_step_def ssl_alive_def)

lemma ssl_same_live: "ssl_same s s' \<Longrightarrow> ssl_live s \<Longrightarrow> ssl_live s' \<and> ssl_accepted s' = ssl_accepted s"
  using ssl_same_step [of s s' "[]"] ssl_live_step [of s s' "[]"] by (simp add: ssl_live_def)

lemma ssl_quiet_ops:
  "ssl_same s (tm_ssl_stream_pause_read s)" "ssl_same s (tm_ssl_stream_resume_read s)"
  "ssl_same s (tm_ssl_stream_start s)"
  by (simp_all add: ssl_same_def tm_ssl_stream_pause_read_def tm_ssl_stream_resume_read_def
      tm_ssl_stream_start_def Let_def)

lemma on_write_done_live:
  assumes "ssl_live s" "on_write_done s status = Some (s1, ups, True)" "\<not> up_error ups"
  shows "ssl_live s1 \<and> ssl_accepted s1 = ssl_accepted s"
proof -
  let ?s = "s\<lparr>ss_inflight := False\<rparr>"
  have "ssl_live ?s \<and> ssl_accepted ?s = ssl_accepted s"
    using assms(1) by (intro ssl_same_live) (simp_all add: ssl_same_def)
  moreover have "pump_write ?s = (s1, ups)"
    using assms(2) by (auto simp: on_write_done_def Let_def split: if_splits prod.splits)
  ultimately show ?thesis
    using ssl_live_step [of ?s s1 ups] pump_write_step [of ?s s1 ups] assms(3) by (simp add: ssl_live_def)
qed

lemma on_write_done_tail_live:
  assumes "ssl_live s" "on_write_done_tail s = (s1, ups)" "\<not> up_error ups"
  shows "ssl_live s1 \<and> ssl_accepted s1 = ssl_accepted s"
proof (cases "ss_shutdown_pending s \<and> ss_state s = TM_SS_STATE_OPEN")
  case True
  have "ssl_inv s" "ss_close_sent s" using assms(1) True by (simp_all add: ssl_live_def ssl_inv_def)
  moreover have "tls_try_shutdown s = (s1, ups)" using assms(2) True by (simp add: on_write_done_tail_def)
  ultimately show ?thesis
    using ssl_live_step [OF assms(1) tls_try_shutdown_step assms(3)] by simp
next
  case False
  then have "(s1, ups) = (s, [])" using assms(2) unfolding on_write_done_tail_def by (simp only: if_False)
  then show ?thesis using assms(1) by simp
qed

lemma ssl_shutdown_send_live:
  assumes "ssl_live s" "tm_ssl_stream_shutdown_send s = (s1, ups)" "\<not> up_error ups"
  shows "ssl_live s1 \<and> ssl_accepted s1 = ssl_accepted s"
  using ssl_shutdown_send_step [of s s1 ups] assms by (simp add: ssl_live_def ssl_alive_def)

lemma ssl_history_live: "ssl_history s h \<Longrightarrow> ssl_live s \<and> ssl_accepted s = h"
proof (induction rule: ssl_history.induct)
  case (established bio sw)
  then show ?case
    by (simp add: promote_open_def tm_ssl_stream_new_def ssl_live_def ssl_inv_def ssl_accepted_def)
next
  case (queued s h d s' ups)
  then show ?case using ssl_leg.write_ok by blast
next
  case (refused s h d r s' ups)
  then show ?case using ssl_leg.write_refused by blast
next
  case (half_closed s h s' ups)
  then show ?case using ssl_shutdown_send_live by blast
next
  case (completed s h status s1 ups1 s2 ups2)
  then show ?case using on_write_done_live on_write_done_tail_live by metis
qed (simp_all add: ssl_same_live [OF ssl_quiet_ops(1)] ssl_same_live [OF ssl_quiet_ops(2)]
    ssl_same_live [OF ssl_quiet_ops(3)])

text \<open>
  (C7) A TLS leg hands OpenSSL exactly the accepted plaintext, in order and without loss or
  duplication, for every behaviour of OpenSSL and libuv: what \<open>SSL_write\<close> took is a prefix of the
  accepted bytes, the rest is the queue, which stays below 256 KiB; and \<open>close_notify\<close> is sent only
  after every accepted byte has been encrypted.
\<close>
theorem ssl_leg_safe:
  assumes "ssl_history s h"
  shows "h = ss_plain s @ drop (ss_pq_off s) (ss_pq s) \<and> length (ss_pq s) \<le> TM_PQ_HIGH \<and>
    ss_pq_cap s \<le> 2 * TM_PQ_HIGH \<and> ss_pq_off s \<le> length (ss_pq s) \<and>
    (tm_ssl_stream_drained s \<or> ss_notified s \<longrightarrow> ss_plain s = h)"
  using ssl_history_live [OF assms] ssl_leg.drained_sent [of s]
  by (auto simp: ssl_live_def ssl_inv_def ssl_accepted_def)

definition demo_ssl :: tm_ssl_stream where
  "demo_ssl = promote_open (tm_ssl_stream_new [BioEmpty, BioChunk True] [SwOk 3])"

definition demo_ssl_sent :: tm_ssl_stream where
  "demo_ssl_sent = demo_ssl\<lparr>ss_write_pq_total := 3, ss_pq_cap := 16384, ss_plain := [7, 8, 9],
     ss_inflight := True, ss_bio := [], ss_sw := []\<rparr>"

lemma demo_ssl_write: "tm_ssl_stream_write demo_ssl [7, 8, 9] = (TM_OK, demo_ssl_sent, [])"
  by (simp add: tm_ssl_stream_write_def ssl_enqueue_def pump_write_def pump_write_loop.simps bio_read_def
      ssl_write_call_def ssl_take_def ssl_wrap_def ssl_write_len_def demo_ssl_def demo_ssl_sent_def
      promote_open_def tm_ssl_stream_new_def TM_PQ_HIGH_def TM_PQ_LOW_def grow_cap.simps Let_def)

theorem ssl_leg_safe_witness: "ssl_history demo_ssl_sent [7, 8, 9] \<and> ss_plain demo_ssl_sent = [7, 8, 9]"
proof -
  have "ssl_history demo_ssl []" unfolding demo_ssl_def by (rule ssl_history.established)
  then have *: "ssl_history demo_ssl_sent ([] @ [7, 8, 9])"
    by (rule ssl_history.queued [OF _ demo_ssl_write]) simp
  moreover have "ss_pq demo_ssl_sent = []"
    by (simp add: demo_ssl_sent_def demo_ssl_def promote_open_def tm_ssl_stream_new_def)
  ultimately show ?thesis using ssl_leg_safe [OF *] by simp
qed

end
