(* ===== verification/Io.thy ===== *)
theory Io
  imports IoTcp IoSsl
begin

text \<open>
  \<open>common/src/io.c\<close>, the TLS wrapper \<open>tm_io_ssl\<close> and the dispatch table: a \<open>tm_io\<close> is a raw TCP or
  a TLS leg and every entry point takes a possibly \<open>NULL\<close> leg. The owner's callbacks are the two
  flags \<open>low_cb\<close> and \<open>error_cb\<close>; callbacks the owner has not set are filtered out. DTLS legs are not
  created by any of the programs.
\<close>

section \<open>Model\<close>

record tm_io_ssl =
  is_low_cb :: bool
  is_error_cb :: bool
  is_closed :: bool
  is_ssl :: tm_ssl_stream

datatype tm_io = IoTcp tm_io_tcp | IoSsl tm_io_ssl

definition tm_io_ssl_new :: "bool \<Rightarrow> bool \<Rightarrow> bio_ans list \<Rightarrow> sw_ans list \<Rightarrow> tm_io_ssl" where
  "tm_io_ssl_new low_cb error_cb bio sw =
     \<lparr>is_low_cb = low_cb, is_error_cb = error_cb, is_closed = False,
      is_ssl = tm_ssl_stream_new bio sw\<rparr>"

text \<open>\<open>ssl_low_cb\<close> and \<open>ssl_error_cb\<close>: what reaches the owner of the callbacks of the stream.\<close>

definition ssl_up :: "tm_io_ssl \<Rightarrow> upcall \<Rightarrow> bool" where
  "ssl_up t u = (case u of UpLow \<Rightarrow> is_low_cb t | UpError _ \<Rightarrow> is_error_cb t \<and> \<not> is_closed t)"

definition ssl_ups :: "tm_io_ssl \<Rightarrow> tm_ssl_stream \<times> upcall list \<Rightarrow> tm_io_ssl \<times> upcall list" where
  "ssl_ups t r = (case r of (s, ups) \<Rightarrow> (t\<lparr>is_ssl := s\<rparr>, filter (ssl_up t) ups))"

definition ssl_write :: "tm_io_ssl \<Rightarrow> bytes \<Rightarrow> tm_status \<times> tm_io_ssl \<times> upcall list" where
  "ssl_write t data =
     (if is_closed t then (TM_ERR, t, [])
      else case tm_ssl_stream_write (is_ssl t) data of (r, sr) \<Rightarrow> (r, ssl_ups t sr))"

definition ssl_shutdown_send :: "tm_io_ssl \<Rightarrow> tm_io_ssl \<times> upcall list" where
  "ssl_shutdown_send t = ssl_ups t (tm_ssl_stream_shutdown_send (is_ssl t))"

text \<open>\<open>ssl_close\<close> frees the wrapper; the stream may outlive it until its write completes.\<close>

definition ssl_close :: "tm_io_ssl \<Rightarrow> tm_ssl_stream option" where
  "ssl_close t = (if is_closed t then Some (is_ssl t) else tm_ssl_stream_close (is_ssl t))"

definition tm_io_start :: "tm_io option \<Rightarrow> tm_io option" where
  "tm_io_start io = (case io of None \<Rightarrow> None
     | Some (IoTcp t) \<Rightarrow> Some (IoTcp (tcp_start t))
     | Some (IoSsl t) \<Rightarrow> Some (IoSsl (t\<lparr>is_ssl := tm_ssl_stream_start (is_ssl t)\<rparr>)))"

definition io_write :: "tm_io \<Rightarrow> bytes \<Rightarrow> tm_status \<times> tm_io \<times> upcall list" where
  "io_write io data = (case io of
       IoTcp t \<Rightarrow> (case tcp_write t data of (r, t', ups) \<Rightarrow> (r, IoTcp t', ups))
     | IoSsl t \<Rightarrow> (case ssl_write t data of (r, t', ups) \<Rightarrow> (r, IoSsl t', ups)))"

definition tm_io_write :: "tm_io option \<Rightarrow> bytes \<Rightarrow> tm_status \<times> tm_io option \<times> upcall list" where
  "tm_io_write io data = (case io of None \<Rightarrow> (TM_ERR, None, [])
     | Some io \<Rightarrow> (case io_write io data of (r, io', ups) \<Rightarrow> (r, Some io', ups)))"

definition io_shutdown_send :: "tm_io \<Rightarrow> tm_io \<times> upcall list" where
  "io_shutdown_send io = (case io of
       IoTcp t \<Rightarrow> (IoTcp (tcp_shutdown_send t), [])
     | IoSsl t \<Rightarrow> (case ssl_shutdown_send t of (t', ups) \<Rightarrow> (IoSsl t', ups)))"

definition tm_io_shutdown_send :: "tm_io option \<Rightarrow> tm_io option \<times> upcall list" where
  "tm_io_shutdown_send io = (case io of None \<Rightarrow> (None, [])
     | Some io \<Rightarrow> (case io_shutdown_send io of (io', ups) \<Rightarrow> (Some io', ups)))"

definition tm_io_pause_read :: "tm_io option \<Rightarrow> tm_io option" where
  "tm_io_pause_read io = (case io of None \<Rightarrow> None
     | Some (IoTcp t) \<Rightarrow> Some (IoTcp (tcp_pause_read t))
     | Some (IoSsl t) \<Rightarrow> Some (IoSsl (t\<lparr>is_ssl := tm_ssl_stream_pause_read (is_ssl t)\<rparr>)))"

definition tm_io_resume_read :: "tm_io option \<Rightarrow> tm_io option" where
  "tm_io_resume_read io = (case io of None \<Rightarrow> None
     | Some (IoTcp t) \<Rightarrow> Some (IoTcp (tcp_resume_read t))
     | Some (IoSsl t) \<Rightarrow> Some (IoSsl (t\<lparr>is_ssl := tm_ssl_stream_resume_read (is_ssl t)\<rparr>)))"

definition tm_io_set_cbs :: "tm_io option \<Rightarrow> bool \<Rightarrow> bool \<Rightarrow> tm_io option" where
  "tm_io_set_cbs io low_cb error_cb = (case io of None \<Rightarrow> None
     | Some (IoTcp t) \<Rightarrow> Some (IoTcp (tcp_set_cbs t low_cb error_cb))
     | Some (IoSsl t) \<Rightarrow> Some (IoSsl (t\<lparr>is_low_cb := low_cb, is_error_cb := error_cb\<rparr>)))"

definition tm_io_write_available :: "tm_io option \<Rightarrow> bool" where
  "tm_io_write_available io = (case io of None \<Rightarrow> False
     | Some (IoTcp t) \<Rightarrow> tcp_write_available t
     | Some (IoSsl t) \<Rightarrow> tm_ssl_stream_write_available (is_ssl t))"

definition tm_io_pending :: "tm_io option \<Rightarrow> nat" where
  "tm_io_pending io = (case io of None \<Rightarrow> 0
     | Some (IoTcp t) \<Rightarrow> tcp_pending t
     | Some (IoSsl t) \<Rightarrow> tm_ssl_stream_pending (is_ssl t))"

definition io_drained :: "tm_io \<Rightarrow> bool" where
  "io_drained io = (case io of IoTcp t \<Rightarrow> tcp_drained t | IoSsl t \<Rightarrow> tm_ssl_stream_drained (is_ssl t))"

definition tm_io_drained :: "tm_io option \<Rightarrow> bool" where
  "tm_io_drained io = (case io of None \<Rightarrow> True | Some io \<Rightarrow> io_drained io)"

definition tm_io_is_open :: "tm_io option \<Rightarrow> bool" where
  "tm_io_is_open io = (case io of None \<Rightarrow> False
     | Some (IoTcp t) \<Rightarrow> tcp_open t | Some (IoSsl t) \<Rightarrow> \<not> is_closed t)"

definition tm_io_is_tls :: "tm_io option \<Rightarrow> bool" where
  "tm_io_is_tls io = (case io of Some (IoSsl _) \<Rightarrow> True | _ \<Rightarrow> False)"

definition tm_io_write_total :: "tm_io option \<Rightarrow> u64" where
  "tm_io_write_total io = (case io of None \<Rightarrow> 0
     | Some (IoTcp t) \<Rightarrow> tc_queued_total t | Some (IoSsl t) \<Rightarrow> ss_write_pq_total (is_ssl t))"

text \<open>Whether libuv and the decryption loop may still deliver data from this leg.\<close>

definition io_reading :: "tm_io \<Rightarrow> bool" where
  "io_reading io = (case io of IoTcp t \<Rightarrow> tc_uv_reading t
     | IoSsl t \<Rightarrow> ss_uv_reading (is_ssl t) \<and> \<not> ss_read_paused (is_ssl t))"

section \<open>The contract of a leg\<close>

definition io_live :: "tm_io \<Rightarrow> bool" where
  "io_live io = (case io of IoTcp t \<Rightarrow> tcp_live t
     | IoSsl t \<Rightarrow> ssl_live (is_ssl t) \<and> \<not> is_closed t \<and> is_error_cb t)"

definition io_accepted :: "tm_io \<Rightarrow> bytes" where
  "io_accepted io = (case io of IoTcp t \<Rightarrow> tcp_accepted t | IoSsl t \<Rightarrow> ssl_accepted (is_ssl t))"

definition io_sent :: "tm_io \<Rightarrow> bytes" where
  "io_sent io = (case io of IoTcp t \<Rightarrow> tc_sent t | IoSsl t \<Rightarrow> ss_plain (is_ssl t))"

lemma up_error_iff: "up_error ups \<longleftrightarrow> (\<exists>e. UpError e \<in> set ups)"
  by (induction ups rule: up_error.induct) auto

lemma up_error_filter:
  "is_error_cb t \<Longrightarrow> \<not> is_closed t \<Longrightarrow> up_error (filter (ssl_up t) ups) = up_error ups"
  by (auto simp: up_error_iff ssl_up_def)

lemma io_live_IoTcp [simp]: "io_live (IoTcp t) = tcp_live t" "io_accepted (IoTcp t) = tcp_accepted t"
    "io_sent (IoTcp t) = tc_sent t" "io_drained (IoTcp t) = tcp_drained t"
  by (simp_all add: io_live_def io_accepted_def io_sent_def io_drained_def)

lemma io_live_IoSsl [simp]:
  "io_live (IoSsl t) = (ssl_live (is_ssl t) \<and> \<not> is_closed t \<and> is_error_cb t)"
  "io_accepted (IoSsl t) = ssl_accepted (is_ssl t)" "io_sent (IoSsl t) = ss_plain (is_ssl t)"
  "io_drained (IoSsl t) = tm_ssl_stream_drained (is_ssl t)"
  by (simp_all add: io_live_def io_accepted_def io_sent_def io_drained_def)

lemma io_write_IoSsl:
  assumes "io_write (IoSsl t) d = (r, io', ups)" "\<not> is_closed t"
  obtains s ups0 where "tm_ssl_stream_write (is_ssl t) d = (r, s, ups0)"
    "io' = IoSsl (t\<lparr>is_ssl := s\<rparr>)" "ups = filter (ssl_up t) ups0"
  using assms by (auto simp: io_write_def ssl_write_def ssl_ups_def split: prod.splits)

lemma io_write_IoTcp:
  assumes "io_write (IoTcp t) d = (r, io', ups)"
  obtains t' where "tcp_write t d = (r, t', ups)" "io' = IoTcp t'"
  using assms by (auto simp: io_write_def split: prod.splits)

interpretation io_disp: io_leg io_live io_accepted io_sent io_drained io_write
proof unfold_locales
  fix io d io' ups
  assume *: "io_live io" "io_write io d = (TM_OK, io', ups)" "\<not> up_error ups"
  show "io_live io' \<and> io_accepted io' = io_accepted io @ d"
  proof (cases io)
    case (IoTcp t)
    with * show ?thesis using tcp_leg.write_ok by (auto elim!: io_write_IoTcp)
  next
    case (IoSsl t)
    with * show ?thesis
      using ssl_leg.write_ok [of "is_ssl t" d] by (auto elim!: io_write_IoSsl simp: up_error_filter)
  qed
next
  fix io d r io' ups
  assume *: "io_live io" "io_write io d = (r, io', ups)" "r \<noteq> TM_OK"
  show "io_live io' \<and> io_accepted io' = io_accepted io \<and> io_sent io' = io_sent io \<and> ups = [] \<and>
      r \<in> {TM_ERR_BUSY, TM_ERR}"
  proof (cases io)
    case (IoTcp t)
    with * show ?thesis using tcp_leg.write_refused [of t d r] by (auto elim!: io_write_IoTcp)
  next
    case (IoSsl t)
    with * show ?thesis
      using ssl_leg.write_refused [of "is_ssl t" d r] by (auto elim!: io_write_IoSsl)
  qed
next
  fix io d r io' ups
  assume *: "io_live io" "io_write io d = (r, io', ups)"
  show "\<exists>s. io_sent io' = io_sent io @ s"
  proof (cases io)
    case (IoTcp t)
    with * show ?thesis using tcp_leg.write_sent [of t d r] by (auto elim!: io_write_IoTcp)
  next
    case (IoSsl t)
    with * show ?thesis
      using ssl_leg.write_sent [of "is_ssl t" d r] by (auto elim!: io_write_IoSsl)
  qed
next
  fix io
  assume "io_live io"
  then show "\<exists>q. io_accepted io = io_sent io @ q"
    using tcp_leg.sent_prefix ssl_leg.sent_prefix by (cases io) simp_all
next
  fix io
  assume "io_live io" "io_drained io"
  then show "io_sent io = io_accepted io"
    using tcp_leg.drained_sent ssl_leg.drained_sent by (cases io) simp_all
qed

definition io_shut :: "tm_io \<Rightarrow> bool" where
  "io_shut io = (case io of IoTcp t \<Rightarrow> tc_write_closed t | IoSsl t \<Rightarrow> ss_close_sent (is_ssl t))"

lemma io_shut_simps [simp]:
  "io_shut (IoTcp t) = tc_write_closed t" "io_shut (IoSsl s) = ss_close_sent (is_ssl s)"
  by (simp_all add: io_shut_def)

lemma io_shutdown_IoTcp [simp]: "io_shutdown_send (IoTcp t) = (IoTcp (tcp_shutdown_send t), [])"
  by (simp add: io_shutdown_send_def)

lemma io_shutdown_IoSsl:
  assumes "io_shutdown_send (IoSsl t) = (io', ups)"
  obtains s ups0 where "tm_ssl_stream_shutdown_send (is_ssl t) = (s, ups0)"
    "io' = IoSsl (t\<lparr>is_ssl := s\<rparr>)" "ups = filter (ssl_up t) ups0"
  using assms by (auto simp: io_shutdown_send_def ssl_shutdown_send_def ssl_ups_def split: prod.splits)

interpretation io_half: half_close_leg io_live io_accepted io_sent io_drained io_write
  io_shut io_shutdown_send
proof unfold_locales
  fix io d r io' ups
  assume *: "io_live io" "io_write io d = (r, io', ups)"
  show "io_shut io' = io_shut io"
    using * tcp_half.put_shut ssl_half.put_shut
    by (cases io) (auto elim!: io_write_IoTcp io_write_IoSsl)
  assume "\<not> io_shut io"
  with * show "r \<noteq> TM_ERR"
    by (cases io) (auto elim!: io_write_IoTcp io_write_IoSsl dest: tcp_half.put_open ssl_half.put_open)
next
  fix io io' ups
  assume *: "io_live io" "io_shutdown_send io = (io', ups)"
  show "\<exists>s. io_sent io' = io_sent io @ s"
  proof (cases io)
    case (IoTcp t)
    with * show ?thesis using tcp_shutdown_live [of t] by auto
  next
    case (IoSsl t)
    from * show ?thesis
      unfolding IoSsl by (elim io_shutdown_IoSsl) (use ssl_half.shutdown_sent [of "is_ssl t"] in simp)
  qed
  assume e: "\<not> up_error ups"
  show "io_live io' \<and> io_accepted io' = io_accepted io \<and> io_shut io'"
  proof (cases io)
    case (IoTcp t)
    with * show ?thesis using tcp_shutdown_live [of t] by auto
  next
    case (IoSsl t)
    from * e show ?thesis
      unfolding IoSsl
      by (elim io_shutdown_IoSsl)
        (use ssl_half.shutdown_keeps [of "is_ssl t"] in \<open>simp add: up_error_filter\<close>)
  qed
qed

text \<open>The operations that only concern reading leave the write side alone.\<close>

definition io_write_same :: "tm_io \<Rightarrow> tm_io \<Rightarrow> bool" where
  "io_write_same io io' \<longleftrightarrow> io_live io' = io_live io \<and> io_accepted io' = io_accepted io \<and>
     io_sent io' = io_sent io \<and> io_shut io' = io_shut io \<and> io_drained io' = io_drained io"

lemma io_read_ops_same:
  "io_write_same io (the (tm_io_pause_read (Some io)))"
  "io_write_same io (the (tm_io_resume_read (Some io)))"
  "io_write_same io (the (tm_io_start (Some io)))"
proof -
  have "ssl_live s' = ssl_live s \<and> ssl_accepted s' = ssl_accepted s" if "ssl_same s s'" for s s'
    using that by (auto simp: ssl_live_def ssl_inv_def ssl_accepted_def ssl_same_def)
  note this [OF ssl_quiet_ops(1)] this [OF ssl_quiet_ops(2)] this [OF ssl_quiet_ops(3)]
  then show "io_write_same io (the (tm_io_pause_read (Some io)))"
    "io_write_same io (the (tm_io_resume_read (Some io)))" "io_write_same io (the (tm_io_start (Some io)))"
    by (cases io; auto simp: io_write_same_def tm_io_pause_read_def tm_io_resume_read_def tm_io_start_def
        tcp_pause_read_def tcp_resume_read_def tcp_start_def tcp_live_def tcp_inv_def tcp_accepted_def
        tcp_drained_def tm_ssl_stream_pause_read_def tm_ssl_stream_resume_read_def tm_ssl_stream_start_def
        tm_ssl_stream_drained_def Let_def)+
qed

lemma io_read_ops_Some:
  "tm_io_pause_read (Some io) = Some (the (tm_io_pause_read (Some io)))"
  "tm_io_resume_read (Some io) = Some (the (tm_io_resume_read (Some io)))"
  "tm_io_start (Some io) = Some (the (tm_io_start (Some io)))"
  by (cases io; simp add: tm_io_pause_read_def tm_io_resume_read_def tm_io_start_def)+

lemma io_set_cbs_live:
  assumes "io_live io"
  obtains io' where "tm_io_set_cbs (Some io) True True = Some io'" "io_live io'"
    "io_accepted io' = io_accepted io" "io_shut io' = io_shut io"
  using assms that
  by (cases io) (auto simp: tm_io_set_cbs_def tcp_set_cbs_def tcp_live_def tcp_inv_def tcp_accepted_def)

end
