(* ===== verification/Crypto.thy ===== *)
theory Crypto
  imports Wire
begin

text \<open>
  \<open>common/src/crypto.c\<close> and the address comparisons of \<open>common/src/net.c\<close>. HMAC-SHA256 and SHA-256
  are OpenSSL's: they are parameters of the definitions that call them. C strings are the bytes
  before the terminating NUL.
\<close>

section \<open>Hex digests\<close>

definition hexd :: "u8 list" where
  "hexd = [48, 49, 50, 51, 52, 53, 54, 55, 56, 57, 97, 98, 99, 100, 101, 102]"

definition hex_byte :: "u8 \<Rightarrow> bytes" where
  "hex_byte b = [hexd ! unat (drop_bit 4 b), hexd ! unat (b AND 0xF)]"

definition tm_sha256_hex :: "(bytes \<Rightarrow> bytes) \<Rightarrow> bytes \<Rightarrow> bytes" where
  "tm_sha256_hex sha256 msg = concat (map hex_byte (sha256 msg))"

definition hexval :: "u8 \<Rightarrow> int" where
  "hexval c =
     (if 48 \<le> c \<and> c \<le> 57 then uint c - 48
      else if 97 \<le> c \<and> c \<le> 102 then uint c - 97 + 10
      else if 65 \<le> c \<and> c \<le> 70 then uint c - 65 + 10
      else -1)"

text \<open>
  The loop of \<open>tm_ct_eq_hex\<close>, two characters at a time. On an odd length the second read of the last
  round is the terminating NUL.
\<close>

definition hex_pair :: "int \<Rightarrow> int \<Rightarrow> u8" where
  "hex_pair h l = word_of_int (push_bit 4 h OR l)"

fun ct_hex_loop :: "u8 \<Rightarrow> bytes \<Rightarrow> bytes \<Rightarrow> bool" where
  "ct_hex_loop diff (a0 # a1 # a) (b0 # b1 # b) =
     (if hexval a0 < 0 \<or> hexval a1 < 0 \<or> hexval b0 < 0 \<or> hexval b1 < 0 then False
      else ct_hex_loop
             (diff OR (hex_pair (hexval a0) (hexval a1) XOR hex_pair (hexval b0) (hexval b1))) a b)"
| "ct_hex_loop diff [a0] b = False"
| "ct_hex_loop diff (a0 # a1 # a) [b0] = False"
| "ct_hex_loop diff [] b = (diff = 0)"
| "ct_hex_loop diff a [] = (diff = 0)"

definition tm_ct_eq_hex :: "bytes \<Rightarrow> bytes \<Rightarrow> bool" where
  "tm_ct_eq_hex a b = (if length a \<noteq> length b then False else ct_hex_loop 0 a b)"

section \<open>Random tokens\<close>

definition alphabet :: "u8 list" where
  "alphabet = map word_of_nat ([97..<123] @ [65..<91] @ [48..<58])"

text \<open>\<open>raw\<close> is what \<open>RAND_bytes\<close> delivered, \<open>None\<close> when it failed.\<close>

definition tm_rand_token :: "bytes option \<Rightarrow> nat \<Rightarrow> bytes" where
  "tm_rand_token raw len =
     (if len = 0 then []
      else case raw of None \<Rightarrow> [] | Some r \<Rightarrow> map (\<lambda>i. alphabet ! (unat (r ! i) mod 62)) [0..<len])"

section \<open>Addresses\<close>

datatype sockaddr = SaUnspec | SaInet u32 u16 | SaInet6 bytes u16 | SaOther nat

definition tm_addr_eq_ip :: "sockaddr option \<Rightarrow> sockaddr option \<Rightarrow> bool" where
  "tm_addr_eq_ip a b =
     (case (a, b) of
        (Some (SaInet x _), Some (SaInet y _)) \<Rightarrow> x = y
      | (Some (SaInet6 x _), Some (SaInet6 y _)) \<Rightarrow> x = y
      | (Some SaUnspec, Some SaUnspec) \<Rightarrow> True
      | _ \<Rightarrow> False)"

definition tm_addr_eq :: "sockaddr option \<Rightarrow> sockaddr option \<Rightarrow> bool" where
  "tm_addr_eq a b =
     (case (a, b) of
        (Some (SaInet x p), Some (SaInet y q)) \<Rightarrow> p = q \<and> x = y
      | (Some (SaInet6 x p), Some (SaInet6 y q)) \<Rightarrow> p = q \<and> x = y
      | _ \<Rightarrow> False)"

text \<open>\<open>getaddrinfo\<close> is the parameter \<open>resolve\<close>: the first result of the lookup, if any.\<close>

definition tm_addr_parse ::
    "(bytes \<Rightarrow> u16 \<Rightarrow> sockaddr option) \<Rightarrow> bytes \<Rightarrow> u16 \<Rightarrow> tm_status \<times> sockaddr option" where
  "tm_addr_parse resolve host port =
     (case resolve host port of None \<Rightarrow> (TM_ERR_INVALID, None) | Some a \<Rightarrow> (TM_OK, Some a))"

section \<open>Correctness of the digest comparison\<close>

lemma hexval_hexd: "n < 16 \<Longrightarrow> hexval (hexd ! n) = int n"
proof -
  have "\<forall>n \<in> set [0..<16]. hexval (hexd ! n) = int n"
    by (simp add: upt_rec hexd_def hexval_def)
  then show "n < 16 \<Longrightarrow> hexval (hexd ! n) = int n" by simp
qed

lemma hex_pair_nibbles: "n < 256 \<Longrightarrow> hex_pair (int (n div 16)) (int (n mod 16)) = (word_of_nat n :: u8)"
proof -
  have "push_bit 4 (int (n div 16)) OR int (n mod 16) = concat_bit 4 (int (n mod 16)) (int (n div 16))"
    by (simp add: concat_bit_def take_bit_int_eq_self or.commute)
  also have "\<dots> = int (n mod 16) + 16 * int (n div 16)"
    by (simp add: concat_bit_eq take_bit_int_eq_self push_bit_eq_mult)
  also have "\<dots> = int n" by (simp add: zdiv_int zmod_int)
  finally show ?thesis by (simp add: hex_pair_def)
qed

lemma hex_byte_decode:
  obtains h l where "hex_byte b = [h, l]" "0 \<le> hexval h" "0 \<le> hexval l" "hex_pair (hexval h) (hexval l) = b"
proof -
  have "unat b div 16 < 16" "unat b mod 16 < 16" using u8_lt [of b] by auto
  then have "hexval (hexd ! unat (drop_bit 4 b)) = int (unat b div 16)"
      "hexval (hexd ! unat (b AND 0xF)) = int (unat b mod 16)"
    by (simp_all add: u8_nibbles hexval_hexd)
  with hex_pair_nibbles [OF u8_lt, of b] that show thesis by (simp add: hex_byte_def)
qed

lemma length_concat_hex: "length (concat (map hex_byte xs)) = 2 * length xs"
  by (induction xs) (simp_all add: hex_byte_def)

lemma ct_hex_loop_hex:
  "length xs = length ys \<Longrightarrow>
     ct_hex_loop d (concat (map hex_byte xs)) (concat (map hex_byte ys)) \<longleftrightarrow> d = 0 \<and> xs = ys"
proof (induction xs ys arbitrary: d rule: list_induct2)
  case (Cons x xs y ys)
  obtain h l where x: "hex_byte x = [h, l]" "0 \<le> hexval h" "0 \<le> hexval l" "hex_pair (hexval h) (hexval l) = x"
    by (rule hex_byte_decode)
  obtain h' l' where y: "hex_byte y = [h', l']" "0 \<le> hexval h'" "0 \<le> hexval l'"
      "hex_pair (hexval h') (hexval l') = y"
    by (rule hex_byte_decode)
  show ?case using Cons.IH x y by (auto simp: word_or_zero word_xor_zero)
qed simp

lemma ct_hex_eq_concat:
  "tm_ct_eq_hex (concat (map hex_byte xs)) (concat (map hex_byte ys)) \<longleftrightarrow> xs = ys"
  using ct_hex_loop_hex [of xs ys 0] by (auto simp: tm_ct_eq_hex_def length_concat_hex)

text \<open>
  (C28) The credential check compares digests exactly: the hex strings of two digests match if and
  only if the digests are equal, and no digest matches a string of another length, in particular
  not the empty string of a tunnel without a secret.
\<close>
theorem ct_eq_hex_exact:
  "(tm_ct_eq_hex (tm_sha256_hex sha256 m) (tm_sha256_hex sha256 m') \<longleftrightarrow> sha256 m = sha256 m') \<and>
   (tm_ct_eq_hex (tm_sha256_hex sha256 m) s \<longrightarrow> length s = 2 * length (sha256 m))"
  using ct_hex_eq_concat [of "sha256 m" "sha256 m'"]
  by (auto simp: tm_sha256_hex_def tm_ct_eq_hex_def length_concat_hex split: if_splits)

theorem ct_eq_hex_exact_witness:
  "tm_ct_eq_hex (tm_sha256_hex (\<lambda>m. m) [0xAB]) [97, 98] \<and>
   length ([97, 98] :: bytes) = 2 * length [0xAB :: u8]"
proof -
  have "tm_ct_eq_hex (tm_sha256_hex (\<lambda>m. m) [0xAB]) [97, 98]"
    by (simp add: tm_sha256_hex_def hex_byte_def hexd_def tm_ct_eq_hex_def hexval_def hex_pair_def
        drop_bit_eq_div)
  then show ?thesis using ct_eq_hex_exact [of "\<lambda>m. m" "[0xAB]" "[0xAB]" "[97, 98]"] by simp
qed

section \<open>Addresses\<close>

lemma tm_addr_eq_ip_refl: "(\<forall>n. a \<noteq> SaOther n) \<Longrightarrow> tm_addr_eq_ip (Some a) (Some a)"
  by (cases a) (auto simp: tm_addr_eq_ip_def)

lemma tm_addr_eq_ip_sym: "tm_addr_eq_ip a b = tm_addr_eq_ip b a"
  by (auto simp: tm_addr_eq_ip_def split: option.splits sockaddr.splits)

lemma tm_addr_eq_ip_trans: "tm_addr_eq_ip a b \<Longrightarrow> tm_addr_eq_ip b c \<Longrightarrow> tm_addr_eq_ip a c"
  by (auto simp: tm_addr_eq_ip_def split: option.splits sockaddr.splits)

end
