(* ===== verification/Relay.thy ===== *)
theory Relay
  imports Io Crypto
begin

text \<open>
  \<open>broker/src/relay.c\<close>: the pairing of a consumer leg (A) with the agent's data connection (B).
  Fields the C struct has twice, once per leg, are functions of the leg: \<open>st_io LegA\<close> is \<open>io_a\<close>,
  \<open>st_pend l\<close> the bytes destined for leg \<open>l\<close> (\<open>pend_a\<close>, \<open>pend_b\<close>), \<open>st_eof LegA\<close> is \<open>a_eof\<close>,
  \<open>st_fin LegA\<close> is \<open>a_fin\<close> (the FIN sent to B because A ended), \<open>st_bytes LegA\<close> is \<open>up_bytes\<close>,
  \<open>st_sock l\<close> tells whether the socket handle is open. A \<open>NULL\<close> io is \<open>None\<close>.

  The result \<open>None\<close> of a handler is an access to a freed leg, which C leaves undefined. Handlers
  call each other through the legs' callbacks; \<open>relay_up\<close> makes those calls, with fuel 3 for their
  depth, which is always enough (\<open>relay_fuel_enough\<close>). Unlinking a closed stream from its tunnel and
  the broker's counters is in theory \<open>Streams\<close>.
\<close>

section \<open>State\<close>

datatype leg = LegA | LegB

fun other :: "leg \<Rightarrow> leg" where
  "other LegA = LegB"
| "other LegB = LegA"

record tm_stream =
  st_id :: u32
  st_sock :: "leg \<Rightarrow> bool"
  st_bind_timer :: bool
  st_io :: "leg \<Rightarrow> tm_io option"
  st_bound :: bool
  st_eof :: "leg \<Rightarrow> bool"
  st_closing :: bool
  st_paused :: "leg \<Rightarrow> bool"
  st_start_ms :: u64
  st_bytes :: "leg \<Rightarrow> u64"
  st_peer_addr :: sockaddr
  st_preq :: bytes
  st_preq_cap :: nat
  st_pend :: "leg \<Rightarrow> bytes"
  st_pend_cap :: "leg \<Rightarrow> nat"
  st_fin :: "leg \<Rightarrow> bool"
  st_flushing :: "leg \<Rightarrow> bool"

abbreviation set_io :: "leg \<Rightarrow> tm_io option \<Rightarrow> tm_stream \<Rightarrow> tm_stream" where
  "set_io l io st \<equiv> st\<lparr>st_io := (st_io st)(l := io)\<rparr>"

abbreviation set_pend :: "leg \<Rightarrow> bytes \<Rightarrow> nat \<Rightarrow> tm_stream \<Rightarrow> tm_stream" where
  "set_pend l p c st \<equiv> st\<lparr>st_pend := (st_pend st)(l := p), st_pend_cap := (st_pend_cap st)(l := c)\<rparr>"

section \<open>Closing\<close>

definition tm_stream_close :: "tm_stream \<Rightarrow> tm_stream" where
  "tm_stream_close st =
     (if st_closing st then st
      else st\<lparr>st_closing := True, st_bind_timer := False, st_io := (\<lambda>_. None),
              st_sock := (\<lambda>_. False)\<rparr>)"

definition stream_maybe_close :: "tm_stream \<Rightarrow> tm_stream" where
  "stream_maybe_close st =
     (if st_closing st \<or> \<not> st_eof st LegA \<or> \<not> st_eof st LegB then st
      else if st_io st LegA \<noteq> None \<and> \<not> tm_io_drained (st_io st LegA) then st
      else if st_io st LegB \<noteq> None \<and> \<not> tm_io_drained (st_io st LegB) then st
      else if st_pend st LegA \<noteq> [] \<or> st_pend st LegB \<noteq> [] \<or> st_preq st \<noteq> [] then st
      else tm_stream_close st)"

section \<open>Queues and callbacks\<close>

text \<open>Append to a queue, growing its allocation as the code does (first 16 KiB, then doubling).\<close>

definition pend_append :: "leg \<Rightarrow> bytes \<Rightarrow> tm_stream \<Rightarrow> tm_stream" where
  "pend_append l data st =
     set_pend l (st_pend st l @ data)
       (next_cap 16384 (st_pend_cap st l) (length (st_pend st l) + length data)) st"

text \<open>
  \<open>flush_pend\<close> on the queue of leg \<open>l\<close>. When the error callback fires inside a write that returned
  \<open>TM_OK\<close>, it has freed the leg: the loop then drops the slice and, if more is queued, writes
  through the freed pointer.
\<close>

definition flush_pend ::
    "(tm_stream \<Rightarrow> tm_stream option) \<Rightarrow> leg \<Rightarrow> tm_stream \<Rightarrow> tm_stream option" where
  "flush_pend err l st =
     (if st_flushing st l \<or> st_pend st l = [] then Some st
      else case st_io st l of
        None \<Rightarrow> Some (set_pend l [] 0 st)
      | Some io \<Rightarrow>
          (case flush_loop io_write io (st_pend st l) of
             FlDone io' rest _ \<Rightarrow>
               Some (set_io l (Some io') (set_pend l rest (if rest = [] then 0 else st_pend_cap st l) st))
           | FlError io' piece rest \<Rightarrow>
               (case err (set_io l (Some io') (set_pend l (piece @ rest) (st_pend_cap st l)
                            (st\<lparr>st_flushing := (st_flushing st)(l := True)\<rparr>))) of
                  None \<Rightarrow> None
                | Some st' \<Rightarrow>
                    if rest \<noteq> [] then None
                    else Some (set_pend l [] 0 (st'\<lparr>st_flushing := (st_flushing st')(l := False)\<rparr>)))))"

fun run_ups :: "(upcall \<Rightarrow> tm_stream \<Rightarrow> tm_stream option) \<Rightarrow> upcall list \<Rightarrow> tm_stream \<Rightarrow> tm_stream option" where
  "run_ups up [] st = Some st"
| "run_ups up (u # us) st = (case up u st of None \<Rightarrow> None | Some st' \<Rightarrow> run_ups up us st')"

text \<open>\<open>tm_io_shutdown_send(io)\<close> on leg \<open>l\<close>, with the callbacks it makes.\<close>

definition leg_shutdown ::
    "(leg \<Rightarrow> upcall \<Rightarrow> tm_stream \<Rightarrow> tm_stream option) \<Rightarrow> leg \<Rightarrow> tm_stream \<Rightarrow> tm_stream option" where
  "leg_shutdown up l st =
     (case tm_io_shutdown_send (st_io st l) of (io, ups) \<Rightarrow> run_ups (up l) ups (set_io l io st))"

text \<open>
  The common end of \<open>relay_a_eof\<close>, \<open>relay_a_error\<close> and their leg-B twins, after leg \<open>l\<close> has ended:
  flush what is queued for the other leg, then pass the end on.
\<close>

definition relay_ended ::
    "(leg \<Rightarrow> upcall \<Rightarrow> tm_stream \<Rightarrow> tm_stream option) \<Rightarrow> leg \<Rightarrow> tm_stream \<Rightarrow> tm_stream option" where
  "relay_ended up l st =
     (let o' = other l in
      if st_io st o' = None then Some (stream_maybe_close st)
      else case flush_pend (up o' (UpError TM_ERR_IO)) o' st of
        None \<Rightarrow> None
      | Some st \<Rightarrow>
          if st_pend st o' \<noteq> [] then Some (stream_maybe_close st)
          else map_option stream_maybe_close
                 (leg_shutdown up o' (st\<lparr>st_fin := (st_fin st)(l := True)\<rparr>)))"

definition relay_eof_body ::
    "(leg \<Rightarrow> upcall \<Rightarrow> tm_stream \<Rightarrow> tm_stream option) \<Rightarrow> leg \<Rightarrow> tm_stream \<Rightarrow> tm_stream option" where
  "relay_eof_body up l st =
     (if st_closing st then Some st
      else relay_ended up l (st\<lparr>st_eof := (st_eof st)(l := True)\<rparr>))"

definition relay_error_body ::
    "(leg \<Rightarrow> upcall \<Rightarrow> tm_stream \<Rightarrow> tm_stream option) \<Rightarrow> leg \<Rightarrow> tm_stream \<Rightarrow> tm_stream option" where
  "relay_error_body up l st =
     (if st_closing st then Some st
      else relay_ended up l (set_io l None (st\<lparr>st_eof := (st_eof st)(l := True)\<rparr>)))"

definition leg_resume :: "leg \<Rightarrow> tm_stream \<Rightarrow> tm_stream" where
  "leg_resume l st =
     (if st_paused st l \<and> st_io st l \<noteq> None
      then set_io l (tm_io_resume_read (st_io st l)) (st\<lparr>st_paused := (st_paused st)(l := False)\<rparr>)
      else st)"

text \<open>\<open>relay_a_low\<close>, \<open>relay_b_low\<close>: the write side of leg \<open>l\<close> drained.\<close>

definition relay_low_body ::
    "(leg \<Rightarrow> upcall \<Rightarrow> tm_stream \<Rightarrow> tm_stream option) \<Rightarrow> leg \<Rightarrow> tm_stream \<Rightarrow> tm_stream option" where
  "relay_low_body up l st =
     (if st_closing st then Some st
      else if st_io st l = None then Some (stream_maybe_close st)
      else case flush_pend (up l (UpError TM_ERR_IO)) l st of
        None \<Rightarrow> None
      | Some st \<Rightarrow>
          if st_pend st l \<noteq> [] then Some (stream_maybe_close st)
          else
            (case (if st_eof st (other l) \<and> \<not> st_fin st (other l)
                   then leg_shutdown up l (st\<lparr>st_fin := (st_fin st)(other l := True)\<rparr>)
                   else Some st) of
               None \<Rightarrow> None
             | Some st \<Rightarrow> Some (stream_maybe_close (leg_resume (other l) st))))"

fun relay_up :: "nat \<Rightarrow> leg \<Rightarrow> upcall \<Rightarrow> tm_stream \<Rightarrow> tm_stream option" where
  "relay_up 0 l u st = None"
| "relay_up (Suc n) l UpLow st = relay_low_body (relay_up n) l st"
| "relay_up (Suc n) l (UpError e) st = relay_error_body (relay_up n) l st"

abbreviation up3 :: "leg \<Rightarrow> upcall \<Rightarrow> tm_stream \<Rightarrow> tm_stream option" where
  "up3 \<equiv> relay_up 3"

section \<open>Handlers\<close>

definition relay_a_eof :: "tm_stream \<Rightarrow> tm_stream option" where
  "relay_a_eof = relay_eof_body up3 LegA"

definition relay_b_eof :: "tm_stream \<Rightarrow> tm_stream option" where
  "relay_b_eof = relay_eof_body up3 LegB"

definition relay_a_error :: "tm_stream \<Rightarrow> tm_stream option" where
  "relay_a_error = relay_error_body up3 LegA"

definition relay_b_error :: "tm_stream \<Rightarrow> tm_stream option" where
  "relay_b_error = relay_error_body up3 LegB"

definition relay_a_low :: "tm_stream \<Rightarrow> tm_stream option" where
  "relay_a_low = relay_low_body up3 LegA"

definition relay_b_low :: "tm_stream \<Rightarrow> tm_stream option" where
  "relay_b_low = relay_low_body up3 LegB"

text \<open>The write of a chunk from leg \<open>l\<close> to the other leg, behind whatever is already queued.\<close>

definition relay_forward :: "leg \<Rightarrow> bytes \<Rightarrow> tm_stream \<Rightarrow> tm_stream option" where
  "relay_forward l data st =
     (let o' = other l;
          (r, io, ups) = (if st_pend st o' \<noteq> [] then (TM_ERR_BUSY, st_io st o', [])
                          else tm_io_write (st_io st o') data)
      in case run_ups (up3 o') ups (set_io o' io st) of
           None \<Rightarrow> None
         | Some st \<Rightarrow>
             if r = TM_ERR_BUSY then
               let st = pend_append o' data st
               in Some (set_io l (tm_io_pause_read (st_io st l))
                          (st\<lparr>st_paused := (st_paused st)(l := True)\<rparr>))
             else if r \<noteq> TM_OK then Some (tm_stream_close st)
             else Some st)"

definition relay_a_read :: "bytes \<Rightarrow> tm_stream \<Rightarrow> tm_stream option" where
  "relay_a_read data st =
     (if st_closing st then Some st
      else
        let st = st\<lparr>st_bytes := (st_bytes st)(LegA := st_bytes st LegA + of_nat (length data))\<rparr> in
        if st_io st LegB = None then
          if st_eof st LegB then Some (tm_stream_close st)
          else if TM_IO_HIGH_WATER + 65536 < length (st_preq st) + length data
            then Some (tm_stream_close st)
          else
            let st = st\<lparr>st_preq_cap := next_cap 16384 (st_preq_cap st)
                                        (length (st_preq st) + length data),
                         st_preq := st_preq st @ data\<rparr>
            in Some (if TM_IO_HIGH_WATER \<le> length (st_preq st)
                     then set_io LegA (tm_io_pause_read (st_io st LegA))
                            (st\<lparr>st_paused := (st_paused st)(LegA := True)\<rparr>)
                     else st)
        else relay_forward LegA data st)"

definition relay_b_read :: "bytes \<Rightarrow> tm_stream \<Rightarrow> tm_stream option" where
  "relay_b_read data st =
     (if st_closing st then Some st
      else
        let st = st\<lparr>st_bytes := (st_bytes st)(LegB := st_bytes st LegB + of_nat (length data))\<rparr> in
        if st_io st LegA = None then Some (tm_stream_close st)
        else relay_forward LegB data st)"

definition tm_stream_ingest :: "bytes \<Rightarrow> tm_stream \<Rightarrow> tm_stream option" where
  "tm_stream_ingest data st =
     (if st_closing st \<or> data = [] then Some st else relay_b_read data st)"

definition tm_stream_ingest_a :: "bytes \<Rightarrow> tm_stream \<Rightarrow> tm_stream option" where
  "tm_stream_ingest_a data st =
     (if st_closing st \<or> data = [] then Some st else relay_a_read data st)"

definition stream_bind_timer_cb :: "tm_stream \<Rightarrow> tm_stream" where
  "stream_bind_timer_cb st = (if st_bound st then st else tm_stream_close st)"

text \<open>
  \<open>tm_stream_relay_start\<close>. \<open>uv\<close> are the answers libuv will give the raw consumer leg, if one is
  created.
\<close>

definition tm_stream_relay_start :: "bool list \<Rightarrow> tm_stream \<Rightarrow> tm_stream option" where
  "tm_stream_relay_start uv st =
     (if st_bound st then Some st
      else
        let st = st\<lparr>st_bound := True, st_bind_timer := False\<rparr>;
            st = (if st_io st LegA = None
                  then set_io LegA (tm_io_start (Some (IoTcp (tm_io_tcp_new True True uv)))) st
                  else st);
            st = set_io LegB (tm_io_start (st_io st LegB)) st;
            moved = (if st_preq st \<noteq> []
                     then flush_pend (up3 LegB (UpError TM_ERR_IO)) LegB
                            (set_pend LegB (st_preq st) (st_preq_cap st)
                               (st\<lparr>st_preq := [], st_preq_cap := 0\<rparr>))
                     else Some st)
        in case moved of
             None \<Rightarrow> None
           | Some st \<Rightarrow>
               Some (if st_pend st LegB \<noteq> []
                     then set_io LegA (tm_io_pause_read (st_io st LegA))
                            (st\<lparr>st_paused := (st_paused st)(LegA := True)\<rparr>)
                     else if st_paused st LegA
                     then set_io LegA (tm_io_resume_read (st_io st LegA))
                            (st\<lparr>st_paused := (st_paused st)(LegA := False)\<rparr>)
                     else st))"

definition tm_stream_relay_attach_agent :: "bool list \<Rightarrow> tm_io \<Rightarrow> tm_stream \<Rightarrow> tm_stream option" where
  "tm_stream_relay_attach_agent uv io st =
     (if st_closing st \<or> st_bound st then Some st
      else tm_stream_relay_start uv
             (set_io LegB (tm_io_set_cbs (Some io) True True)
                (st\<lparr>st_sock := (st_sock st)(LegB := True)\<rparr>)))"

text \<open>
  A completed write on leg \<open>l\<close>: \<open>tcp_write_done\<close> or \<open>on_write_done\<close> with the owner's callbacks. Both
  go on after the callback; if the callback closed the stream, the leg has been freed and they read
  freed memory. A TLS stream that failed is not freed by closing it, so its code only ends.
\<close>

definition relay_write_done :: "leg \<Rightarrow> uv_status \<Rightarrow> tm_stream \<Rightarrow> tm_stream option" where
  "relay_write_done l status st =
     (case st_io st l of
        None \<Rightarrow> Some st
      | Some (IoTcp t) \<Rightarrow>
          (case tcp_write_done t status of
             None \<Rightarrow> Some st
           | Some (t1, ups, cont) \<Rightarrow>
               (case run_ups (up3 l) ups (set_io l (Some (IoTcp t1)) st) of
                  None \<Rightarrow> None
                | Some st \<Rightarrow>
                    if \<not> cont then Some st
                    else (case st_io st l of
                        Some (IoTcp t2) \<Rightarrow>
                          (case tcp_write_done_tail t2 of (t3, ups3) \<Rightarrow>
                             (case run_ups (up3 l) ups3 (set_io l (Some (IoTcp t3)) st) of
                                None \<Rightarrow> None
                              | Some st \<Rightarrow>
                                  if tc_wreq_pending t3 \<or> up_error ups3 then Some st
                                  else (case st_io st l of
                                      Some (IoTcp t4) \<Rightarrow> Some (set_io l (Some (IoTcp (tcp_pump_tail t4))) st)
                                    | _ \<Rightarrow> None)))
                      | _ \<Rightarrow> None)))
      | Some (IoSsl t) \<Rightarrow>
          (case on_write_done (is_ssl t) status of
             None \<Rightarrow> Some st
           | Some (s1, ups, cont) \<Rightarrow>
               (case ssl_ups t (s1, ups) of (t1, ups1) \<Rightarrow>
                 (case run_ups (up3 l) ups1 (set_io l (Some (IoSsl t1)) st) of
                    None \<Rightarrow> None
                  | Some st \<Rightarrow>
                      if \<not> cont then Some st
                      else (case st_io st l of
                          Some (IoSsl t2) \<Rightarrow>
                            (case ssl_ups t2 (on_write_done_tail (is_ssl t2)) of (t3, ups3) \<Rightarrow>
                               run_ups (up3 l) ups3 (set_io l (Some (IoSsl t3)) st))
                        | _ \<Rightarrow> if up_error ups1 then Some st else None)))))"

section \<open>Callbacks inside a flush\<close>

lemma other_other [simp]: "other (other l) = l"
  by (cases l) simp_all

lemma other_neq [simp]: "other l \<noteq> l" "l \<noteq> other l"
  by (cases l; simp)+

lemma maybe_close_pend: "st_pend st l \<noteq> [] \<Longrightarrow> stream_maybe_close st = st"
  by (cases l) (auto simp: stream_maybe_close_def)

text \<open>A low-water callback made from inside \<open>flush_pend\<close> has no effect.\<close>

lemma relay_low_nested:
  assumes "st_flushing st l" "st_pend st l \<noteq> []"
  shows "relay_low_body up l st = Some st"
  using assms by (simp add: relay_low_body_def flush_pend_def maybe_close_pend)

section \<open>The depth of callbacks\<close>

lemma relay_error_lonely:
  "st_io st (other l) = None \<Longrightarrow> relay_error_body up l st = relay_error_body up' l st"
  by (simp add: relay_error_body_def relay_ended_def)

lemma flush_pend_err_cong:
  assumes "\<And>st'. (\<And>k. k \<noteq> l \<Longrightarrow> st_io st' k = st_io st k) \<Longrightarrow> st_closing st' = st_closing st \<Longrightarrow> err st' = err' st'"
  shows "flush_pend err l st = flush_pend err' l st"
  using assms by (auto simp: flush_pend_def split: option.split flush_result.split)

text \<open>The legs make at most one callback per call.\<close>

lemma finish_close_one: "length (snd (finish_close s)) \<le> 1"
  by (simp add: finish_close_def Let_def)

lemma pump_write_loop_one: "length (snd (pump_write_loop s)) \<le> 1"
proof (induction s rule: pump_write_loop.induct)
  case (1 s)
  then show ?case
    using finish_close_one
    by (subst pump_write_loop.simps)
      (auto simp: Let_def simp del: One_nat_def split: prod.split bio_ans.split sw_ans.split bool.split)
qed

lemma pump_write_one: "length (snd (pump_write s)) \<le> 1"
  using pump_write_loop_one by (simp add: pump_write_def)

lemma tls_try_shutdown_one: "length (snd (tls_try_shutdown s)) \<le> 1"
proof (induction s rule: tls_try_shutdown.induct)
  case (1 s)
  then show ?case
    using finish_close_one pump_write_one
    by (subst tls_try_shutdown.simps)
      (auto simp: ssl_shutdown_finish_def simp del: One_nat_def split: prod.split sw_ans.split)
qed

lemma shutdown_one: "tm_io_shutdown_send io = (io', ups) \<Longrightarrow> ups = [] \<or> (\<exists>u. ups = [u])"
proof -
  have "length (snd (ssl_shutdown_send t)) \<le> 1" for t
  proof -
    have "length (snd (tm_ssl_stream_shutdown_send (is_ssl t))) \<le> 1"
      using tls_try_shutdown_one by (simp add: tm_ssl_stream_shutdown_send_def)
    then show ?thesis
      by (auto simp: ssl_shutdown_send_def ssl_ups_def split: prod.split
          intro: order_trans [OF length_filter_le])
  qed
  then have "length (snd (tm_io_shutdown_send io)) \<le> 1"
    by (auto simp: tm_io_shutdown_send_def io_shutdown_send_def split: option.split tm_io.split prod.split
        dest: sym) (metis snd_conv One_nat_def)
  then show "tm_io_shutdown_send io = (io', ups) \<Longrightarrow> ?thesis"
    by (cases ups; cases "tl ups") auto
qed

lemma maybe_close_fields [simp]:
  "st_pend (stream_maybe_close st) = st_pend st" "st_fin (stream_maybe_close st) = st_fin st"
  "st_eof (stream_maybe_close st) = st_eof st" "st_preq (stream_maybe_close st) = st_preq st"
  "st_flushing (stream_maybe_close st) = st_flushing st"
  by (simp_all add: stream_maybe_close_def tm_stream_close_def)

lemma maybe_close_io: "stream_maybe_close st = st \<or> st_io (stream_maybe_close st) = (\<lambda>_. None)"
  by (simp add: stream_maybe_close_def tm_stream_close_def)

lemma maybe_close_io_None: "st_io st l = None \<Longrightarrow> st_io (stream_maybe_close st) l = None"
  using maybe_close_io [of st] by auto

lemma relay_error_lonely_eq:
  "st_io st (other l) = None \<Longrightarrow> relay_error_body up l st =
     Some (if st_closing st then st
           else stream_maybe_close (set_io l None (st\<lparr>st_eof := (st_eof st)(l := True)\<rparr>)))"
  by (simp add: relay_error_body_def relay_ended_def)

lemma relay_low_ended:
  assumes "st_io st (other l) = None" "st_pend st l = []" "st_fin st (other l)"
  shows "relay_low_body up l st = Some (if st_closing st then st else stream_maybe_close st)"
  using assms by (simp add: relay_low_body_def flush_pend_def leg_resume_def)

lemma relay_low_after_fin:
  assumes "st_pend st l = []" "st_fin st (other l)"
  shows "relay_low_body up l st = relay_low_body up' l st"
  using assms by (simp add: relay_low_body_def flush_pend_def)

lemma leg_shutdown_cong:
  assumes "\<And>u st'. st_pend st' = st_pend st \<Longrightarrow> st_fin st' = st_fin st \<Longrightarrow>
      (\<And>k. k \<noteq> l \<Longrightarrow> st_io st' k = st_io st k) \<Longrightarrow> up l u st' = up' l u st'"
  shows "leg_shutdown up l st = leg_shutdown up' l st"
proof -
  obtain io ups where s: "tm_io_shutdown_send (st_io st l) = (io, ups)"
    by (cases "tm_io_shutdown_send (st_io st l)")
  from shutdown_one [OF s] show ?thesis
    using assms [of "set_io l io st"] by (auto simp: leg_shutdown_def s split: option.split)
qed

lemma flush_pend_other_io:
  assumes "flush_pend err l st = Some st'" "k \<noteq> l" "st_io st k = None"
    and "\<And>s s'. err s = Some s' \<Longrightarrow> st_io s k = None \<Longrightarrow> st_io s' k = None"
  shows "st_io st' k = None"
  using assms by (auto simp: flush_pend_def split: if_splits option.splits flush_result.splits)

lemma relay_up_error_depth: "relay_up (Suc (Suc n)) l (UpError e) st = relay_up (Suc (Suc m)) l (UpError e) st"
proof -
  have ended: "relay_ended (relay_up (Suc n)) l s = relay_ended (relay_up (Suc m)) l s"
    if none: "st_io s l = None" for s n m
  proof -
    let ?f = "\<lambda>n. flush_pend (relay_up (Suc n) (other l) (UpError TM_ERR_IO)) (other l) s"
    have flush: "?f n = ?f m"
      using none by (intro flush_pend_err_cong) (simp add: relay_error_lonely_eq)
    have sh: "leg_shutdown (relay_up (Suc n)) (other l) (s1\<lparr>st_fin := (st_fin s1)(l := True)\<rparr>) =
        leg_shutdown (relay_up (Suc m)) (other l) (s1\<lparr>st_fin := (st_fin s1)(l := True)\<rparr>)"
      if f: "?f m = Some s1" and p: "st_pend s1 (other l) = []" for s1
    proof (rule leg_shutdown_cong)
      fix u and st' :: tm_stream
      assume "st_pend st' = st_pend (s1\<lparr>st_fin := (st_fin s1)(l := True)\<rparr>)"
        "st_fin st' = st_fin (s1\<lparr>st_fin := (st_fin s1)(l := True)\<rparr>)"
        "\<And>k. k \<noteq> other l \<Longrightarrow> st_io st' k = st_io (s1\<lparr>st_fin := (st_fin s1)(l := True)\<rparr>) k"
      moreover have "st_io s1 l = None"
        by (rule flush_pend_other_io [OF f _ none])
          (auto simp: relay_error_lonely_eq maybe_close_io_None split: if_splits)
      ultimately have "st_io st' l = None" "st_pend st' (other l) = []" "st_fin st' l"
        using p by auto
      then show "relay_up (Suc n) (other l) u st' = relay_up (Suc m) (other l) u st'"
        by (cases u) (simp_all add: relay_low_ended relay_error_lonely_eq)
    qed
    show ?thesis
    proof (cases "?f m")
      case None
      then show ?thesis unfolding relay_ended_def Let_def flush by simp
    next
      case (Some s1)
      then show ?thesis
        unfolding relay_ended_def Let_def flush
        by (cases "st_pend s1 (other l) = []") (simp_all add: sh del: relay_up.simps)
    qed
  qed
  show ?thesis
    using ended [of "set_io l None (st\<lparr>st_eof := (st_eof st)(l := True)\<rparr>)" n m]
    by (simp add: relay_error_body_def)
qed


section \<open>Cases of the handlers\<close>

lemma relay_ended_cases:
  assumes "relay_ended up l st = Some st'"
  obtains (gone) "st_io st (other l) = None" "st' = stream_maybe_close st"
  | (queued) s1 where "st_io st (other l) \<noteq> None"
      "flush_pend (up (other l) (UpError TM_ERR_IO)) (other l) st = Some s1"
      "st_pend s1 (other l) \<noteq> []" "st' = stream_maybe_close s1"
  | (passed) s1 s2 where "st_io st (other l) \<noteq> None"
      "flush_pend (up (other l) (UpError TM_ERR_IO)) (other l) st = Some s1"
      "st_pend s1 (other l) = []"
      "leg_shutdown up (other l) (s1\<lparr>st_fin := (st_fin s1)(l := True)\<rparr>) = Some s2"
      "st' = stream_maybe_close s2"
proof (cases "st_io st (other l)")
  case None
  then show thesis using assms gone by (simp add: relay_ended_def)
next
  case (Some io)
  then obtain s1 where f: "flush_pend (up (other l) (UpError TM_ERR_IO)) (other l) st = Some s1"
    using assms by (auto simp: relay_ended_def Let_def split: option.splits)
  show thesis
  proof (cases "st_pend s1 (other l) = []")
    case True
    then show thesis using assms Some f passed by (auto simp: relay_ended_def Let_def)
  next
    case False
    then show thesis using assms Some f queued by (simp add: relay_ended_def Let_def)
  qed
qed

lemma relay_low_cases:
  assumes "relay_low_body up l st = Some st'"
  obtains (closing) "st_closing st" "st' = st"
  | (gone) "\<not> st_closing st" "st_io st l = None" "st' = stream_maybe_close st"
  | (queued) s1 where "\<not> st_closing st" "st_io st l \<noteq> None"
      "flush_pend (up l (UpError TM_ERR_IO)) l st = Some s1"
      "st_pend s1 l \<noteq> []" "st' = stream_maybe_close s1"
  | (fin) s1 s2 where "\<not> st_closing st" "st_io st l \<noteq> None"
      "flush_pend (up l (UpError TM_ERR_IO)) l st = Some s1"
      "st_pend s1 l = []" "st_eof s1 (other l)" "\<not> st_fin s1 (other l)"
      "leg_shutdown up l (s1\<lparr>st_fin := (st_fin s1)(other l := True)\<rparr>) = Some s2"
      "st' = stream_maybe_close (leg_resume (other l) s2)"
  | (drained) s1 where "\<not> st_closing st" "st_io st l \<noteq> None"
      "flush_pend (up l (UpError TM_ERR_IO)) l st = Some s1"
      "st_pend s1 l = []" "st' = stream_maybe_close (leg_resume (other l) s1)"
proof (cases "st_closing st \<or> st_io st l = None")
  case True
  show thesis
  proof (cases "st_closing st")
    case c: True
    then have "st' = st" using assms by (simp add: relay_low_body_def)
    with c show thesis by (rule closing)
  next
    case c: False
    then have "st' = stream_maybe_close st" using assms True by (simp add: relay_low_body_def)
    with c True show thesis using gone by blast
  qed
next
  case False
  then obtain io where open_leg: "\<not> st_closing st" "st_io st l = Some io" by auto
  then obtain s1 where f: "flush_pend (up l (UpError TM_ERR_IO)) l st = Some s1"
    using assms by (auto simp: relay_low_body_def split: option.splits)
  have some: "st_io st l \<noteq> None" using open_leg by simp
  show thesis
  proof (cases "st_pend s1 l = []")
    case no: False
    then have "st' = stream_maybe_close s1" using assms open_leg f by (simp add: relay_low_body_def)
    with open_leg(1) some f no show thesis by (rule queued)
  next
    case True
    show thesis
    proof (cases "st_eof s1 (other l) \<and> \<not> st_fin s1 (other l)")
      case e: True
      then obtain s2 where "leg_shutdown up l (s1\<lparr>st_fin := (st_fin s1)(other l := True)\<rparr>) = Some s2"
          "st' = stream_maybe_close (leg_resume (other l) s2)"
        using assms open_leg f True by (auto simp: relay_low_body_def split: option.splits)
      with open_leg(1) some f True e show thesis using fin by blast
    next
      case e: False
      then have "st' = stream_maybe_close (leg_resume (other l) s1)"
        using assms open_leg f True by (auto simp: relay_low_body_def split: if_splits)
      with open_leg(1) some f True show thesis by (rule drained)
    qed
  qed
qed

end
