(* ===== verification/Frame.thy ===== *)
theory Frame
  imports Wire
begin

text \<open>
  \<open>common/src/frame.c\<close>: control frames, the streaming frame reader and the datagram envelope.
  A heap buffer with its length is a byte list; the reader keeps its allocated capacity as well.
  \<open>NULL\<close> results are \<open>None\<close>. The two calls a client makes are \<open>feed r data\<close> with the received
  chunk and \<open>feed r []\<close> for the C call \<open>tm_frame_reader_feed(r, NULL, 0, &err)\<close>.
\<close>

section \<open>Frames\<close>

definition TM_FRAME_HDR_LEN :: nat where "TM_FRAME_HDR_LEN = 10"

record tm_frame =
  f_version :: u8
  f_type :: u8
  f_stream_id :: u32
  f_payload_len :: u32
  f_payload :: bytes

definition tm_frame_make :: "u8 \<Rightarrow> u32 \<Rightarrow> bytes \<Rightarrow> u32 \<Rightarrow> tm_frame option" where
  "tm_frame_make type stream_id payload payload_len =
     (if TM_MAX_FRAME_PAYLOAD < unat payload_len then None
      else Some \<lparr>f_version = TM_PROTO_VERSION, f_type = type, f_stream_id = stream_id,
                 f_payload_len = payload_len, f_payload = take (unat payload_len) payload\<rparr>)"

definition tm_frame_encode :: "tm_frame \<Rightarrow> bytes option" where
  "tm_frame_encode f =
     (if TM_MAX_FRAME_PAYLOAD < unat (f_payload_len f) then None
      else Some ([TM_PROTO_VERSION, f_type f] @ wr_u32 (f_payload_len f) @
                 wr_u32 (f_stream_id f) @ take (unat (f_payload_len f)) (f_payload f)))"

section \<open>The streaming reader\<close>

record tm_frame_reader =
  fr_buf :: bytes
  fr_cap :: nat

definition tm_frame_reader_new :: tm_frame_reader where
  "tm_frame_reader_new = \<lparr>fr_buf = [], fr_cap = 0\<rparr>"

definition tm_frame_reader_buffered :: "tm_frame_reader option \<Rightarrow> nat" where
  "tm_frame_reader_buffered r = (case r of Some r \<Rightarrow> length (fr_buf r) | None \<Rightarrow> 0)"

definition tm_frame_reader_drain :: "tm_frame_reader \<Rightarrow> bytes \<times> tm_frame_reader" where
  "tm_frame_reader_drain r = (fr_buf r, r\<lparr>fr_buf := []\<rparr>)"

datatype feed_result = FeedError | FeedMore | FeedFrame tm_frame

definition reader_append :: "tm_frame_reader \<Rightarrow> bytes \<Rightarrow> tm_frame_reader" where
  "reader_append r data =
     (if data = [] then r
      else r\<lparr>fr_cap := next_cap 1024 (fr_cap r) (length (fr_buf r) + length data),
             fr_buf := fr_buf r @ data\<rparr>)"

definition reader_take :: "tm_frame_reader \<Rightarrow> feed_result \<times> tm_frame_reader" where
  "reader_take r =
     (let buf = fr_buf r in
      if length buf < TM_FRAME_HDR_LEN then (FeedMore, r)
      else if buf ! 0 \<noteq> TM_PROTO_VERSION then (FeedError, r)
      else let pay_len = rd_u32 (drop 2 buf) in
        if TM_MAX_FRAME_PAYLOAD < unat pay_len then (FeedError, r)
        else let frame_len = TM_FRAME_HDR_LEN + unat pay_len in
          if length buf < frame_len then (FeedMore, r)
          else case tm_frame_make (buf ! 1) (rd_u32 (drop 6 buf))
                      (drop TM_FRAME_HDR_LEN buf) pay_len of
                 None \<Rightarrow> (FeedMore, r\<lparr>fr_buf := drop frame_len buf\<rparr>)
               | Some f \<Rightarrow> (FeedFrame f, r\<lparr>fr_buf := drop frame_len buf\<rparr>))"

definition tm_frame_reader_feed ::
    "tm_frame_reader \<Rightarrow> bytes \<Rightarrow> feed_result \<times> tm_frame_reader" where
  "tm_frame_reader_feed r data =
     (let len = length data; rlen = length (fr_buf r) in
      if len \<noteq> 0 \<and> (SIZE_MAX - rlen < len \<or>
                     TM_MAX_FRAME_PAYLOAD + TM_FRAME_HDR_LEN < rlen + len)
      then (FeedError, r)
      else reader_take (reader_append r data))"

section \<open>Datagram envelopes\<close>

definition tm_env_encode :: "u64 \<Rightarrow> u8 \<Rightarrow> bytes \<Rightarrow> bytes" where
  "tm_env_encode flow_id flags payload =
     wr_u16 11 @ wr_u64 flow_id @ [flags] @ payload"

definition tm_env_decode :: "bytes \<Rightarrow> (u64 \<times> u8 \<times> bytes) option" where
  "tm_env_decode buf =
     (if length buf < 11 then None
      else if rd_u16 buf \<noteq> 11 then None
      else if (buf ! 10) AND NOT TM_ENV_FLAG_ALL \<noteq> 0 then None
      else Some (rd_u64 (drop 2 buf), buf ! 10, drop 11 buf))"

section \<open>The frame reader: invariant and bounds\<close>

definition frame_limit :: nat where
  "frame_limit = TM_MAX_FRAME_PAYLOAD + TM_FRAME_HDR_LEN"

lemmas frame_consts = TM_MAX_FRAME_PAYLOAD_def TM_FRAME_HDR_LEN_def frame_limit_def

definition reader_inv :: "tm_frame_reader \<Rightarrow> bool" where
  "reader_inv r \<longleftrightarrow>
     length (fr_buf r) \<le> fr_cap r \<and> length (fr_buf r) \<le> frame_limit \<and> fr_cap r \<le> 2 * frame_limit"

lemma reader_inv_new: "reader_inv tm_frame_reader_new"
  by (simp add: reader_inv_def tm_frame_reader_new_def)

lemma reader_inv_append:
  assumes "reader_inv r" "length (fr_buf r) + length data \<le> frame_limit"
  shows "reader_inv (reader_append r data)"
proof -
  let ?n = "length (fr_buf r) + length data"
  have "?n \<le> next_cap 1024 (fr_cap r) ?n" by (rule next_cap_ge) simp
  moreover have "next_cap 1024 (fr_cap r) ?n \<le> 2 * frame_limit"
    using next_cap_upper [of 1024 "fr_cap r" ?n] assms
    by (auto simp: reader_inv_def frame_consts)
  ultimately show ?thesis
    using assms by (auto simp: reader_append_def reader_inv_def)
qed

lemma reader_take_inv: "reader_inv r \<Longrightarrow> reader_inv (snd (reader_take r))"
  by (auto simp: reader_take_def reader_inv_def Let_def split: option.splits)

lemma reader_take_shrinks:
  "reader_take r = (FeedFrame f, r') \<Longrightarrow>
     length (fr_buf r') + TM_FRAME_HDR_LEN + unat (f_payload_len f) = length (fr_buf r)"
  by (auto simp: reader_take_def Let_def tm_frame_make_def split: if_splits)

text \<open>
  Whatever chunk the network delivers, the frame reader's buffer never exceeds one
  maximum frame (256 KiB of payload and the 10-byte header), stays within its allocation, and the
  allocation stays below twice that: the client-controlled length field cannot make it grow.
\<close>
lemma reader_memory_bounded:
  assumes "reader_inv r"
  shows "reader_inv (snd (tm_frame_reader_feed r data))"
proof (cases "data \<noteq> [] \<and> (SIZE_MAX - length (fr_buf r) < length data \<or>
    TM_MAX_FRAME_PAYLOAD + TM_FRAME_HDR_LEN < length (fr_buf r) + length data)")
  case True
  then show ?thesis using assms by (simp add: tm_frame_reader_feed_def Let_def)
next
  case False
  then have "length (fr_buf r) + length data \<le> frame_limit"
    using assms by (auto simp: frame_limit_def reader_inv_def)
  with assms have "reader_inv (reader_append r data)" by (rule reader_inv_append)
  with False show ?thesis
    by (auto simp: tm_frame_reader_feed_def Let_def intro: reader_take_inv)
qed

section \<open>Frames: round trip\<close>

definition frame_ok :: "tm_frame \<Rightarrow> bool" where
  "frame_ok f \<longleftrightarrow> f_version f = TM_PROTO_VERSION \<and> length (f_payload f) = unat (f_payload_len f) \<and>
     unat (f_payload_len f) \<le> TM_MAX_FRAME_PAYLOAD"

definition frame_bytes :: "tm_frame \<Rightarrow> bytes" where
  "frame_bytes f = the (tm_frame_encode f)"

lemma tm_frame_make_ok:
  "unat n \<le> length p \<Longrightarrow> tm_frame_make ty sid p n = Some f \<Longrightarrow> frame_ok f"
  by (auto simp: tm_frame_make_def frame_ok_def split: if_splits)

lemma frame_bytes_eq:
  "frame_ok f \<Longrightarrow> tm_frame_encode f = Some (frame_bytes f) \<and>
     frame_bytes f = TM_PROTO_VERSION # f_type f # wr_u32 (f_payload_len f) @
                     wr_u32 (f_stream_id f) @ f_payload f"
  by (simp add: frame_ok_def tm_frame_encode_def frame_bytes_def)

lemma length_frame_bytes:
  "frame_ok f \<Longrightarrow> length (frame_bytes f) = TM_FRAME_HDR_LEN + unat (f_payload_len f)"
  by (simp add: frame_bytes_eq TM_FRAME_HDR_LEN_def frame_ok_def)

lemma reader_take_frame:
  assumes ok: "frame_ok f" and buf: "fr_buf r = frame_bytes f @ rest"
  shows "reader_take r = (FeedFrame f, r\<lparr>fr_buf := rest\<rparr>)"
proof -
  let ?n = "f_payload_len f"
  define B where "B = frame_bytes f @ rest"
  have hdr: "B = TM_PROTO_VERSION # f_type f # wr_u32 ?n @ wr_u32 (f_stream_id f) @ f_payload f @ rest"
    using frame_bytes_eq [OF ok] by (simp add: B_def)
  have fields: "B ! 0 = TM_PROTO_VERSION" "B ! Suc 0 = f_type f" "rd_u32 (drop 2 B) = ?n"
      "rd_u32 (drop 6 B) = f_stream_id f" "drop TM_FRAME_HDR_LEN B = f_payload f @ rest"
    by (simp_all add: hdr TM_FRAME_HDR_LEN_def)
  have len: "length B = TM_FRAME_HDR_LEN + unat ?n + length rest"
    and all: "drop (TM_FRAME_HDR_LEN + unat ?n) B = rest"
    using length_frame_bytes [OF ok] by (simp_all add: B_def)
  have mk: "tm_frame_make (f_type f) (f_stream_id f) (f_payload f @ rest) ?n = Some f"
    using ok by (simp add: tm_frame_make_def frame_ok_def)
  have "fr_buf r = B" using buf by (simp add: B_def)
  with ok show ?thesis
    by (simp add: reader_take_def fields len all mk frame_ok_def Let_def)
qed

text \<open>
  The client loop of every connection handler: handle the frame, then ask for the next one until
  none is complete. \<open>reader_loop\<close> collects the frames; the flag tells whether the loop ended in a
  protocol error.
\<close>

function reader_loop :: "tm_frame_reader \<Rightarrow> tm_frame list \<times> bool \<times> tm_frame_reader" where
  "reader_loop r =
     (case reader_take r of
        (FeedFrame f, r') \<Rightarrow> (case reader_loop r' of (fs, e, r'') \<Rightarrow> (f # fs, e, r''))
      | (FeedMore, r') \<Rightarrow> ([], False, r')
      | (FeedError, r') \<Rightarrow> ([], True, r'))"
  by pat_completeness auto
termination
  by (relation "measure (\<lambda>r. length (fr_buf r))")
    (auto dest!: sym [of _ "reader_take _"] reader_take_shrinks simp: TM_FRAME_HDR_LEN_def)

declare reader_loop.simps [simp del]

definition reader_run_chunk ::
    "tm_frame_reader \<Rightarrow> bytes \<Rightarrow> tm_frame list \<times> bool \<times> tm_frame_reader" where
  "reader_run_chunk r data =
     (case tm_frame_reader_feed r data of
        (FeedFrame f, r') \<Rightarrow> (case reader_loop r' of (fs, e, r'') \<Rightarrow> (f # fs, e, r''))
      | (FeedMore, r') \<Rightarrow> ([], False, r')
      | (FeedError, r') \<Rightarrow> ([], True, r'))"

fun reader_run :: "tm_frame_reader \<Rightarrow> bytes list \<Rightarrow> tm_frame list \<times> bool \<times> tm_frame_reader" where
  "reader_run r [] = ([], False, r)"
| "reader_run r (c # cs) =
     (case reader_run_chunk r c of
        (fs, True, r') \<Rightarrow> (fs, True, r')
      | (fs, False, r') \<Rightarrow> (case reader_run r' cs of (gs, e, r'') \<Rightarrow> (fs @ gs, e, r'')))"

section \<open>The reader as a parser of the byte stream\<close>

text \<open>
  What the reader promises, without its buffer: \<open>parse_frames\<close> splits a byte string into the
  complete frames at its front, whether it stops at a violation, and the bytes left over.
\<close>

function parse_frames :: "bytes \<Rightarrow> tm_frame list \<times> bool \<times> bytes" where
  "parse_frames b =
     (case reader_take \<lparr>fr_buf = b, fr_cap = 0\<rparr> of
        (FeedFrame f, r') \<Rightarrow> (case parse_frames (fr_buf r') of (fs, e, rest) \<Rightarrow> (f # fs, e, rest))
      | (FeedMore, r') \<Rightarrow> ([], False, b)
      | (FeedError, r') \<Rightarrow> ([], True, b))"
  by pat_completeness auto
termination
  by (relation "measure length")
    (auto dest!: sym [of _ "reader_take _"] reader_take_shrinks simp: TM_FRAME_HDR_LEN_def)

declare parse_frames.simps [simp del]

lemma reader_take_cap:
  "reader_take (r\<lparr>fr_cap := k\<rparr>) = (case reader_take r of (x, r') \<Rightarrow> (x, r'\<lparr>fr_cap := k\<rparr>))"
  by (auto simp: reader_take_def Let_def split: option.splits)

lemma reader_take_result:
  "reader_take r = (x, r') \<Longrightarrow> r' = r\<lparr>fr_buf := fr_buf r'\<rparr> \<and> (x = FeedError \<or> x = FeedMore \<longrightarrow> r' = r)"
  by (auto simp: reader_take_def Let_def tm_frame_make_def split: if_splits)

lemma reader_take_any_cap:
  "reader_take r = (x, r') \<Longrightarrow>
     reader_take \<lparr>fr_buf = fr_buf r, fr_cap = k\<rparr> = (x, \<lparr>fr_buf = fr_buf r', fr_cap = k\<rparr>)"
  using reader_take_cap [where r = r and k = k] reader_take_result [of r x r'] by (cases r; cases r') simp

lemma reader_loop_refines:
  "reader_loop r = (case parse_frames (fr_buf r) of (fs, e, rest) \<Rightarrow> (fs, e, r\<lparr>fr_buf := rest\<rparr>))"
proof (induction r rule: reader_loop.induct)
  case (1 r)
  obtain x r' where t: "reader_take r = (x, r')" by (cases "reader_take r")
  note t0 = reader_take_any_cap [OF t, of 0] and res = reader_take_result [OF t]
  show ?case
  proof (cases x)
    case (FeedFrame f)
    have "reader_loop r' = (case parse_frames (fr_buf r') of (fs, e, rest) \<Rightarrow> (fs, e, r'\<lparr>fr_buf := rest\<rparr>))"
      using "1.IH" [OF t [symmetric] FeedFrame] by simp
    moreover have "\<And>b. r'\<lparr>fr_buf := b\<rparr> = r\<lparr>fr_buf := b\<rparr>"
      using res by (cases r; cases r') simp
    ultimately show ?thesis
      by (simp add: reader_loop.simps [of r] parse_frames.simps [of "fr_buf r"] t t0 FeedFrame
          split: prod.splits)
  qed (use res in \<open>simp_all add: reader_loop.simps [of r] parse_frames.simps [of "fr_buf r"] t t0\<close>)
qed

lemma reader_run_chunk_refines:
  assumes "length (fr_buf r) + length data \<le> frame_limit"
  shows "\<exists>k. reader_run_chunk r data =
    (case parse_frames (fr_buf r @ data) of (fs, e, rest) \<Rightarrow> (fs, e, \<lparr>fr_buf = rest, fr_cap = k\<rparr>))"
proof -
  define r1 where "r1 = reader_append r data"
  have buf: "fr_buf r1 = fr_buf r @ data" by (simp add: r1_def reader_append_def)
  have "\<not> (data \<noteq> [] \<and> (SIZE_MAX - length (fr_buf r) < length data \<or>
      TM_MAX_FRAME_PAYLOAD + TM_FRAME_HDR_LEN < length (fr_buf r) + length data))"
    using assms by (auto simp: frame_consts)
  then have "reader_run_chunk r data = reader_loop r1"
    by (auto simp: reader_run_chunk_def tm_frame_reader_feed_def Let_def r1_def
        reader_loop.simps [of "reader_append r data"])
  then show ?thesis
    by (cases r1) (simp add: reader_loop_refines buf [symmetric] split: prod.splits)
qed

lemma parse_frames_Cons:
  "frame_ok f \<Longrightarrow> parse_frames (frame_bytes f @ b) =
     (case parse_frames b of (fs, e, rest) \<Rightarrow> (f # fs, e, rest))"
  by (subst parse_frames.simps) (simp add: reader_take_frame)

lemma parse_frames_partial:
  assumes ok: "frame_ok f" and fb: "frame_bytes f = p @ q" and q: "q \<noteq> []"
  shows "parse_frames p = ([], False, p)"
proof (cases "length p < TM_FRAME_HDR_LEN")
  case True
  then show ?thesis by (subst parse_frames.simps) (simp add: reader_take_def)
next
  case False
  let ?n = "f_payload_len f"
  have l10: "10 \<le> length p" using False by (simp add: TM_FRAME_HDR_LEN_def)
  have p: "p = take (length p) (frame_bytes f)" using fb by simp
  have len: "length p < TM_FRAME_HDR_LEN + unat ?n"
    using q length_frame_bytes [OF ok] fb by (metis append_is_Nil_conv length_append less_add_same_cancel1 length_greater_0_conv)
  have nth: "\<And>i. i < 10 \<Longrightarrow> p ! i = frame_bytes f ! i"
    using l10 fb by (metis nth_append order_less_le_trans)
  have "rd_u32 (drop 2 p) = rd_u32 (drop 2 (frame_bytes f))"
    using l10 length_frame_bytes [OF ok] nth
    by (simp add: rd_u32_def TM_FRAME_HDR_LEN_def)
  also have "\<dots> = ?n" using frame_bytes_eq [OF ok] by simp
  finally have n: "rd_u32 (drop 2 p) = ?n" .
  have v: "p ! 0 = TM_PROTO_VERSION" using nth [of 0] frame_bytes_eq [OF ok] by simp
  have "unat ?n \<le> TM_MAX_FRAME_PAYLOAD" using ok by (simp add: frame_ok_def)
  then show ?thesis
    using False len
    by (subst parse_frames.simps) (simp add: reader_take_def Let_def n v)
qed

lemma parse_frames_Nil [simp]: "parse_frames [] = ([], False, [])"
  by (subst parse_frames.simps) (simp add: reader_take_def TM_FRAME_HDR_LEN_def)

text \<open>A prefix of a well-formed frame stream parses to whole frames and a proper prefix of the next.\<close>

lemma parse_frames_prefix:
  assumes "list_all frame_ok fs" "concat (map frame_bytes fs) = p @ q"
  shows "\<exists>fs1 fs2 rest. fs = fs1 @ fs2 \<and> parse_frames p = (fs1, False, rest) \<and>
    rest @ q = concat (map frame_bytes fs2) \<and>
    (case fs2 of [] \<Rightarrow> rest = [] | f # _ \<Rightarrow> length rest < length (frame_bytes f))"
  using assms
proof (induction fs arbitrary: p)
  case Nil
  then show ?case by auto
next
  case (Cons f fs)
  then have ok: "frame_ok f" by simp
  show ?case
  proof (cases "length p < length (frame_bytes f)")
    case True
    then obtain u where "frame_bytes f = p @ u" "u \<noteq> []"
      using Cons.prems(2) by (auto simp: append_eq_append_conv2)
    then have "parse_frames p = ([], False, p)" using ok by (blast intro: parse_frames_partial)
    then show ?thesis using Cons.prems(2) True
      by (intro exI [of _ "[]"] exI [of _ "f # fs"] exI [of _ p]) simp
  next
    case False
    then obtain u where p: "p = frame_bytes f @ u" and u: "concat (map frame_bytes fs) = u @ q"
      using Cons.prems(2) by (auto simp: append_eq_append_conv2)
    from Cons.IH [OF _ u] Cons.prems(1) obtain fs1 fs2 rest where
      "fs = fs1 @ fs2" "parse_frames u = (fs1, False, rest)" "rest @ q = concat (map frame_bytes fs2)"
      "case fs2 of [] \<Rightarrow> rest = [] | f # _ \<Rightarrow> length rest < length (frame_bytes f)" by auto
    then show ?thesis
      using ok p by (intro exI [of _ "f # fs1"] exI [of _ fs2] exI [of _ rest])
        (simp add: parse_frames_Cons)
  qed
qed

lemma reader_run_delivers:
  assumes ok: "list_all frame_ok fs"
    and small: "\<forall>f \<in> set fs. length (frame_bytes f) + TM_SSL_INBUF_SIZE \<le> Suc frame_limit"
    and chunks: "\<forall>c \<in> set cs. length c \<le> TM_SSL_INBUF_SIZE"
    and stream: "fr_buf r @ concat cs = concat (map frame_bytes fs)"
    and quiet: "parse_frames (fr_buf r) = ([], False, fr_buf r)"
  shows "\<exists>r'. reader_run r cs = (fs, False, r') \<and> fr_buf r' = []"
  using assms
proof (induction cs arbitrary: r fs)
  case Nil
  then obtain fs1 fs2 rest where "fs = fs1 @ fs2" and "parse_frames (fr_buf r) = (fs1, False, rest)"
    and "rest = concat (map frame_bytes fs2)"
    and "case fs2 of [] \<Rightarrow> rest = [] | f # _ \<Rightarrow> length rest < length (frame_bytes f)"
    using parse_frames_prefix [of fs "fr_buf r" "[]"] by auto
  moreover from this(3,4) have "fs2 = []" by (cases fs2) auto
  ultimately show ?case using Nil.prems(5) by simp
next
  case (Cons c cs)
  note ok_fs = Cons.prems(1)
  have quiet: "length (fr_buf r) + length c \<le> frame_limit"
  proof -
    obtain fs1 fs2 rest where "fs = fs1 @ fs2" "parse_frames (fr_buf r) = (fs1, False, rest)"
      and "case fs2 of [] \<Rightarrow> rest = [] | f # _ \<Rightarrow> length rest < length (frame_bytes f)"
      using parse_frames_prefix [of fs "fr_buf r" "concat (c # cs)"] Cons.prems(1,4) by auto
    with Cons.prems(2,3,5) show ?thesis
      by (cases fs2) (auto simp: TM_SSL_INBUF_SIZE_def frame_consts)
  qed
  obtain fs1 fs2 rest where fs: "fs = fs1 @ fs2"
    and parse: "parse_frames (fr_buf r @ c) = (fs1, False, rest)"
    and rest: "rest @ concat cs = concat (map frame_bytes fs2)"
    and short: "case fs2 of [] \<Rightarrow> rest = [] | f # _ \<Rightarrow> length rest < length (frame_bytes f)"
    using parse_frames_prefix [of fs "fr_buf r @ c" "concat cs"] Cons.prems(1,4) by auto
  obtain k where chunk: "reader_run_chunk r c = (fs1, False, \<lparr>fr_buf = rest, fr_cap = k\<rparr>)"
    using reader_run_chunk_refines [OF quiet] parse by auto
  have "parse_frames rest = ([], False, rest)"
  proof (cases fs2)
    case (Cons f fs3)
    with short rest have "length rest < length (frame_bytes f)"
      and "rest @ concat cs = frame_bytes f @ concat (map frame_bytes fs3)" by simp_all
    then have "frame_bytes f = rest @ drop (length rest) (frame_bytes f)"
      by (auto simp: append_eq_append_conv2 dest!: sym [of "rest @ _"])
    moreover have "frame_ok f" using ok_fs fs Cons by simp
    moreover have "drop (length rest) (frame_bytes f) \<noteq> []" using \<open>length rest < _\<close> by simp
    ultimately show ?thesis by (blast intro: parse_frames_partial)
  qed (use short in simp)
  then have "\<exists>r'. reader_run \<lparr>fr_buf = rest, fr_cap = k\<rparr> cs = (fs2, False, r') \<and> fr_buf r' = []"
    using Cons.prems(1-3) rest fs by (intro Cons.IH) auto
  then show ?case using chunk fs by auto
qed


definition demo_ping :: tm_frame where
  "demo_ping = \<lparr>f_version = 1, f_type = 6, f_stream_id = 0, f_payload_len = 0, f_payload = []\<rparr>"


text \<open>
  A frame that declares more than 256 KiB is refused as soon as its 10-byte header is present:
  the reader reports a protocol error whatever follows and keeps the allocation it had.
\<close>
lemma oversized_frame_refused:
  assumes "reader_inv r" "fr_buf r @ data = TM_PROTO_VERSION # ty # wr_u32 n @ rest"
    and "4 \<le> length rest" "TM_MAX_FRAME_PAYLOAD < unat n"
  shows "fst (tm_frame_reader_feed r data) = FeedError \<and>
    fr_buf (snd (tm_frame_reader_feed r data)) \<in> {fr_buf r, fr_buf r @ data}"
proof -
  define B where "B = fr_buf r @ data"
  have B: "B = TM_PROTO_VERSION # ty # wr_u32 n @ rest" using assms(2) by (simp add: B_def)
  have "B ! 0 = TM_PROTO_VERSION" "rd_u32 (drop 2 B) = n" "\<not> length B < TM_FRAME_HDR_LEN"
    using assms(3) by (simp_all add: B TM_FRAME_HDR_LEN_def)
  then have take: "\<And>r. fr_buf r = B \<Longrightarrow> reader_take r = (FeedError, r)"
    using assms(4) by (simp add: reader_take_def Let_def)
  have "reader_take (reader_append r data) = (FeedError, reader_append r data)"
    by (rule take) (simp add: reader_append_def B_def)
  then show ?thesis
    by (auto simp: tm_frame_reader_feed_def Let_def reader_append_def)
qed

section \<open>Envelopes: round trip\<close>

lemma env_decode_encode:
  "flags AND NOT TM_ENV_FLAG_ALL = 0 \<Longrightarrow>
     tm_env_decode (tm_env_encode fid flags payload) = Some (fid, flags, payload)"
proof -
  let ?e = "tm_env_encode fid flags payload"
  have "rd_u16 ?e = 11" "drop 2 ?e = wr_u64 fid @ [flags] @ payload" "?e ! 10 = flags"
      "drop 11 ?e = payload" "11 \<le> length ?e"
    by (simp_all add: tm_env_encode_def nth_append)
  then show "flags AND NOT TM_ENV_FLAG_ALL = 0 \<Longrightarrow> ?thesis"
    by (simp add: tm_env_decode_def)
qed

lemma env_decode_sound:
  assumes "tm_env_decode b = Some (fid, flags, payload)"
  shows "b = tm_env_encode fid flags payload \<and> flags AND NOT TM_ENV_FLAG_ALL = 0"
proof -
  from assms have len: "11 \<le> length b" and hdr: "rd_u16 b = 11"
    and fl: "flags = b ! 10" "flags AND NOT TM_ENV_FLAG_ALL = 0"
    and rest: "fid = rd_u64 (drop 2 b)" "payload = drop 11 b"
    by (auto simp: tm_env_decode_def split: if_splits)
  from len obtain b0 b1 b2 b3 b4 b5 b6 b7 b8 b9 b10 r where
    b: "b = b0 # b1 # b2 # b3 # b4 # b5 # b6 # b7 # b8 # b9 # b10 # r"
    by (auto simp: numeral_eq_Suc Suc_le_length_iff)
  have "wr_u16 11 = [b0, b1]"
    unfolding hdr [symmetric] b by (rule wr_rd_u16)
  moreover have "wr_u64 fid = [b2, b3, b4, b5, b6, b7, b8, b9]"
  proof -
    have hi: "ucast (drop_bit 32 fid) = rd_u32 [b2, b3, b4, b5]"
      and lo: "ucast fid = rd_u32 [b6, b7, b8, b9]"
      unfolding rest(1) b
      by (auto simp: rd_u64_def rd_u32_def bit_simps intro!: bit_word_eqI)
    then show ?thesis
      using wr_rd_u32 [of b2 b3 b4 b5 "[]"] wr_rd_u32 [of b6 b7 b8 b9 "[]"] by (simp add: wr_u64_def)
  qed
  ultimately show ?thesis using fl rest(2) by (simp add: tm_env_encode_def b)
qed


end
