(* ===== verification/RateLimit.thy ===== *)
theory RateLimit
  imports Crypto
begin

text \<open>
  The two rate limiters of the broker: the accept limiter of \<open>broker/src/tcp.c\<close>, a bucket per
  source address, and \<open>rate_check\<close> of \<open>broker/src/udp.c\<close>. Both count events in a window that starts
  with the first event after the last window has lasted a second. What that policy promises is
  proved once, in the locale \<open>fixed_window\<close>, and holds of both.
\<close>

section \<open>Model\<close>

record tm_accept_rate =
  ar_ip :: sockaddr
  ar_win_start :: u64
  ar_count :: int

text \<open>The bucket of an address is the first match; a new one is put in front. \<open>now'\<close> is the clock when it is created.\<close>

fun rate_index :: "sockaddr \<Rightarrow> tm_accept_rate list \<Rightarrow> nat option" where
  "rate_index ip [] = None"
| "rate_index ip (r # rs) =
     (if tm_addr_eq_ip (Some (ar_ip r)) (Some ip) then Some 0 else map_option Suc (rate_index ip rs))"

definition rate_find :: "u64 \<Rightarrow> sockaddr \<Rightarrow> tm_accept_rate list \<Rightarrow> nat \<times> tm_accept_rate list" where
  "rate_find now' ip rs =
     (case rate_index ip rs of
        Some i \<Rightarrow> (i, rs)
      | None \<Rightarrow> (0, \<lparr>ar_ip = ip, ar_win_start = now', ar_count = 0\<rparr> # rs))"

definition rate_cleanup :: "u64 \<Rightarrow> tm_accept_rate list \<Rightarrow> tm_accept_rate list" where
  "rate_cleanup now rs = filter (\<lambda>r. \<not> (60000 < now - ar_win_start r \<and> ar_count r = 0)) rs"

text \<open>\<open>rate_allow\<close> on one bucket, and on the list of buckets.\<close>

definition bucket_step :: "int \<Rightarrow> u64 \<Rightarrow> tm_accept_rate \<Rightarrow> bool \<times> tm_accept_rate" where
  "bucket_step limit now r =
     (let r = (if 1000 \<le> now - ar_win_start r then r\<lparr>ar_win_start := now, ar_count := 0\<rparr> else r) in
      if limit \<le> ar_count r then (False, r) else (True, r\<lparr>ar_count := ar_count r + 1\<rparr>))"

definition rate_allow ::
    "int \<Rightarrow> u64 \<Rightarrow> u64 \<Rightarrow> sockaddr \<Rightarrow> tm_accept_rate list \<Rightarrow> bool \<times> tm_accept_rate list" where
  "rate_allow limit now now' ip rs =
     (case rate_find now' ip rs of (i, rs) \<Rightarrow>
        (case bucket_step limit now (rs ! i) of
           (False, r) \<Rightarrow> (False, rs[i := r])
         | (True, r) \<Rightarrow> (True, rate_cleanup now (rs[i := r]))))"

definition rate_check :: "int \<Rightarrow> u64 \<Rightarrow> int \<times> int \<Rightarrow> bool \<times> int \<times> int" where
  "rate_check limit now w =
     (if limit \<le> 0 then (True, w)
      else
        let (win_start, win_count) =
              (if 1000 \<le> now - word_of_int (fst w) then (sint now, 0) else w)
        in if limit \<le> win_count then (False, win_start, win_count)
           else (True, win_start, win_count + 1))"

section \<open>Fixed windows\<close>

text \<open>The events of a list of times that a limiter lets through.\<close>

fun allowed :: "(u64 \<Rightarrow> 'w \<Rightarrow> bool \<times> 'w) \<Rightarrow> u64 list \<Rightarrow> 'w \<Rightarrow> u64 list" where
  "allowed step [] w = []"
| "allowed step (t # ts) w =
     (case step t w of (ok, w') \<Rightarrow> (if ok then [t] else []) @ allowed step ts w')"

definition within :: "nat \<Rightarrow> u64 \<Rightarrow> bool" where
  "within T t \<longleftrightarrow> T \<le> unat t \<and> unat t < T + 1000"

locale fixed_window =
  fixes start :: "'w \<Rightarrow> u64" and count :: "'w \<Rightarrow> int" and step :: "u64 \<Rightarrow> 'w \<Rightarrow> bool \<times> 'w"
    and limit :: int
  assumes limit_pos: "0 < limit"
    and same: "step now w = (ok, w') \<Longrightarrow> now - start w < 1000 \<Longrightarrow>
      ok = (count w < limit) \<and> start w' = start w \<and> count w' = count w + (if ok then 1 else 0)"
    and fresh: "step now w = (ok, w') \<Longrightarrow> 1000 \<le> now - start w \<Longrightarrow>
      ok \<and> start w' = now \<and> count w' = 1"
begin

text \<open>How many more events can fall into the second from \<open>T\<close>, given the current window.\<close>

definition room :: "nat \<Rightarrow> 'w \<Rightarrow> int" where
  "room T w =
     (let s = unat (start w) in
      if s + 1000 \<le> T then 2 * limit
      else if s < T then limit - count w + limit
      else if s < T + 1000 then limit - count w
      else 0)"

lemma sliding_room:
  assumes "sorted (map unat ts)" "\<forall>t \<in> set ts. unat (start w) \<le> unat t" "count w \<le> limit"
  shows "int (length (filter (within T) (allowed step ts w))) \<le> room T w"
  using assms
proof (induction ts arbitrary: w)
  case Nil
  then show ?case using limit_pos by (simp add: room_def Let_def)
next
  case (Cons t ts)
  obtain ok w' where st: "step t w = (ok, w')" by (cases "step t w")
  define k where "k = int (length (filter (within T) (allowed step ts w')))"
  have head: "int (length (filter (within T) (allowed step (t # ts) w))) =
      (if ok \<and> T \<le> unat t \<and> unat t < T + 1000 then 1 else 0) + k"
    by (simp add: st k_def within_def [of T t])
  have diff: "unat (t - start w) = unat t - unat (start w)"
    using Cons.prems(2) by (simp add: unat_sub word_le_nat_alt)
  show ?case
  proof (cases "1000 \<le> t - start w")
    case True
    note f = fresh [OF st True]
    have late: "unat (start w) + 1000 \<le> unat t"
      using True diff by (simp add: word_le_nat_alt)
    have "k \<le> room T w'"
      unfolding k_def using Cons f limit_pos by (intro Cons.IH) auto
    then show ?thesis
      unfolding head using f late Cons.prems(3) limit_pos
      by (auto simp: room_def Let_def split: if_splits)
  next
    case False
    then have cur: "t - start w < 1000" by simp
    note f = same [OF st cur]
    have early: "unat t < unat (start w) + 1000"
      using cur diff Cons.prems(2) by (simp add: word_less_nat_alt)
    have "k \<le> room T w'"
      unfolding k_def using Cons f by (intro Cons.IH) auto
    then show ?thesis
      unfolding head using f early Cons.prems(2,3) limit_pos
      by (auto simp: room_def Let_def split: if_splits)
  qed
qed

lemma sliding_bound:
  assumes "sorted (map unat ts)" "\<forall>t \<in> set ts. unat (start w) \<le> unat t" "0 \<le> count w" "count w \<le> limit"
  shows "int (length (filter (within T) (allowed step ts w))) \<le> 2 * limit"
  using sliding_room [OF assms(1,2,4), of T] assms(3) limit_pos by (auto simp: room_def Let_def split: if_splits)

end

text \<open>Both limiters follow the policy.\<close>

interpretation accept_window: fixed_window ar_win_start ar_count "bucket_step (int (Suc n))" "int (Suc n)"
  for n
  by unfold_locales (auto simp: bucket_step_def Let_def split: if_splits)

interpretation udp_window: fixed_window "\<lambda>w. word_of_int (fst w)" snd "rate_check (int (Suc n))" "int (Suc n)"
  for n
  by unfold_locales (auto simp: rate_check_def Let_def split: if_splits)

section \<open>The accept limiter\<close>

abbreviation same_ip :: "sockaddr \<Rightarrow> sockaddr \<Rightarrow> bool" where
  "same_ip a c \<equiv> tm_addr_eq_ip (Some a) (Some c)"

definition bucket_of :: "sockaddr \<Rightarrow> tm_accept_rate list \<Rightarrow> tm_accept_rate option" where
  "bucket_of ip rs = List.find (\<lambda>r. same_ip (ar_ip r) ip) rs"

text \<open>Every bucket that survives a call has counted at least one connection.\<close>

definition counted :: "tm_accept_rate list \<Rightarrow> bool" where
  "counted rs \<longleftrightarrow> (\<forall>r \<in> set rs. 1 \<le> ar_count r)"

lemma bucket_of_simps [simp]:
  "bucket_of ip [] = None"
  "bucket_of ip (r # rs) = (if same_ip (ar_ip r) ip then Some r else bucket_of ip rs)"
  by (simp_all add: bucket_of_def)

lemma same_ip_bucket: "same_ip ip ip' \<Longrightarrow> bucket_of ip rs = bucket_of ip' rs"
proof -
  assume e: "same_ip ip ip'"
  have "same_ip a ip = same_ip a ip'" for a
    using e tm_addr_eq_ip_trans tm_addr_eq_ip_sym by blast
  then show ?thesis by (simp add: bucket_of_def)
qed

lemma rate_index_None: "rate_index ip rs = None \<longleftrightarrow> bucket_of ip rs = None"
  by (induction rs) auto

lemma rate_index_Some:
  "rate_index ip rs = Some i \<Longrightarrow> i < length rs \<and> bucket_of ip rs = Some (rs ! i)"
  by (induction rs arbitrary: i) (auto split: if_splits)

lemma bucket_of_update:
  assumes "rate_index ip rs = Some i" "ar_ip r = ar_ip (rs ! i)"
  shows "bucket_of ip' (rs[i := r]) = (if same_ip ip ip' then Some r else bucket_of ip' rs)"
  using assms
proof (induction rs arbitrary: i)
  case (Cons q rs)
  show ?case
  proof (cases "same_ip (ar_ip q) ip")
    case True
    then have "i = 0" using Cons.prems(1) by simp
    moreover have "same_ip (ar_ip q) ip' = same_ip ip ip'"
      using True tm_addr_eq_ip_trans tm_addr_eq_ip_sym by blast
    ultimately show ?thesis using Cons.prems(2) by simp
  next
    case False
    then obtain j where j: "rate_index ip rs = Some j" "i = Suc j" using Cons.prems(1) by auto
    have "same_ip ip ip' \<Longrightarrow> \<not> same_ip (ar_ip q) ip'"
      using False tm_addr_eq_ip_trans tm_addr_eq_ip_sym by blast
    then show ?thesis using Cons.IH [OF j(1)] Cons.prems(2) j(2) by auto
  qed
qed simp

lemma bucket_step_ip: "bucket_step limit now r = (ok, r') \<Longrightarrow> ar_ip r' = ar_ip r"
  by (auto simp: bucket_step_def Let_def split: if_splits)

lemma bucket_step_counted:
  "0 < limit \<Longrightarrow> 0 \<le> ar_count r \<Longrightarrow> bucket_step limit now r = (ok, r') \<Longrightarrow> 1 \<le> ar_count r'"
  by (auto simp: bucket_step_def Let_def split: if_splits)

lemma rate_allow_cases:
  assumes "0 < limit" "counted rs" "rate_allow limit now now' ip rs = (ok, rs')"
  obtains i qs r where "rate_find now' ip rs = (i, qs)" "i < length qs"
    "bucket_step limit now (qs ! i) = (ok, r)" "rs' = qs[i := r]" "counted rs'"
    "length qs = length rs + (if bucket_of ip rs = None then 1 else 0)"
proof -
  have keep: "rate_cleanup t qs = qs" if "counted qs" for t qs
    using that by (auto simp: rate_cleanup_def counted_def filter_id_conv)
  obtain i qs where f: "rate_find now' ip rs = (i, qs)" by (cases "rate_find now' ip rs")
  have qs: "i < length qs" "\<forall>r \<in> set qs. 0 \<le> ar_count r" "\<forall>j < length qs. j \<noteq> i \<longrightarrow> 1 \<le> ar_count (qs ! j)"
      "length qs = length rs + (if bucket_of ip rs = None then 1 else 0)"
    using f assms(2) rate_index_Some [of ip rs] rate_index_None [of ip rs]
    by (force simp: rate_find_def counted_def nth_Cons' split: option.splits)+
  obtain k r where b: "bucket_step limit now (qs ! i) = (k, r)" by (cases "bucket_step limit now (qs ! i)")
  have "1 \<le> ar_count r" using bucket_step_counted [OF assms(1) _ b] qs(1,2) by simp
  then have c: "counted (qs[i := r])"
    using qs(1,3) by (auto simp: counted_def in_set_conv_nth nth_list_update)
  have "rs' = qs[i := r]" "k = ok"
    using assms(3) f b keep [OF c] by (auto simp: rate_allow_def split: bool.splits)
  then show thesis using that f qs b c by simp
qed

text \<open>
  (C40) The cleanup of the accept limiter never frees a bucket: whenever connections may be accepted
  at all, every bucket has a positive count, so the test for idle buckets fails on all of them and
  the list only grows, by one bucket for every source address ever seen.
\<close>
theorem rate_cleanup_frees_nothing:
  assumes "0 < limit" "counted rs" "rate_allow limit now now' ip rs = (ok, rs')"
  shows "counted rs' \<and> length rs' = length rs + (if bucket_of ip rs = None then 1 else 0)"
  using assms by (rule rate_allow_cases) simp

theorem rate_cleanup_frees_nothing_witness:
  "counted [\<lparr>ar_ip = SaInet 1 80, ar_win_start = 0, ar_count = 1\<rparr>] \<and>
   length (snd (rate_allow 5 100000 100000 (SaInet 2 80)
     [\<lparr>ar_ip = SaInet 1 80, ar_win_start = 0, ar_count = 1\<rparr>])) = 2"
proof -
  let ?rs = "[\<lparr>ar_ip = SaInet 1 80, ar_win_start = 0, ar_count = 1\<rparr>]"
  have c: "counted ?rs" by (simp add: counted_def)
  from rate_cleanup_frees_nothing [OF _ c, of 5 100000 100000 "SaInet 2 80"] show ?thesis
    using c by (cases "rate_allow 5 100000 100000 (SaInet 2 80) ?rs") (simp add: tm_addr_eq_ip_def)
qed

text \<open>One call moves the caller's bucket by \<open>bucket_step\<close> and leaves the others alone.\<close>

lemma rate_allow_bucket:
  assumes "0 < limit" "counted rs" "rate_allow limit now now' ip rs = (ok, rs')"
  shows "\<not> same_ip ip ip' \<Longrightarrow> bucket_of ip' rs' = bucket_of ip' rs"
    and "same_ip ip ip' \<Longrightarrow> bucket_of ip' rs = Some r \<Longrightarrow>
      \<exists>r'. bucket_step limit now r = (ok, r') \<and> bucket_of ip' rs' = Some r'"
    and "same_ip ip ip' \<Longrightarrow> bucket_of ip' rs = None \<Longrightarrow>
      \<exists>r'. bucket_step limit now \<lparr>ar_ip = ip, ar_win_start = now', ar_count = 0\<rparr> = (ok, r') \<and>
        bucket_of ip' rs' = Some r'"
    and "counted rs'"
proof -
  obtain i qs q where c: "rate_find now' ip rs = (i, qs)" "i < length qs"
      "bucket_step limit now (qs ! i) = (ok, q)" "rs' = qs[i := q]" "counted rs'"
    using assms by (rule rate_allow_cases)
  have q: "ar_ip q = ar_ip (qs ! i)" by (rule bucket_step_ip [OF c(3)])
  show "counted rs'" by (rule c(5))
  {
    assume other: "\<not> same_ip ip ip'"
    show "bucket_of ip' rs' = bucket_of ip' rs"
    proof (cases "rate_index ip rs")
      case None
      then show ?thesis using c q other by (auto simp: rate_find_def)
    next
      case (Some j)
      then show ?thesis using c q other bucket_of_update [of ip rs i q ip'] by (simp add: rate_find_def)
    qed
  }
  assume same: "same_ip ip ip'"
  note bk = same_ip_bucket [OF same, of rs]
  {
    assume r: "bucket_of ip' rs = Some r"
    then obtain j where j: "rate_index ip rs = Some j"
      using bk rate_index_None [of ip rs] by fastforce
    then have "r = qs ! i" "rate_index ip qs = Some i"
      using c(1) bk r rate_index_Some [OF j] by (auto simp: rate_find_def)
    then show "\<exists>r'. bucket_step limit now r = (ok, r') \<and> bucket_of ip' rs' = Some r'"
      using c q bucket_of_update [of ip qs i q ip'] same by simp
  }
  assume "bucket_of ip' rs = None"
  then have "rate_index ip rs = None" using bk rate_index_None [of ip rs] by simp
  then have "i = 0" "qs = \<lparr>ar_ip = ip, ar_win_start = now', ar_count = 0\<rparr> # rs"
    using c(1) by (auto simp: rate_find_def)
  then show "\<exists>r'. bucket_step limit now \<lparr>ar_ip = ip, ar_win_start = now', ar_count = 0\<rparr> = (ok, r') \<and>
      bucket_of ip' rs' = Some r'"
    using c q same by simp
qed

text \<open>The connections accepted in a sequence of attempts \<open>(now, now', ip)\<close>, and those of one address.\<close>

fun accepts :: "int \<Rightarrow> (u64 \<times> u64 \<times> sockaddr) list \<Rightarrow> tm_accept_rate list \<Rightarrow> (u64 \<times> sockaddr) list" where
  "accepts limit [] rs = []"
| "accepts limit ((now, now', ip) # es) rs =
     (case rate_allow limit now now' ip rs of
        (ok, rs') \<Rightarrow> (if ok then [(now, ip)] else []) @ accepts limit es rs')"

abbreviation from_ip :: "sockaddr \<Rightarrow> (u64 \<times> sockaddr) list \<Rightarrow> u64 list" where
  "from_ip ip as \<equiv> map fst (filter (\<lambda>(_, a). same_ip a ip) as)"

lemma accepts_bucket:
  assumes "0 < limit" "counted rs" "bucket_of ip rs = Some r"
  shows "from_ip ip (accepts limit es rs) =
    allowed (bucket_step limit) (map fst (filter (\<lambda>(_, _, a). same_ip a ip) es)) r"
  using assms(2,3)
proof (induction es arbitrary: rs r)
  case (Cons e es)
  obtain now now' a where e: "e = (now, now', a)" by (cases e)
  obtain ok rs' where ra: "rate_allow limit now now' a rs = (ok, rs')"
    by (cases "rate_allow limit now now' a rs")
  note step = rate_allow_bucket [OF assms(1) Cons.prems(1) ra]
  show ?case
  proof (cases "same_ip a ip")
    case True
    then obtain r' where "bucket_step limit now r = (ok, r')" "bucket_of ip rs' = Some r'"
      using step(2) [of ip] Cons.prems(2) by blast
    then show ?thesis using Cons.IH [OF step(4)] True by (simp add: e ra)
  next
    case False
    then show ?thesis using Cons.IH [OF step(4)] step(1) [of ip] Cons.prems(2) by (simp add: e ra)
  qed
qed simp

lemma accepts_fresh:
  assumes "0 < limit" "counted rs" "bucket_of ip rs = None"
    and "\<forall>(now, now', _) \<in> set es. now \<le> now' \<and> unat now' < 2 ^ 63"
    and "map fst (filter (\<lambda>(_, _, a). same_ip a ip) es) = t # ts"
  shows "\<exists>r. ar_win_start r = t \<and> ar_count r = 1 \<and>
    from_ip ip (accepts limit es rs) = t # allowed (bucket_step limit) ts r"
  using assms(2-)
proof (induction es arbitrary: rs)
  case (Cons e es)
  obtain now now' a where e: "e = (now, now', a)" by (cases e)
  obtain ok rs' where ra: "rate_allow limit now now' a rs = (ok, rs')"
    by (cases "rate_allow limit now now' a rs")
  note step = rate_allow_bucket [OF assms(1) Cons.prems(1) ra]
  show ?case
  proof (cases "same_ip a ip")
    case True
    then obtain r where r: "bucket_step limit now \<lparr>ar_ip = a, ar_win_start = now', ar_count = 0\<rparr> = (ok, r)"
        "bucket_of ip rs' = Some r"
      using step(3) [of ip] Cons.prems(2) by blast
    have "now = now' \<or> 1000 \<le> now - now'"
    proof -
      have "unat now \<le> unat now'" "unat now' < 2 ^ 63"
        using Cons.prems(3) by (auto simp: e word_le_nat_alt)
      moreover have "unat (now - now') = 2 ^ 64 + unat now - unat now'" if "unat now < unat now'"
        using that unat_sub_if' [of now now'] by (simp add: word_less_nat_alt)
      ultimately show ?thesis by (cases "now = now'") (auto simp: word_le_nat_alt unat_arith_simps)
    qed
    then have "ok \<and> ar_win_start r = now \<and> ar_count r = 1"
      using r(1) assms(1) by (auto simp: bucket_step_def Let_def split: if_splits)
    moreover have "t = now" "ts = map fst (filter (\<lambda>(_, _, a). same_ip a ip) es)"
      using Cons.prems(4) True by (auto simp: e)
    ultimately show ?thesis
      using accepts_bucket [OF assms(1) step(4) r(2), of es] True ra
      by (intro exI [of _ r]) (simp add: e)
  next
    case False
    then show ?thesis
      using Cons.IH [OF step(4)] step(1) [of ip] Cons.prems by (auto simp: e ra)
  qed
qed simp

lemma accepts_sorted:
  fixes es :: "(u64 \<times> u64 \<times> sockaddr) list"
  assumes "sorted (map (\<lambda>(now, _, _). unat now) es)"
    and "map fst (filter (\<lambda>(_, _, a). same_ip a ip) es) = t # ts"
  shows "sorted (map unat ts) \<and> (\<forall>u \<in> set ts. unat t \<le> unat u)"
proof -
  have "sorted (map unat (map fst (filter P es)))" for P :: "u64 \<times> u64 \<times> sockaddr \<Rightarrow> bool"
    using sorted_filter [OF assms(1), of P] by (simp add: comp_def case_prod_unfold)
  then have "sorted (map unat (t # ts))" using assms(2) by metis
  then show ?thesis by auto
qed

text \<open>
  (C23) The accept limiter bounds what a single host can make the broker do: from a start without
  buckets, whatever mixture of connection attempts arrives, in any second at most twice
  \<open>connect_rate_per_ip\<close> connections from one address (any source ports) are let through. The clock
  does not go backwards, and \<open>now'\<close>, the reading taken when a bucket is created, is not earlier
  than \<open>now\<close>, the reading at the start of the same call.
\<close>
theorem accept_rate_bounded:
  assumes "0 < limit" "sorted (map (\<lambda>(now, _, _). unat now) es)"
    and "\<forall>(now, now', _) \<in> set es. now \<le> now' \<and> unat now' < 2 ^ 63"
  shows "int (length (filter (within T) (from_ip ip (accepts limit es [])))) \<le> 2 * limit"
proof (cases "map fst (filter (\<lambda>(_, _, a). same_ip a ip) es)")
  case Nil
  have "from_ip ip (accepts limit es rs) = []" for rs
    using Nil by (induction es arbitrary: rs) (auto split: prod.splits if_splits)
  then show ?thesis using assms(1) by simp
next
  case (Cons t ts)
  obtain n where n: "limit = int (Suc n)" using assms(1) by (metis gr0_conv_Suc of_nat_0_less_iff zero_less_imp_eq_int)
  obtain r where r: "ar_win_start r = t" "ar_count r = 1"
      "from_ip ip (accepts limit es []) = t # allowed (bucket_step limit) ts r"
    using accepts_fresh [OF assms(1) _ _ assms(3) Cons, of "[]"] by (auto simp: counted_def)
  have "t # allowed (bucket_step limit) ts r = allowed (bucket_step limit) (t # ts) (r\<lparr>ar_count := 0\<rparr>)"
    using r(1,2) assms(1) by (cases r) (simp add: bucket_step_def)
  moreover have "int (length (filter (within T) (allowed (bucket_step limit) (t # ts) (r\<lparr>ar_count := 0\<rparr>)))) \<le> 2 * limit"
    unfolding n using accepts_sorted [OF assms(2) Cons] r(1) by (intro accept_window.sliding_bound) auto
  ultimately show ?thesis using r(3) by simp
qed

theorem accept_rate_bounded_witness:
  "int (length (filter (within 0) (from_ip (SaInet 1 9)
     (accepts 1 [(5, 5, SaInet 1 80), (6, 6, SaInet 1 81), (7, 7, SaInet 2 80)] [])))) \<le> 2"
  using accept_rate_bounded [of 1 "[(5, 5, SaInet 1 80), (6, 6, SaInet 1 81), (7, 7, SaInet 2 80)]" 0 "SaInet 1 9"]
  by simp

text \<open>
  The same policy limits datagrams and new flows of a UDP tunnel: with a positive limit, among
  any sequence of events at most twice the limit are let through in any second.
\<close>
lemma udp_rate_bounded:
  assumes "0 < limit" "sorted (map unat ts)" "0 \<le> snd w" "snd w \<le> limit"
    and "\<forall>t \<in> set ts. unat (word_of_int (fst w) :: u64) \<le> unat t"
  shows "int (length (filter (within T) (allowed (rate_check limit) ts w))) \<le> 2 * limit"
proof -
  obtain n where n: "limit = int (Suc n)" using assms(1) by (metis gr0_conv_Suc of_nat_0_less_iff zero_less_imp_eq_int)
  show ?thesis using assms unfolding n by (intro udp_window.sliding_bound) auto
qed

end
