(* ===== verification/Config.thy ===== *)
theory Config
  imports Wire
begin

text \<open>
  \<open>common/src/config.c\<close>: the configuration file, sections of \<open>key = value\<close> lines. Strings are
  character lists without NUL; a table is the association list of full keys \<open>section.key\<close>, newest
  first. \<open>strtoll\<close> is the C library's: leading white space, a sign, decimal digits, saturation at the
  ends of \<open>long long\<close>. \<open>tm_config_get_double\<close>, which no program calls, is left out.
\<close>

section \<open>Model\<close>

type_synonym tm_config = "(string \<times> string) list"

datatype cfg_error = UnterminatedSection nat | ExpectedEquals nat | EmptyKey nat | CannotOpen

fun cfg_put :: "string \<Rightarrow> string \<Rightarrow> tm_config \<Rightarrow> tm_config option" where
  "cfg_put k v [] = None"
| "cfg_put k v ((k', v') # c) = (if k' = k then Some ((k', v) # c) else map_option (Cons (k', v')) (cfg_put k v c))"

definition full_key :: "string option \<Rightarrow> string \<Rightarrow> string" where
  "full_key section key =
     snprintf_s 256 (case section of Some s \<Rightarrow> if s \<noteq> [] then s @ ''.'' @ key else key | None \<Rightarrow> key)"

definition config_set :: "tm_config \<Rightarrow> string option \<Rightarrow> string \<Rightarrow> string \<Rightarrow> tm_config" where
  "config_set c section key value =
     (case cfg_put (full_key section key) value c of
        Some c' \<Rightarrow> c'
      | None \<Rightarrow> (full_key section key, value) # c)"

definition blank :: "char \<Rightarrow> bool" where
  "blank c \<longleftrightarrow> c = CHR '' '' \<or> c = CHR 0x09"

definition trim :: "string \<Rightarrow> string" where
  "trim s = rev (dropWhile (\<lambda>c. blank c \<or> c = CHR 0x0D) (rev (dropWhile blank s)))"

definition strip_quotes :: "string \<Rightarrow> string" where
  "strip_quotes v =
     (if 2 \<le> length v \<and> (hd v = CHR 0x22 \<and> last v = CHR 0x22 \<or> hd v = CHR 0x27 \<and> last v = CHR 0x27)
      then tl (butlast v) else v)"

definition parse_line :: "tm_config \<Rightarrow> string \<Rightarrow> string option \<Rightarrow> nat \<Rightarrow> cfg_error + tm_config" where
  "parse_line c line section lineno =
     (let p = dropWhile blank line in
      if p = [] \<or> hd p = CHR ''#'' then Inr c
      else if hd p = CHR ''['' then
        (if CHR '']'' \<in> set p then Inr c else Inl (UnterminatedSection lineno))
      else if CHR ''='' \<notin> set p then Inl (ExpectedEquals lineno)
      else
        let k = trim (takeWhile (\<lambda>x. x \<noteq> CHR ''='') p);
            v = strip_quotes (trim (tl (dropWhile (\<lambda>x. x \<noteq> CHR ''='') p)))
        in if k = [] then Inl (EmptyKey lineno) else Inr (config_set c section k v))"

text \<open>The tokens of \<open>strtok_r(text, "\n")\<close>: the non-empty lines.\<close>

fun cfg_lines :: "string \<Rightarrow> string \<Rightarrow> string list" where
  "cfg_lines acc [] = (if acc = [] then [] else [rev acc])"
| "cfg_lines acc (x # xs) =
     (if x = CHR 0x0A then (if acc = [] then cfg_lines [] xs else rev acc # cfg_lines [] xs)
      else cfg_lines (x # acc) xs)"

fun parse_lines :: "nat \<Rightarrow> string option \<Rightarrow> string list \<Rightarrow> tm_config \<Rightarrow> cfg_error + tm_config" where
  "parse_lines n section [] c = Inr c"
| "parse_lines n section (line # ls) c =
     (let p = dropWhile blank line in
      if p \<noteq> [] \<and> hd p = CHR ''['' then
        if CHR '']'' \<notin> set p then Inl (UnterminatedSection (Suc n))
        else parse_lines (Suc n) (Some (tl (takeWhile (\<lambda>x. x \<noteq> CHR '']'') p))) ls c
      else case parse_line c line section (Suc n) of
        Inl e \<Rightarrow> Inl e
      | Inr c' \<Rightarrow> parse_lines (Suc n) section ls c')"

definition config_parse_buf :: "tm_config \<Rightarrow> string \<Rightarrow> cfg_error + tm_config" where
  "config_parse_buf c text = parse_lines 0 None (cfg_lines [] text) c"

definition tm_config_parse :: "tm_config \<Rightarrow> string \<Rightarrow> cfg_error + tm_config" where
  "tm_config_parse = config_parse_buf"

text \<open>\<open>file\<close> is the content of the file, \<open>None\<close> when it cannot be opened; a NUL ends the text.\<close>

definition tm_config_load :: "tm_config \<Rightarrow> string option \<Rightarrow> cfg_error + tm_config" where
  "tm_config_load c file =
     (case file of
        None \<Rightarrow> Inl CannotOpen
      | Some text \<Rightarrow> config_parse_buf c (takeWhile (\<lambda>x. x \<noteq> CHR 0x00) text))"

definition config_find :: "tm_config \<Rightarrow> string \<Rightarrow> string option" where
  "config_find c key = map_of c key"

definition tm_config_get_str :: "tm_config \<Rightarrow> string \<Rightarrow> string option \<Rightarrow> bool \<times> string option" where
  "tm_config_get_str c key def =
     (case config_find c key of None \<Rightarrow> (False, def) | Some v \<Rightarrow> (True, Some v))"

definition tm_config_get_str_owned :: "tm_config \<Rightarrow> string \<Rightarrow> string option \<Rightarrow> string option" where
  "tm_config_get_str_owned c key def = (case config_find c key of None \<Rightarrow> def | Some v \<Rightarrow> Some v)"

definition c_space :: "char \<Rightarrow> bool" where
  "c_space c \<longleftrightarrow> c = CHR '' '' \<or> of_char c \<in> {9 .. 13 :: nat}"

definition digit_val :: "char \<Rightarrow> nat" where
  "digit_val c = of_char c - 48"

definition is_digit :: "char \<Rightarrow> bool" where
  "is_digit c \<longleftrightarrow> of_char c \<in> {48 .. 57 :: nat}"

definition digits_val :: "string \<Rightarrow> int" where
  "digits_val ds = foldl (\<lambda>n c. 10 * n + int (digit_val c)) 0 ds"

definition saturate :: "int \<Rightarrow> int" where
  "saturate n = max (- (2 ^ 63)) (min (2 ^ 63 - 1) n)"

text \<open>\<open>strtoll(v, &end, 10)\<close>: the value and the rest at \<open>end\<close>; without digits \<open>end\<close> is \<open>v\<close>.\<close>

definition strtoll :: "string \<Rightarrow> int \<times> string" where
  "strtoll v =
     (let s = dropWhile c_space v;
          (neg, s) = (case s of x # xs \<Rightarrow> if x = CHR ''-'' then (True, xs)
                                          else if x = CHR ''+'' then (False, xs) else (False, s)
                              | [] \<Rightarrow> (False, s));
          ds = takeWhile is_digit s
      in if ds = [] then (0, v)
         else (saturate (if neg then - digits_val ds else digits_val ds), dropWhile is_digit s))"

definition tm_config_get_int :: "tm_config \<Rightarrow> string \<Rightarrow> int \<Rightarrow> bool \<times> int" where
  "tm_config_get_int c key def =
     (case config_find c key of
        None \<Rightarrow> (False, def)
      | Some v \<Rightarrow>
          (case strtoll v of (n, rest) \<Rightarrow>
             if rest = v \<or> rest \<noteq> [] then (False, def) else (True, n)))"

definition tm_config_get_bool :: "tm_config \<Rightarrow> string \<Rightarrow> bool \<Rightarrow> bool \<times> bool" where
  "tm_config_get_bool c key def =
     (case config_find c key of
        None \<Rightarrow> (False, def)
      | Some v \<Rightarrow>
          if v \<in> {''true'', ''yes'', ''on'', ''1''} then (True, True)
          else if v \<in> {''false'', ''no'', ''off'', ''0''} then (True, False)
          else (False, def))"

section \<open>Reading back what was written\<close>

text \<open>
  A file written from \<open>entries\<close>, one section at a time: \<open>[section]\<close> followed by \<open>key = value\<close> lines.
  Names and values are plain: non-empty, without line breaks, and for names without the characters
  the format gives a meaning.
\<close>

definition plain_name :: "string \<Rightarrow> bool" where
  "plain_name s \<longleftrightarrow> s \<noteq> [] \<and> (\<forall>c \<in> set s. \<not> blank c \<and> c \<notin> {CHR 0x0A, CHR 0x0D, CHR 0x00, CHR ''='', CHR ''['',
     CHR '']'', CHR ''#''})"

definition plain_value :: "string \<Rightarrow> bool" where
  "plain_value s \<longleftrightarrow> (\<forall>c \<in> set s. c \<noteq> CHR 0x0A \<and> c \<noteq> CHR 0x00) \<and> trim s = s \<and> strip_quotes s = s"

definition print_entry :: "string \<times> string \<Rightarrow> string" where
  "print_entry kv = fst kv @ '' = '' @ snd kv @ [CHR 0x0A]"

definition print_section :: "string \<times> (string \<times> string) list \<Rightarrow> string" where
  "print_section se = ''['' @ fst se @ '']'' @ [CHR 0x0A] @ concat (map print_entry (snd se))"

definition print_config :: "(string \<times> (string \<times> string) list) list \<Rightarrow> string" where
  "print_config ses = concat (map print_section ses)"

lemma cfg_lines_line:
  assumes "CHR 0x0A \<notin> set l" "acc \<noteq> [] \<or> l \<noteq> []"
  shows "cfg_lines acc (l @ CHR 0x0A # r) = (rev acc @ l) # cfg_lines [] r"
  using assms by (induction l arbitrary: acc) auto

lemma config_find_put:
  "cfg_put k v c = Some c' \<Longrightarrow> map_of c' = (map_of c)(k \<mapsto> v)"
  by (induction c arbitrary: c') (auto split: if_splits simp: fun_upd_twist)

lemma config_find_set:
  "config_find (config_set c section key v) k =
     (if k = full_key section key then Some v else config_find c k)"
  by (auto simp: config_set_def config_find_def dest: config_find_put split: option.split)

lemma trim_plain:
  assumes "s \<noteq> []" "\<forall>c \<in> set s. \<not> blank c \<and> c \<noteq> CHR 0x0D"
  shows "trim (s @ [CHR '' '']) = s" "trim (CHR '' '' # v) = trim v"
proof -
  have "dropWhile blank (s @ [CHR '' '']) = s @ [CHR '' '']"
    using assms by (cases s) auto
  moreover have "dropWhile (\<lambda>c. blank c \<or> c = CHR 0x0D) (rev s) = rev s"
    using assms by (cases "rev s") (auto simp: dropWhile_eq_self_iff)
  ultimately show "trim (s @ [CHR '' '']) = s" by (simp add: trim_def blank_def)
  show "trim (CHR '' '' # v) = trim v" by (simp add: trim_def blank_def)
qed

lemma parse_entry:
  assumes "plain_name k" "plain_value v"
  shows "parse_line c (k @ '' = '' @ v) section n = Inr (config_set c section k v)"
proof -
  obtain x xs where k: "k = x # xs" using assms(1) by (cases k) (auto simp: plain_name_def)
  have x: "\<not> blank x" "x \<noteq> CHR ''#''" "x \<noteq> CHR ''[''" using assms(1) by (auto simp: plain_name_def k)
  have p: "dropWhile blank (k @ '' = '' @ v) = k @ '' = '' @ v" using x by (simp add: k)
  have "\<forall>c \<in> set k. c \<noteq> CHR ''=''" using assms(1) by (auto simp: plain_name_def)
  then have t: "takeWhile (\<lambda>x. x \<noteq> CHR ''='') (k @ '' = '' @ v) = k @ [CHR '' '']"
      "dropWhile (\<lambda>x. x \<noteq> CHR ''='') (k @ '' = '' @ v) = CHR ''='' # CHR '' '' # v"
    by (simp_all add: takeWhile_append dropWhile_append)
  have "trim (k @ [CHR '' '']) = k" "trim (CHR '' '' # v) = v"
    using trim_plain [of k] assms by (auto simp: plain_name_def plain_value_def)
  then show ?thesis
    using p t x assms by (simp add: parse_line_def Let_def k plain_value_def)
qed

lemma parse_entries:
  assumes "\<forall>(k, v) \<in> set es. plain_name k \<and> plain_value v"
  shows "\<exists>m. parse_lines n section (cfg_lines [] (concat (map print_entry es) @ r)) c =
    parse_lines m section (cfg_lines [] r) (foldl (\<lambda>c (k, v). config_set c section k v) c es)"
  using assms
proof (induction es arbitrary: n c)
  case Nil
  then show ?case by auto
next
  case (Cons e es)
  obtain k v where e: "e = (k, v)" by (cases e)
  have kv: "plain_name k" "plain_value v" using Cons.prems by (auto simp: e)
  obtain x xs where k: "k = x # xs" using kv(1) by (cases k) (auto simp: plain_name_def)
  have x: "\<not> blank x" "x \<noteq> CHR ''[''" using kv(1) by (auto simp: plain_name_def k)
  have nl: "CHR 0x0A \<notin> set (k @ '' = '' @ v)" using kv by (auto simp: plain_name_def plain_value_def)
  have "concat (map print_entry (e # es)) @ r = (k @ '' = '' @ v) @ CHR 0x0A # concat (map print_entry es) @ r"
    by (simp add: e print_entry_def)
  then have "cfg_lines [] (concat (map print_entry (e # es)) @ r) =
      (k @ '' = '' @ v) # cfg_lines [] (concat (map print_entry es) @ r)"
    using cfg_lines_line [OF nl, of "[]"] by simp
  moreover have "parse_line c (k @ '' = '' @ v) section (Suc n) = Inr (config_set c section k v)"
    by (rule parse_entry [OF kv])
  ultimately show ?case
    using Cons.IH [of "Suc n" "config_set c section k v"] Cons.prems x by (simp add: e k)
qed

definition entries :: "(string \<times> (string \<times> string) list) list \<Rightarrow> (string \<times> string) list" where
  "entries ses = concat (map (\<lambda>(s, es). map (\<lambda>(k, v). (full_key (Some s) k, v)) es) ses)"

lemma find_foldl:
  "config_find (foldl (\<lambda>c (k, v). config_set c section k v) c es) =
     config_find c ++ map_of (rev (map (\<lambda>(k, v). (full_key section k, v)) es))"
proof (induction es arbitrary: c)
  case (Cons e es)
  obtain k v where e: "e = (k, v)" by (cases e)
  have "config_find (config_set c section k v) = (config_find c)(full_key section k \<mapsto> v)"
    by (simp add: fun_eq_iff config_find_set)
  then show ?case using Cons.IH by (simp add: e map_add_upd_left fun_eq_iff map_add_def split: option.split)
qed (simp add: fun_eq_iff)

lemma parse_sections:
  assumes "\<forall>(s, es) \<in> set ses. plain_name s \<and> (\<forall>(k, v) \<in> set es. plain_name k \<and> plain_value v)"
  shows "\<exists>c'. parse_lines n section (cfg_lines [] (print_config ses)) c = Inr c' \<and>
    config_find c' = config_find c ++ map_of (rev (entries ses))"
  using assms
proof (induction ses arbitrary: n "section" c)
  case Nil
  then show ?case by (simp add: print_config_def entries_def)
next
  case (Cons se ses)
  obtain s es where se: "se = (s, es)" by (cases se)
  have s: "plain_name s" "\<forall>(k, v) \<in> set es. plain_name k \<and> plain_value v" using Cons.prems by (auto simp: se)
  have nl: "CHR 0x0A \<notin> set (''['' @ s @ '']'')" using s(1) by (auto simp: plain_name_def)
  let ?rest = "concat (map print_entry es) @ print_config ses"
  have "print_config (se # ses) = (''['' @ s @ '']'') @ CHR 0x0A # ?rest"
    by (simp add: print_config_def print_section_def se)
  then have lines: "cfg_lines [] (print_config (se # ses)) = (''['' @ s @ '']'') # cfg_lines [] ?rest"
    using cfg_lines_line [OF nl, of "[]"] by simp
  have p: "dropWhile blank (''['' @ s @ '']'') = ''['' @ s @ '']''" by (simp add: blank_def)
  have "\<forall>c \<in> set s. c \<noteq> CHR '']''" using s(1) by (auto simp: plain_name_def)
  then have name: "tl (takeWhile (\<lambda>x. x \<noteq> CHR '']'') (''['' @ s @ '']'')) = s" by simp
  obtain m where m: "parse_lines (Suc n) (Some s) (cfg_lines [] ?rest) c =
      parse_lines m (Some s) (cfg_lines [] (print_config ses)) (foldl (\<lambda>c (k, v). config_set c (Some s) k v) c es)"
    using parse_entries [OF s(2)] by blast
  obtain c' where c': "parse_lines m (Some s) (cfg_lines [] (print_config ses))
        (foldl (\<lambda>c (k, v). config_set c (Some s) k v) c es) = Inr c'"
      "config_find c' = config_find (foldl (\<lambda>c (k, v). config_set c (Some s) k v) c es) ++ map_of (rev (entries ses))"
    using Cons.IH Cons.prems by fastforce
  have "parse_lines n section (cfg_lines [] (print_config (se # ses))) c = Inr c'"
    unfolding lines using p name m c'(1) by simp
  moreover have "config_find c' = config_find c ++ map_of (rev (entries (se # ses)))"
    by (simp add: c'(2) find_foldl se entries_def)
  ultimately show ?case by blast
qed



end
