(* ===== verification/BrokerTypes.thy ===== *)
theory BrokerTypes
  imports Relay Frame RateLimit Config "HOL-Library.Monad_Syntax" "HOL-Library.AList"
begin

text \<open>
  The data of the broker: the structs of \<open>broker/src/broker.h\<close>, the pending connection of
  \<open>control.c\<close> and the accept-rate bucket of \<open>tcp.c\<close>. Pointers are addresses (\<open>addr\<close>); a linked list
  of heap objects is an association list from addresses to contents, newest first, as the code
  inserts at the head. Following a pointer to an object that has been freed gives \<open>None\<close>, so a
  handler's result \<open>None\<close> is a memory error (an access to freed memory, or past a stack array).

  \<open>long long\<close> settings are \<open>int\<close>; counters keep their width. Handles of libuv are the flags the code
  tests; \<open>t_listener_open\<close> and \<open>t_udp_open\<close> are the code's own flags. A socket pointer is whether
  it is non-\<open>NULL\<close>.
\<close>

type_synonym addr = nat

definition TM_TUNNEL_ID_LEN :: nat where "TM_TUNNEL_ID_LEN = 24"

section \<open>Configuration\<close>

record tm_broker_cfg =
  cfg_listen_host :: string
  cfg_control_port :: u16
  cfg_public_port_start :: u16
  cfg_public_port_end :: u16
  cfg_tls_cert :: string
  cfg_tls_key :: string
  cfg_hmac_key_file :: string
  cfg_broker_socket :: string
  cfg_log_level :: string
  cfg_max_tunnels :: int
  cfg_max_streams :: int
  cfg_max_streams_per_tunnel :: int
  cfg_max_pending_streams :: int
  cfg_handshake_timeout_ms :: int
  cfg_idle_timeout_ms :: int
  cfg_heartbeat_interval_ms :: int
  cfg_bind_timeout_ms :: int
  cfg_shutdown_grace_ms :: int
  cfg_udp_flow_idle_timeout_ms :: int
  cfg_udp_max_flows :: int
  cfg_udp_max_flows_per_tunnel :: int
  cfg_udp_max_datagram_size :: int
  cfg_udp_max_packets_per_tunnel :: int
  cfg_udp_max_packets_per_source :: int
  cfg_udp_flow_creation_rate :: int
  cfg_udp_queue_packets :: int
  cfg_connect_rate_per_ip :: int

text \<open>\<open>cfg_load\<close> of \<open>main.c\<close>: strings are cut to their array, ports are taken modulo \<open>2 ^ 16\<close>.\<close>

definition TM_PORT_START_DEFAULT :: int where "TM_PORT_START_DEFAULT = 20000"
definition TM_PORT_END_DEFAULT :: int where "TM_PORT_END_DEFAULT = 40000"

definition cfg_get_str :: "tm_config \<Rightarrow> string \<Rightarrow> string \<Rightarrow> nat \<Rightarrow> string" where
  "cfg_get_str c k def outlen =
     snprintf_s outlen (case tm_config_get_str_owned c k (Some def) of Some v \<Rightarrow> v | None \<Rightarrow> [])"

definition cfg_get_int :: "tm_config \<Rightarrow> string \<Rightarrow> int \<Rightarrow> int" where
  "cfg_get_int c k def = snd (tm_config_get_int c k def)"

definition cfg_load :: "tm_config \<Rightarrow> tm_broker_cfg" where
  "cfg_load c =
     \<lparr>cfg_listen_host = cfg_get_str c ''broker.listen_host'' ''0.0.0.0'' 64,
      cfg_control_port = word_of_int (cfg_get_int c ''broker.control_port'' 7000),
      cfg_public_port_start = word_of_int (cfg_get_int c ''broker.public_port_start'' TM_PORT_START_DEFAULT),
      cfg_public_port_end = word_of_int (cfg_get_int c ''broker.public_port_end'' TM_PORT_END_DEFAULT),
      cfg_tls_cert = cfg_get_str c ''broker.tls_cert'' ''/etc/tunnelmate/certs/broker.crt'' 512,
      cfg_tls_key = cfg_get_str c ''broker.tls_key'' ''/etc/tunnelmate/certs/broker.key'' 512,
      cfg_hmac_key_file = cfg_get_str c ''broker.hmac_key_file'' ''/etc/tunnelmate/hmac.key'' 512,
      cfg_broker_socket = cfg_get_str c ''broker.broker_socket'' ''/run/tunnelmate/broker.sock'' 512,
      cfg_log_level = cfg_get_str c ''broker.log_level'' ''info'' 16,
      cfg_max_tunnels = cfg_get_int c ''broker.max_tunnels'' 256,
      cfg_max_streams = cfg_get_int c ''broker.max_streams'' 4096,
      cfg_max_streams_per_tunnel = cfg_get_int c ''broker.max_streams_per_tunnel'' 256,
      cfg_max_pending_streams = cfg_get_int c ''broker.max_pending_streams'' 256,
      cfg_handshake_timeout_ms = cfg_get_int c ''broker.handshake_timeout_ms'' 15000,
      cfg_idle_timeout_ms = cfg_get_int c ''broker.idle_timeout_ms'' 90000,
      cfg_heartbeat_interval_ms = cfg_get_int c ''broker.heartbeat_interval_ms'' 15000,
      cfg_bind_timeout_ms = cfg_get_int c ''broker.bind_timeout_ms'' 10000,
      cfg_shutdown_grace_ms = cfg_get_int c ''broker.shutdown_grace_ms'' 5000,
      cfg_udp_flow_idle_timeout_ms = cfg_get_int c ''broker.udp_flow_idle_timeout_ms'' 30000,
      cfg_udp_max_flows = cfg_get_int c ''broker.udp_max_flows'' 65536,
      cfg_udp_max_flows_per_tunnel = cfg_get_int c ''broker.udp_max_flows_per_tunnel'' 4096,
      cfg_udp_max_datagram_size = cfg_get_int c ''broker.udp_max_datagram_size'' TM_DEFAULT_DATAGRAM,
      cfg_udp_max_packets_per_tunnel = cfg_get_int c ''broker.udp_max_packets_per_tunnel'' 2000,
      cfg_udp_max_packets_per_source = cfg_get_int c ''broker.udp_max_packets_per_source'' 200,
      cfg_udp_flow_creation_rate = cfg_get_int c ''broker.udp_flow_creation_rate'' 50,
      cfg_udp_queue_packets = cfg_get_int c ''broker.udp_queue_packets'' 1024,
      cfg_connect_rate_per_ip = cfg_get_int c ''broker.connect_rate_per_ip'' 30\<rparr>"

text \<open>Without a file every lookup gives its default.\<close>

lemma cfg_get_default [simp]: "cfg_get_int [] k d = d" "length v < n \<Longrightarrow> cfg_get_str [] k v n = v"
  by (simp_all add: cfg_get_int_def cfg_get_str_def tm_config_get_int_def tm_config_get_str_owned_def
      config_find_def snprintf_s_id)

section \<open>Control sessions and pending connections\<close>

record tm_agent =
  a_sock :: bool
  a_io :: "tm_io option"
  a_fr :: tm_frame_reader
  a_last_rx_ms :: u64
  a_last_ping_ms :: u64
  a_remote :: bytes

record tm_conn =
  c_sock :: bool
  c_ssl :: bool
  c_io :: "tm_io option"
  c_fr :: "tm_frame_reader option"
  c_hs_timer :: bool
  c_last_rx_ms :: u64
  c_remote :: bytes
  c_got_hello :: bool
  c_peer_authed :: bool
  c_peer_tun :: "addr option"
  c_closing :: bool

section \<open>UDP sessions and flows\<close>

text \<open>
  The answers of OpenSSL to a session: \<open>SSL_write\<close> (\<open>s_sw\<close>: the whole message, some other number
  of bytes, more I/O wanted, failure) and whether the ciphertext BIO has a
  record (\<open>s_bio\<close>). \<open>s_plain\<close> records the envelopes OpenSSL took, in order.
\<close>

datatype dtls_ans = DwWhole | DwPart nat | DwWant | DwFail

record tm_udp_session =
  s_peer :: sockaddr
  s_is_agent :: bool
  s_authenticated :: bool
  s_handshake_done :: bool
  s_inflight :: bool
  s_closing :: bool
  s_timer_closed :: bool
  s_last_rx_ms :: u64
  s_pkts_rx :: u64
  s_pkts_tx :: u64
  s_pkt_win_start :: int
  s_pkt_win_count :: int
  s_outq :: bytes
  s_outq_cap :: nat
  s_outq_off :: nat
  s_outq_packets :: nat
  s_sw :: "dtls_ans list"
  s_bio :: "bool list"
  s_plain :: "bytes list"

record tm_udp_flow =
  fl_flow_id :: u64
  fl_src_flow_id :: u64
  fl_from_peer_session :: bool
  fl_src :: sockaddr
  fl_peer_session :: "addr option"
  fl_last_seen_ms :: u64
  fl_pkts_rx :: u64
  fl_pkts_tx :: u64
  fl_bytes_rx :: u64
  fl_bytes_tx :: u64
  fl_pkt_win_start :: int
  fl_pkt_win_count :: int

section \<open>Tunnels\<close>

text \<open>
  \<open>t_handle\<close> is the state of the tunnel's embedded socket handle (\<open>listener\<close> or \<open>udp_sock\<close>) in libuv:
  not registered with the loop, registered, or closing until its close callback. libuv requires
  that a registered or closing handle is neither initialised again nor freed.
  \<open>t_uv\<close> are the answers of \<open>uv_udp_send\<close> on the tunnel's socket (past its end, success) and
  \<open>t_out\<close> records what the socket was given: a record of a DTLS session, or a plain datagram.
\<close>

datatype uv_handle = HNone | HActive | HClosing

datatype udp_out = OutRecord addr | OutPlain sockaddr bytes

record tm_tunnel =
  t_id :: bytes
  t_proto :: tm_proto
  t_closed :: bool
  t_enabled :: bool
  t_public_port :: u16
  t_agent_secret_hmac :: bytes
  t_shared_token_hmac :: bytes
  t_created_at_ms :: u64
  t_last_seen_ms :: u64
  t_expires_at_ms :: u64
  t_agent :: "(addr \<times> tm_agent) option"
  t_agent_online :: bool
  t_handle :: uv_handle
  t_listener_open :: bool
  t_listener_closing :: bool
  t_listener_restart_pending :: bool
  t_udp_open :: bool
  t_udp_sessions :: "(addr \<times> tm_udp_session) list"
  t_agent_session :: "addr option"
  t_udp_flows :: "(addr \<times> tm_udp_flow) list"
  t_next_flow_id :: u64
  t_udp_flow_created_win_start :: int
  t_udp_flow_created_win_count :: int
  t_udp_raw_inflight :: nat
  t_udp_pkt_win_start :: int
  t_udp_pkt_win_count :: int
  t_streams :: "(addr \<times> tm_stream) list"
  t_streams_active :: int
  t_rx_bytes :: u64
  t_tx_bytes :: u64
  t_datagrams_rx :: u64
  t_datagrams_tx :: u64
  t_udp_bytes_rx :: u64
  t_udp_bytes_tx :: u64
  t_streams_total :: u64
  t_conns_rejected_offline :: u64
  t_deleting :: bool
  t_close_refs :: int
  t_uv :: "bool list"
  t_out :: "udp_out list"

text \<open>The zeroed memory a new tunnel starts from.\<close>

definition tunnel_zero :: tm_tunnel where
  "tunnel_zero =
     \<lparr>t_id = [], t_proto = TM_PROTO_TCP, t_closed = False, t_enabled = False, t_public_port = 0,
      t_agent_secret_hmac = [], t_shared_token_hmac = [], t_created_at_ms = 0, t_last_seen_ms = 0,
      t_expires_at_ms = 0, t_agent = None, t_agent_online = False, t_handle = HNone,
      t_listener_open = False, t_listener_closing = False, t_listener_restart_pending = False,
      t_udp_open = False, t_udp_sessions = [], t_agent_session = None, t_udp_flows = [],
      t_next_flow_id = 0, t_udp_flow_created_win_start = 0, t_udp_flow_created_win_count = 0,
      t_udp_raw_inflight = 0, t_udp_pkt_win_start = 0, t_udp_pkt_win_count = 0, t_streams = [],
      t_streams_active = 0, t_rx_bytes = 0, t_tx_bytes = 0, t_datagrams_rx = 0, t_datagrams_tx = 0,
      t_udp_bytes_rx = 0, t_udp_bytes_tx = 0, t_streams_total = 0, t_conns_rejected_offline = 0,
      t_deleting = False, t_close_refs = 0, t_uv = [], t_out = []\<rparr>"

section \<open>The broker\<close>


text \<open>
  \<open>b_cursor\<close>, \<open>b_sid_counter\<close> and \<open>b_sid_counter2\<close> are the static variables of \<open>tm_port_alloc\<close>,
  \<open>tm_stream_create_open\<close> and \<open>tm_stream_create_closed\<close>. \<open>b_heap\<close> is the next fresh address,
  \<open>b_detached\<close> the deleted tunnels that wait for their close callbacks and \<open>b_zombies\<close> the closed
  UDP sessions that wait for theirs.
\<close>

record tm_broker =
  b_cfg :: tm_broker_cfg
  b_hmac_key :: bytes
  b_tunnels :: "(addr \<times> tm_tunnel) list"
  b_tunnel_count :: int
  b_stream_count :: int
  b_ports_tcp :: "bool list"
  b_ports_udp :: "bool list"
  b_ports_used :: u16
  b_cursor :: nat
  b_sid_counter :: u64
  b_sid_counter2 :: u64
  b_start_ms :: u64
  b_rx_bytes_total :: u64
  b_tx_bytes_total :: u64
  b_datagrams_rx_total :: u64
  b_datagrams_tx_total :: u64
  b_udp_bytes_rx :: u64
  b_udp_bytes_tx :: u64
  b_streams_total :: u64
  b_flows_total :: u64
  b_failed_auths :: u64
  b_protocol_errors :: u64
  b_agent_reconnects :: u64
  b_conns_total :: u64
  b_conns_rate_limited :: u64
  b_udp_dropped_queue_full :: u64
  b_udp_dropped_oversize :: u64
  b_udp_dropped_rate_limit :: u64
  b_udp_dropped_no_flow :: u64
  b_udp_flow_expired :: u64
  b_udp_transport_errors :: u64
  b_stream_errors :: u64
  b_control_listening :: bool
  b_ipc_open :: bool
  b_shutting_down :: bool
  b_cleaned_up :: bool
  b_conns :: "(addr \<times> tm_conn) list"
  b_accept_rates :: "tm_accept_rate list"
  b_heap :: addr
  b_detached :: "(addr \<times> tm_tunnel) list"
  b_zombies :: "(addr \<times> tm_udp_session) list"

text \<open>
  The broker \<open>main\<close> starts with: everything zero but the configuration, the HMAC key and the port
  tables, one flag per port of the public range.
\<close>

definition port_count :: "tm_broker_cfg \<Rightarrow> nat" where
  "port_count cfg = nat (uint (cfg_public_port_end cfg) - uint (cfg_public_port_start cfg)) + 1"

definition broker_new :: "tm_broker_cfg \<Rightarrow> bytes \<Rightarrow> tm_broker" where
  "broker_new cfg key =
     \<lparr>b_cfg = cfg, b_hmac_key = key, b_tunnels = [], b_tunnel_count = 0, b_stream_count = 0,
      b_ports_tcp = replicate (port_count cfg) False, b_ports_udp = replicate (port_count cfg) False,
      b_ports_used = 0, b_cursor = 0, b_sid_counter = 1, b_sid_counter2 = 1, b_start_ms = 0,
      b_rx_bytes_total = 0, b_tx_bytes_total = 0, b_datagrams_rx_total = 0, b_datagrams_tx_total = 0,
      b_udp_bytes_rx = 0, b_udp_bytes_tx = 0, b_streams_total = 0, b_flows_total = 0,
      b_failed_auths = 0, b_protocol_errors = 0, b_agent_reconnects = 0, b_conns_total = 0,
      b_conns_rate_limited = 0, b_udp_dropped_queue_full = 0, b_udp_dropped_oversize = 0,
      b_udp_dropped_rate_limit = 0, b_udp_dropped_no_flow = 0, b_udp_flow_expired = 0,
      b_udp_transport_errors = 0, b_stream_errors = 0, b_control_listening = False,
      b_ipc_open = False, b_shutting_down = False, b_cleaned_up = False, b_conns = [],
      b_accept_rates = [], b_heap = 0, b_detached = [], b_zombies = []\<rparr>"

section \<open>Objects by address\<close>

text \<open>
  \<open>put a x xs\<close> stores \<open>x\<close> at \<open>a\<close> where \<open>a\<close> is allocated; \<open>unlink a xs\<close> takes the object out of the
  list.
\<close>

fun put :: "addr \<Rightarrow> 'a \<Rightarrow> (addr \<times> 'a) list \<Rightarrow> (addr \<times> 'a) list" where
  "put a x [] = []"
| "put a x ((k, y) # xs) = (if k = a then (k, x) # xs else (k, y) # put a x xs)"

definition unlink :: "addr \<Rightarrow> (addr \<times> 'a) list \<Rightarrow> (addr \<times> 'a) list" where
  "unlink a xs = filter (\<lambda>(k, _). k \<noteq> a) xs"

lemma fst_put [simp]: "map fst (put a x xs) = map fst xs"
  by (induction xs) auto

lemma fst_set_put [simp]: "fst ` set (put a x xs) = fst ` set xs"
  using arg_cong [OF fst_put, of set a x xs] by (simp only: list.set_map)

lemma put_append: "put a x (xs @ ys) = (if a \<in> fst ` set xs then put a x xs @ ys else xs @ put a x ys)"
  by (induction xs) (auto simp: rev_image_eqI)

lemma map_put_same:
  assumes "map_of xs a = Some y" "g x = g y"
  shows "map (\<lambda>(k, v). (k, g v)) (put a x xs) = map (\<lambda>(k, v). (k, g v)) xs"
  using assms by (induction xs) (auto split: if_splits)

lemma unlink_Nil [simp]: "unlink a [] = []" and unlink_Cons [simp]:
  "unlink a ((k, y) # xs) = (if k = a then unlink a xs else (k, y) # unlink a xs)"
  by (simp_all add: unlink_def)

lemma length_put [simp]: "length (put a x xs) = length xs"
  by (induction xs) auto

lemma map_of_put: "map_of (put a x xs) k = (if k = a then map_option (\<lambda>_. x) (map_of xs k) else map_of xs k)"
  by (induction xs) auto

lemma map_of_put_same [simp]: "map_of xs a = Some y \<Longrightarrow> map_of (put a x xs) a = Some x"
  by (simp add: map_of_put)

lemma map_of_unlink: "map_of (unlink a xs) k = (if k = a then None else map_of xs k)"
  by (induction xs) auto

lemma unlink_notin [simp]: "a \<notin> fst ` set xs \<Longrightarrow> unlink a xs = xs"
  by (induction xs) auto

lemma put_notin [simp]: "a \<notin> fst ` set xs \<Longrightarrow> put a x xs = xs"
  by (induction xs) auto

lemma fst_unlink: "map fst (unlink a xs) = filter (\<lambda>k. k \<noteq> a) (map fst xs)"
  by (induction xs) auto

lemma fst_set_unlink [simp]: "fst ` set (unlink a xs) = fst ` set xs - {a}"
  by (auto simp: unlink_def image_iff)

lemma distinct_unlink: "distinct (map fst xs) \<Longrightarrow> distinct (map fst (unlink a xs))"
  by (simp add: fst_unlink)

lemma set_unlink [simp]: "set (unlink a xs) = {p \<in> set xs. fst p \<noteq> a}"
  by (auto simp: unlink_def)

lemma length_unlink:
  "distinct (map fst xs) \<Longrightarrow> map_of xs a = Some y \<Longrightarrow> length xs = Suc (length (unlink a xs))"
proof (induction xs)
  case (Cons p xs)
  obtain k v where p: "p = (k, v)" by (cases p)
  show ?case
  proof (cases "k = a")
    case True
    then have "unlink a xs = xs" using Cons.prems p by (intro unlink_notin) simp
    then show ?thesis using True p by simp
  next
    case False
    then show ?thesis using Cons p by simp
  qed
qed simp

lemma in_put: "(k, v) \<in> set (put a x xs) \<Longrightarrow> k = a \<and> v = x \<or> (k, v) \<in> set xs"
  by (induction xs) (auto split: if_splits)

text \<open>The invariant of an association list of heap objects: every address once, and below the heap's frontier.\<close>

definition objs_ok :: "addr \<Rightarrow> (addr \<times> 'a) list \<Rightarrow> bool" where
  "objs_ok n xs \<longleftrightarrow> distinct (map fst xs) \<and> (\<forall>a \<in> fst ` set xs. a < n)"

lemma objs_ok_Nil [simp]: "objs_ok n []"
  by (simp add: objs_ok_def)

lemma objs_ok_put [simp]: "objs_ok n (put a x xs) = objs_ok n xs"
  by (simp add: objs_ok_def)

lemma objs_ok_unlink: "objs_ok n xs \<Longrightarrow> objs_ok n (unlink a xs)"
  by (simp add: objs_ok_def distinct_unlink)

lemma objs_ok_fresh: "objs_ok n xs \<Longrightarrow> objs_ok (Suc n) ((n, x) # xs)"
  by (auto simp: objs_ok_def)

lemma objs_ok_mono: "objs_ok n xs \<Longrightarrow> n \<le> m \<Longrightarrow> objs_ok m xs"
  by (auto simp: objs_ok_def)

section \<open>Tunnels by address\<close>

definition get_tun :: "tm_broker \<Rightarrow> addr \<Rightarrow> tm_tunnel option" where
  "get_tun b ta = map_of (b_tunnels b @ b_detached b) ta"

definition put_tun :: "addr \<Rightarrow> tm_tunnel \<Rightarrow> tm_broker \<Rightarrow> tm_broker" where
  "put_tun ta t b =
     (if ta \<in> fst ` set (b_tunnels b) then b\<lparr>b_tunnels := put ta t (b_tunnels b)\<rparr>
      else b\<lparr>b_detached := put ta t (b_detached b)\<rparr>)"

definition all_tuns :: "tm_broker \<Rightarrow> (addr \<times> tm_tunnel) list" where
  "all_tuns b = b_tunnels b @ b_detached b"

lemma all_tuns_put_tun [simp]: "all_tuns (put_tun ta t b) = put ta t (all_tuns b)"
  by (simp add: all_tuns_def put_tun_def put_append)

lemma get_tun_all: "get_tun b ta = map_of (all_tuns b) ta"
  by (simp add: get_tun_def all_tuns_def)

lemma get_put_tun [simp]: "get_tun b ta = Some t \<Longrightarrow> get_tun (put_tun ta t' b) ta = Some t'"
  by (simp add: get_tun_all)

lemma get_put_tun_other [simp]: "k \<noteq> ta \<Longrightarrow> get_tun (put_tun ta t b) k = get_tun b k"
  by (simp add: get_tun_all map_of_put)

end
