(* ===== verification/Streams.thy ===== *)
theory Streams
  imports BrokerTypes
begin

text \<open>
  The streams of the broker: the parts of \<open>broker/src/relay.c\<close> that touch the tunnel's list of
  streams and the broker's counters. The relay handlers of theory \<open>Relay\<close> act on one stream;
  \<open>stream_apply\<close> runs one of them on a linked stream and, when it closed the stream, does the
  bookkeeping \<open>tm_stream_close\<close> does. A closed stream is out of the list; its memory lives until
  the timer's close callback, so a later call on it in the same event is the no-op its
  \<open>closing\<close> test makes it.
\<close>

section \<open>Model\<close>

definition tm_stream_find :: "tm_tunnel \<Rightarrow> u32 \<Rightarrow> addr option" where
  "tm_stream_find t sid = map_option fst (List.find (\<lambda>(_, st). st_id st = sid) (t_streams t))"

definition stream_unlink :: "addr \<Rightarrow> addr \<Rightarrow> tm_broker \<Rightarrow> tm_broker" where
  "stream_unlink ta sa b =
     (case get_tun b ta of
        None \<Rightarrow> b
      | Some t \<Rightarrow>
          (put_tun ta (t\<lparr>t_streams := unlink sa (t_streams t),
                         t_streams_active := (if 0 < t_streams_active t then t_streams_active t - 1
                                              else t_streams_active t)\<rparr>) b)
            \<lparr>b_stream_count := b_stream_count b - 1\<rparr>)"

text \<open>\<open>tm_stream_close\<close> seen from the broker.\<close>

definition stream_close :: "addr \<Rightarrow> addr \<Rightarrow> tm_broker \<Rightarrow> tm_broker" where
  "stream_close ta sa b =
     (stream_unlink ta sa b)\<lparr>b_stream_errors := b_stream_errors b + 1\<rparr>"

definition stream_store :: "addr \<Rightarrow> addr \<Rightarrow> tm_stream \<Rightarrow> tm_broker \<Rightarrow> tm_broker" where
  "stream_store ta sa st b =
     (if st_closing st then stream_close ta sa b
      else case get_tun b ta of
        None \<Rightarrow> b
      | Some t \<Rightarrow> put_tun ta (t\<lparr>t_streams := put sa st (t_streams t)\<rparr>) b)"

definition stream_apply ::
    "addr \<Rightarrow> addr \<Rightarrow> (tm_stream \<Rightarrow> tm_stream option) \<Rightarrow> tm_broker \<Rightarrow> tm_broker option" where
  "stream_apply ta sa f b =
     (case get_tun b ta of
        None \<Rightarrow> None
      | Some t \<Rightarrow>
          (case map_of (t_streams t) sa of
             None \<Rightarrow> Some b
           | Some st \<Rightarrow> (case f st of None \<Rightarrow> None | Some st' \<Rightarrow> Some (stream_store ta sa st' b))))"

text \<open>The read handlers also count the bytes for the tunnel and the broker.\<close>

definition count_rx :: "addr \<Rightarrow> nat \<Rightarrow> tm_broker \<Rightarrow> tm_broker" where
  "count_rx ta n b =
     (case get_tun b ta of
        None \<Rightarrow> b
      | Some t \<Rightarrow> (put_tun ta (t\<lparr>t_rx_bytes := t_rx_bytes t + of_nat n\<rparr>) b)
                    \<lparr>b_rx_bytes_total := b_rx_bytes_total b + of_nat n\<rparr>)"

definition count_tx :: "addr \<Rightarrow> nat \<Rightarrow> tm_broker \<Rightarrow> tm_broker" where
  "count_tx ta n b =
     (case get_tun b ta of
        None \<Rightarrow> b
      | Some t \<Rightarrow> (put_tun ta (t\<lparr>t_tx_bytes := t_tx_bytes t + of_nat n\<rparr>) b)
                    \<lparr>b_tx_bytes_total := b_tx_bytes_total b + of_nat n\<rparr>)"

definition stream_linked :: "tm_broker \<Rightarrow> addr \<Rightarrow> addr \<Rightarrow> bool" where
  "stream_linked b ta sa =
     (case get_tun b ta of None \<Rightarrow> False | Some t \<Rightarrow> map_of (t_streams t) sa \<noteq> None)"

definition broker_a_read :: "addr \<Rightarrow> addr \<Rightarrow> bytes \<Rightarrow> tm_broker \<Rightarrow> tm_broker option" where
  "broker_a_read ta sa data b =
     stream_apply ta sa (relay_a_read data)
       (if stream_linked b ta sa then count_rx ta (length data) b else b)"

definition broker_b_read :: "addr \<Rightarrow> addr \<Rightarrow> bytes \<Rightarrow> tm_broker \<Rightarrow> tm_broker option" where
  "broker_b_read ta sa data b =
     stream_apply ta sa (relay_b_read data)
       (if stream_linked b ta sa then count_tx ta (length data) b else b)"

text \<open>A new stream: all fields zero but the given ones.\<close>

definition stream_new :: "u32 \<Rightarrow> tm_io option \<Rightarrow> u64 \<Rightarrow> tm_stream" where
  "stream_new sid io_a now =
     \<lparr>st_id = sid, st_sock = (\<lambda>l. l = LegA), st_bind_timer = True,
      st_io = (\<lambda>l. if l = LegA then io_a else None), st_bound = False, st_eof = (\<lambda>_. False),
      st_closing = False, st_paused = (\<lambda>_. False), st_start_ms = now, st_bytes = (\<lambda>_. 0),
      st_peer_addr = SaUnspec, st_preq = [], st_preq_cap = 0, st_pend = (\<lambda>_. []),
      st_pend_cap = (\<lambda>_. 0), st_fin = (\<lambda>_. False), st_flushing = (\<lambda>_. False)\<rparr>"

definition stream_link :: "addr \<Rightarrow> tm_stream \<Rightarrow> tm_broker \<Rightarrow> addr \<times> tm_broker" where
  "stream_link ta st b =
     (case get_tun b ta of
        None \<Rightarrow> (b_heap b, b)
      | Some t \<Rightarrow>
          (b_heap b,
           (put_tun ta (t\<lparr>t_streams := (b_heap b, st) # t_streams t,
                          t_streams_active := t_streams_active t + 1,
                          t_streams_total := t_streams_total t + 1\<rparr>) b)
             \<lparr>b_stream_count := b_stream_count b + 1, b_streams_total := b_streams_total b + 1,
              b_heap := Suc (b_heap b)\<rparr>))"

definition sid_of :: "u64 \<Rightarrow> u32" where
  "sid_of n = (let i = ucast (n AND 0x7FFFFFFF) in if i = 0 then 1 else i)"

definition stream_full :: "tm_broker \<Rightarrow> tm_tunnel \<Rightarrow> bool" where
  "stream_full b t \<longleftrightarrow> cfg_max_streams (b_cfg b) \<le> b_stream_count b \<or>
     cfg_max_streams_per_tunnel (b_cfg b) \<le> t_streams_active t"

definition tm_stream_create_open :: "u64 \<Rightarrow> addr \<Rightarrow> tm_broker \<Rightarrow> (addr option \<times> tm_broker) option" where
  "tm_stream_create_open now ta b =
     (case get_tun b ta of
        None \<Rightarrow> None
      | Some t \<Rightarrow>
          if stream_full b t then Some (None, b)
          else case stream_link ta (stream_new (sid_of (b_sid_counter b)) None now)
                      (b\<lparr>b_sid_counter := b_sid_counter b + 1\<rparr>) of
            (sa, b) \<Rightarrow> Some (Some sa, b))"

definition tm_stream_create_closed ::
    "u64 \<Rightarrow> addr \<Rightarrow> tm_io option \<Rightarrow> tm_broker \<Rightarrow> (addr option \<times> tm_broker) option" where
  "tm_stream_create_closed now ta peer_io b =
     (case get_tun b ta of
        None \<Rightarrow> None
      | Some t \<Rightarrow>
          if stream_full b t then Some (None, b)
          else case stream_link ta
                      (stream_new (sid_of (b_sid_counter2 b)) (tm_io_set_cbs peer_io True True) now)
                      (b\<lparr>b_sid_counter2 := b_sid_counter2 b + 1\<rparr>) of
            (sa, b) \<Rightarrow> Some (Some sa, b))"

section \<open>Accounting of streams\<close>

definition tun_streams_ok :: "addr \<Rightarrow> tm_tunnel \<Rightarrow> bool" where
  "tun_streams_ok n t \<longleftrightarrow>
     t_streams_active t = int (length (t_streams t)) \<and> objs_ok n (t_streams t) \<and>
     (\<forall>(_, st) \<in> set (t_streams t). \<not> st_closing st)"

text \<open>
  Every tunnel counts its linked streams, the broker counts all of them, and no linked stream is
  closed.
\<close>

definition streams_inv :: "tm_broker \<Rightarrow> bool" where
  "streams_inv b \<longleftrightarrow>
     objs_ok (b_heap b) (all_tuns b) \<and>
     (\<forall>(_, t) \<in> set (all_tuns b). tun_streams_ok (b_heap b) t) \<and>
     b_stream_count b = (\<Sum>(_, t)\<leftarrow>all_tuns b. int (length (t_streams t)))"

lemma all_tuns_update [simp]:
  "all_tuns (b\<lparr>b_stream_count := n\<rparr>) = all_tuns b" "all_tuns (b\<lparr>b_streams_total := m\<rparr>) = all_tuns b"
  "all_tuns (b\<lparr>b_heap := a\<rparr>) = all_tuns b" "all_tuns (b\<lparr>b_stream_errors := m\<rparr>) = all_tuns b"
  by (simp_all add: all_tuns_def)

lemma put_tun_fields [simp]:
  "b_heap (put_tun ta t b) = b_heap b" "b_stream_count (put_tun ta t b) = b_stream_count b"
  "b_cfg (put_tun ta t b) = b_cfg b"
  by (simp_all add: put_tun_def)

lemma sum_put:
  fixes f :: "'a \<Rightarrow> int"
  assumes "distinct (map fst xs)" "map_of xs a = Some y"
  shows "(\<Sum>(_, v)\<leftarrow>put a x xs. f v) = (\<Sum>(_, v)\<leftarrow>xs. f v) - f y + f x"
  using assms
proof (induction xs)
  case (Cons p xs)
  obtain k v where p: "p = (k, v)" by (cases p)
  show ?case
  proof (cases "k = a")
    case True
    then have "put a x xs = xs" using Cons.prems p by (intro put_notin) simp
    then show ?thesis using True Cons.prems p by simp
  next
    case False
    then show ?thesis using Cons p by simp
  qed
qed simp

lemma streams_inv_all:
  "streams_inv b \<Longrightarrow> get_tun b ta = Some t \<Longrightarrow> tun_streams_ok (b_heap b) t"
  by (auto simp: streams_inv_def get_tun_all dest: map_of_SomeD)

lemma tun_streams_ok_mono: "tun_streams_ok n t \<Longrightarrow> n \<le> m \<Longrightarrow> tun_streams_ok m t"
  by (auto simp: tun_streams_ok_def intro: objs_ok_mono)

text \<open>Replacing a tunnel, with the broker's counter moved by the change in its number of streams.\<close>

lemma streams_inv_replace:
  assumes inv: "streams_inv b" and t: "get_tun b ta = Some t" and ok: "tun_streams_ok n t'"
    and n: "b_heap b \<le> n"
    and b': "all_tuns b' = put ta t' (all_tuns b)" "b_heap b' = n"
      "b_stream_count b' = b_stream_count b - int (length (t_streams t)) + int (length (t_streams t'))"
  shows "streams_inv b'"
proof -
  have objs: "objs_ok (b_heap b) (all_tuns b)"
    and all: "\<And>k u. (k, u) \<in> set (all_tuns b) \<Longrightarrow> tun_streams_ok (b_heap b) u"
    and count: "b_stream_count b = (\<Sum>(_, t)\<leftarrow>all_tuns b. int (length (t_streams t)))"
    using inv by (auto simp: streams_inv_def)
  have "(\<Sum>(_, t)\<leftarrow>put ta t' (all_tuns b). int (length (t_streams t))) = b_stream_count b'"
    using sum_put [of "all_tuns b" ta t "\<lambda>t. int (length (t_streams t))" t'] t count objs b'(3)
    by (simp add: get_tun_all objs_ok_def)
  moreover have "tun_streams_ok n u" if "(k, u) \<in> set (put ta t' (all_tuns b))" for k u
    using in_put [OF that] ok all tun_streams_ok_mono [OF _ n] by auto
  ultimately show ?thesis
    using objs_ok_mono [OF objs n] b' by (auto simp: streams_inv_def)
qed

lemma streams_inv_put_tun:
  assumes "streams_inv b" "get_tun b ta = Some t"
    and "t_streams t' = t_streams t" "t_streams_active t' = t_streams_active t"
  shows "streams_inv (put_tun ta t' b)"
  by (rule streams_inv_replace [OF assms(1,2), where n = "b_heap b" and t' = t'])
    (use assms streams_inv_all [OF assms(1,2)] in \<open>simp_all add: tun_streams_ok_def\<close>)

text \<open>The invariant only reads the tunnels, the heap and the counter.\<close>

lemma streams_inv_cong:
  "all_tuns b' = all_tuns b \<Longrightarrow> b_heap b' = b_heap b \<Longrightarrow> b_stream_count b' = b_stream_count b \<Longrightarrow>
   streams_inv b' = streams_inv b"
  by (simp add: streams_inv_def)

lemma stream_close_inv:
  assumes inv: "streams_inv b" and t: "get_tun b ta = Some t" and st: "map_of (t_streams t) sa = Some st"
  shows "streams_inv (stream_close ta sa b)"
proof -
  have ok: "tun_streams_ok (b_heap b) t" by (rule streams_inv_all [OF inv t])
  then have len: "length (t_streams t) = Suc (length (unlink sa (t_streams t)))"
    using length_unlink [OF _ st] by (simp add: tun_streams_ok_def objs_ok_def)
  show ?thesis
    by (rule streams_inv_replace [OF inv t, where n = "b_heap b" and
          t' = "t\<lparr>t_streams := unlink sa (t_streams t), t_streams_active := t_streams_active t - 1\<rparr>"])
      (use ok len t in \<open>auto simp: stream_close_def stream_unlink_def tun_streams_ok_def objs_ok_unlink\<close>)
qed

lemma stream_store_inv:
  assumes inv: "streams_inv b" and t: "get_tun b ta = Some t" and st: "map_of (t_streams t) sa = Some st"
  shows "streams_inv (stream_store ta sa st' b)"
proof (cases "st_closing st'")
  case True
  then show ?thesis using stream_close_inv [OF inv t st] by (simp add: stream_store_def)
next
  case False
  have ok: "tun_streams_ok (b_heap b) t" by (rule streams_inv_all [OF inv t])
  then have "tun_streams_ok (b_heap b) (t\<lparr>t_streams := put sa st' (t_streams t)\<rparr>)"
    using False by (auto simp: tun_streams_ok_def dest: in_put)
  from streams_inv_replace [OF inv t this] show ?thesis
    using False t by (simp add: stream_store_def)
qed

lemma stream_apply_inv:
  "streams_inv b \<Longrightarrow> stream_apply ta sa f b = Some b' \<Longrightarrow> streams_inv b'"
  by (auto simp: stream_apply_def intro: stream_store_inv split: option.splits)

lemma stream_link_inv:
  assumes inv: "streams_inv b" and t: "get_tun b ta = Some t" and st: "\<not> st_closing st"
  shows "streams_inv (snd (stream_link ta st b))"
proof -
  have "tun_streams_ok (Suc (b_heap b))
      (t\<lparr>t_streams := (b_heap b, st) # t_streams t, t_streams_active := t_streams_active t + 1,
         t_streams_total := t_streams_total t + 1\<rparr>)"
    using streams_inv_all [OF inv t] st by (auto simp: tun_streams_ok_def objs_ok_fresh)
  from streams_inv_replace [OF inv t this] show ?thesis
    using t by (simp add: stream_link_def)
qed

end
