(* ===== verification/UdpPlane.thy ===== *)
theory UdpPlane
  imports Streams
begin

text \<open>
  \<open>broker/src/udp.c\<close>: the UDP side of a tunnel. The functions act on the broker (its counters and
  configuration) and the tunnel they were called for, which is the pair \<open>ut\<close>; a session is given
  by its address \<open>sa\<close> in the tunnel's list. OpenSSL's answers are the tapes of the session (past
  their end \<open>SSL_write\<close> wants more I/O and the BIO is empty), what it decrypts is an argument of the
  receiving functions, and libuv's answers are the tape of the tunnel. HMAC and SHA-256 are in
  \<open>crypto\<close>. The clock is read once per event.
\<close>

section \<open>Sending\<close>

type_synonym ut = "tm_broker \<times> tm_tunnel"

record crypto =
  hmac_sha256 :: "bytes \<Rightarrow> bytes \<Rightarrow> bytes"
  sha256 :: "bytes \<Rightarrow> bytes"

text \<open>The stored form of a secret: \<open>tm_hmac_sha256\<close> followed by \<open>tm_sha256_hex\<close>.\<close>

definition credential :: "crypto \<Rightarrow> tm_broker \<Rightarrow> bytes \<Rightarrow> bytes" where
  "credential cr b secret = tm_sha256_hex (sha256 cr) (hmac_sha256 cr (b_hmac_key b) secret)"

text \<open>\<open>(size_t)x\<close> and \<open>(uint32_t)x\<close> of a \<open>long long\<close>.\<close>

definition size_of :: "int \<Rightarrow> nat" where
  "size_of x = nat (x mod 2 ^ 64)"

definition u32_of :: "int \<Rightarrow> nat" where
  "u32_of x = nat (x mod 2 ^ 32)"

definition TM_ENV_HDR_LEN :: nat where "TM_ENV_HDR_LEN = 11"

definition udp_send_raw :: "udp_out \<Rightarrow> ut \<Rightarrow> ut" where
  "udp_send_raw out bt =
     (case bt of (b, t) \<Rightarrow>
        if size_of (cfg_udp_queue_packets (b_cfg b)) \<le> t_udp_raw_inflight t
        then (b\<lparr>b_udp_dropped_queue_full := b_udp_dropped_queue_full b + 1\<rparr>, t)
        else
          let ok = (case t_uv t of [] \<Rightarrow> True | r # _ \<Rightarrow> r);
              t = t\<lparr>t_uv := tl (t_uv t)\<rparr>
          in if ok then (b, t\<lparr>t_udp_raw_inflight := t_udp_raw_inflight t + 1, t_out := t_out t @ [out]\<rparr>)
             else (b\<lparr>b_udp_transport_errors := b_udp_transport_errors b + 1\<rparr>, t))"

abbreviation get_session :: "addr \<Rightarrow> tm_tunnel \<Rightarrow> tm_udp_session option" where
  "get_session sa t \<equiv> map_of (t_udp_sessions t) sa"

abbreviation put_session :: "addr \<Rightarrow> tm_udp_session \<Rightarrow> tm_tunnel \<Rightarrow> tm_tunnel" where
  "put_session sa s t \<equiv> t\<lparr>t_udp_sessions := put sa s (t_udp_sessions t)\<rparr>"

text \<open>The next answer of \<open>SSL_write\<close>.\<close>

definition dtls_write :: "tm_udp_session \<Rightarrow> dtls_ans \<times> tm_udp_session" where
  "dtls_write s = (case s_sw s of [] \<Rightarrow> (DwWant, s) | a # as \<Rightarrow> (a, s\<lparr>s_sw := as\<rparr>))"

text \<open>
  The loop of \<open>pump_out\<close>, which runs at most once: the session after it, or \<open>None\<close> where the function
  returns.
\<close>

definition pump_take :: "tm_udp_session \<Rightarrow> tm_udp_session option \<times> tm_udp_session" where
  "pump_take s =
     (let len = length (s_outq s); off = s_outq_off s in
      if \<not> off < len then (Some s, s)
      else if len - off < 4 then (None, s)
      else
        let plen = unat (rd_u32 (drop off (s_outq s))) in
        if len - off - 4 < plen then (None, s)
        else
          let (w, s) = dtls_write s in
          if w = DwWant then (Some s, s)
          else if w = DwFail then (None, s)
          else
            let n = (case w of DwPart n \<Rightarrow> n | _ \<Rightarrow> plen);
                s = s\<lparr>s_plain := s_plain s @ [take n (drop (off + 4) (s_outq s))]\<rparr>
            in if n \<noteq> plen then (None, s)
               else (Some (s\<lparr>s_outq_off := off + 4 + plen,
                             s_outq_packets := s_outq_packets s - 1\<rparr>), s))"

definition pump_wrap :: "tm_udp_session \<Rightarrow> tm_udp_session" where
  "pump_wrap s = (if s_outq_off s = length (s_outq s) then s\<lparr>s_outq := [], s_outq_off := 0\<rparr> else s)"

text \<open>The end of \<open>pump_out\<close>: send the record the BIO has, if any.\<close>

definition pump_emit :: "addr \<Rightarrow> tm_udp_session \<Rightarrow> ut \<Rightarrow> ut" where
  "pump_emit sa s bt =
     (case bt of (b, t) \<Rightarrow>
        let n = (case s_bio s of [] \<Rightarrow> False | a # _ \<Rightarrow> a);
            s = s\<lparr>s_bio := tl (s_bio s)\<rparr>
        in if \<not> n then (b, put_session sa s t)
           else (case udp_send_raw (OutRecord sa) (b, t) of (b, t) \<Rightarrow>
             (b\<lparr>b_datagrams_tx_total := b_datagrams_tx_total b + 1\<rparr>,
              put_session sa (s\<lparr>s_inflight := True, s_pkts_tx := s_pkts_tx s + 1\<rparr>)
                (t\<lparr>t_datagrams_tx := t_datagrams_tx t + 1\<rparr>))))"

definition pump_out :: "addr \<Rightarrow> ut \<Rightarrow> ut" where
  "pump_out sa bt =
     (case bt of (b, t) \<Rightarrow>
        (case get_session sa t of
           None \<Rightarrow> (b, t)
         | Some s \<Rightarrow>
             if s_closing s \<or> s_inflight s then (b, t)
             else (case pump_take s of
                 (None, s) \<Rightarrow> (b, put_session sa s t)
               | (Some s, _) \<Rightarrow> pump_emit sa (pump_wrap s) (b, t))))"

text \<open>The copy of an envelope into the session's queue, compacting before it grows.\<close>

definition queue_append :: "bytes \<Rightarrow> tm_udp_session \<Rightarrow> tm_udp_session" where
  "queue_append data s =
     (let need = 4 + length data;
          s = (if s_outq_cap s < length (s_outq s) + need then
                 let s = (if s_outq_off s \<noteq> 0
                          then s\<lparr>s_outq := drop (s_outq_off s) (s_outq s), s_outq_off := 0\<rparr> else s)
                 in if s_outq_cap s < length (s_outq s) + need
                    then s\<lparr>s_outq_cap := grow_cap (if s_outq_cap s \<noteq> 0 then s_outq_cap s * 2 else 4096)
                                            (length (s_outq s) + need)\<rparr>
                    else s
               else s)
      in s\<lparr>s_outq := s_outq s @ wr_u32 (of_nat (length data)) @ data,
           s_outq_packets := s_outq_packets s + 1\<rparr>)"

definition queue_limit :: "tm_broker_cfg \<Rightarrow> nat" where
  "queue_limit cfg =
     (size_of (cfg_udp_queue_packets cfg) * (size_of (cfg_udp_max_datagram_size cfg) + 15)) mod 2 ^ 64"

definition queue_admits :: "tm_broker_cfg \<Rightarrow> nat \<Rightarrow> tm_udp_session \<Rightarrow> bool" where
  "queue_admits cfg len s \<longleftrightarrow>
     \<not> (size_of (cfg_udp_queue_packets cfg) \<le> s_outq_packets s \<or> 2 ^ 32 \<le> len \<or>
        queue_limit cfg < length (s_outq s) - s_outq_off s + 4 + len)"

definition session_queue :: "addr \<Rightarrow> bytes \<Rightarrow> ut \<Rightarrow> ut" where
  "session_queue sa data bt =
     (case bt of (b, t) \<Rightarrow>
        (case get_session sa t of
           None \<Rightarrow> (b, t)
         | Some s \<Rightarrow>
             if s_closing s then (b, t)
             else if \<not> queue_admits (b_cfg b) (length data) s
             then (b\<lparr>b_udp_dropped_queue_full := b_udp_dropped_queue_full b + 1\<rparr>, t)
             else pump_out sa (b, put_session sa (queue_append data s) t)))"

section \<open>The flow table\<close>

definition flow_find :: "tm_tunnel \<Rightarrow> u64 \<Rightarrow> (addr \<times> tm_udp_flow) option" where
  "flow_find t flow_id = List.find (\<lambda>(_, f). fl_flow_id f = flow_id) (t_udp_flows t)"

definition flow_find_peer :: "tm_tunnel \<Rightarrow> addr \<Rightarrow> u64 \<Rightarrow> (addr \<times> tm_udp_flow) option" where
  "flow_find_peer t sa src_flow_id =
     List.find (\<lambda>(_, f). fl_from_peer_session f \<and> fl_peer_session f = Some sa \<and>
                         fl_src_flow_id f = src_flow_id) (t_udp_flows t)"

definition flow_find_src :: "tm_tunnel \<Rightarrow> sockaddr \<Rightarrow> (addr \<times> tm_udp_flow) option" where
  "flow_find_src t ad =
     List.find (\<lambda>(_, f). \<not> fl_from_peer_session f \<and> tm_addr_eq (Some (fl_src f)) (Some ad))
       (t_udp_flows t)"

definition flow_unlink :: "addr \<Rightarrow> tm_tunnel \<Rightarrow> tm_tunnel" where
  "flow_unlink fa t = t\<lparr>t_udp_flows := unlink fa (t_udp_flows t)\<rparr>"

definition tm_udp_flow_expire :: "addr \<Rightarrow> ut \<Rightarrow> ut" where
  "tm_udp_flow_expire fa bt =
     (case bt of (b, t) \<Rightarrow>
        (b\<lparr>b_udp_flow_expired := b_udp_flow_expired b + 1\<rparr>, flow_unlink fa t))"

definition flow_count :: "tm_tunnel \<Rightarrow> nat" where
  "flow_count t = length (t_udp_flows t)"

definition flow_new :: "u64 \<Rightarrow> bool \<Rightarrow> addr option \<Rightarrow> u64 \<Rightarrow> sockaddr \<Rightarrow> ut \<Rightarrow> (addr \<times> tm_udp_flow) \<times> ut" where
  "flow_new now from_peer ps src_flow_id src bt =
     (case bt of (b, t) \<Rightarrow>
        let t = (if t_next_flow_id t = 0 then t\<lparr>t_next_flow_id := 1\<rparr> else t);
            f = \<lparr>fl_flow_id = t_next_flow_id t, fl_src_flow_id = src_flow_id,
                 fl_from_peer_session = from_peer, fl_src = src, fl_peer_session = ps,
                 fl_last_seen_ms = now, fl_pkts_rx = 0, fl_pkts_tx = 0, fl_bytes_rx = 0,
                 fl_bytes_tx = 0, fl_pkt_win_start = 0, fl_pkt_win_count = 0\<rparr>;
            fa = b_heap b
        in ((fa, f),
            b\<lparr>b_flows_total := b_flows_total b + 1, b_heap := Suc fa\<rparr>,
            t\<lparr>t_next_flow_id := t_next_flow_id t + 1, t_udp_flows := (fa, f) # t_udp_flows t\<rparr>))"

definition tunnel_pkt_limit :: "u64 \<Rightarrow> ut \<Rightarrow> bool \<times> ut" where
  "tunnel_pkt_limit now bt =
     (case bt of (b, t) \<Rightarrow>
        (case rate_check (cfg_udp_max_packets_per_tunnel (b_cfg b)) now
                (t_udp_pkt_win_start t, t_udp_pkt_win_count t) of
           (ok, ws, wc) \<Rightarrow> (ok, b, t\<lparr>t_udp_pkt_win_start := ws, t_udp_pkt_win_count := wc\<rparr>)))"

text \<open>The rate of new flows and sessions, shared by their three callers.\<close>

definition creation_limit :: "u64 \<Rightarrow> ut \<Rightarrow> bool \<times> ut" where
  "creation_limit now bt =
     (case bt of (b, t) \<Rightarrow>
        (case rate_check (cfg_udp_flow_creation_rate (b_cfg b)) now
                (t_udp_flow_created_win_start t, t_udp_flow_created_win_count t) of
           (ok, ws, wc) \<Rightarrow>
             (ok, b, t\<lparr>t_udp_flow_created_win_start := ws, t_udp_flow_created_win_count := wc\<rparr>)))"

abbreviation drop_rate_limit :: "ut \<Rightarrow> ut" where
  "drop_rate_limit bt \<equiv>
     (case bt of (b, t) \<Rightarrow> (b\<lparr>b_udp_dropped_rate_limit := b_udp_dropped_rate_limit b + 1\<rparr>, t))"

section \<open>Sessions\<close>

definition tm_udp_session_close :: "addr \<Rightarrow> ut \<Rightarrow> ut" where
  "tm_udp_session_close sa bt =
     (case bt of (b, t) \<Rightarrow>
        (case get_session sa t of
           None \<Rightarrow> (b, t)
         | Some s \<Rightarrow>
             let gone = filter (\<lambda>(_, f). fl_peer_session f = Some sa) (t_udp_flows t);
                 (b, t) = foldl (\<lambda>bt (fa, _). tm_udp_flow_expire fa bt) (b, t) gone
             in (b\<lparr>b_zombies := (sa, s\<lparr>s_closing := True\<rparr>) # b_zombies b\<rparr>,
                 t\<lparr>t_udp_sessions := unlink sa (t_udp_sessions t),
                   t_agent_session := (if t_agent_session t = Some sa then None
                                       else t_agent_session t)\<rparr>)))"

text \<open>\<open>session_create\<close> with a working OpenSSL; \<open>sw\<close> and \<open>bio\<close> are the tapes of the new session.\<close>

definition session_create :: "dtls_ans list \<Rightarrow> bool list \<Rightarrow> u64 \<Rightarrow> sockaddr \<Rightarrow> ut \<Rightarrow> addr \<times> ut" where
  "session_create sw bio now peer bt =
     (case bt of (b, t) \<Rightarrow>
        let s = \<lparr>s_peer = peer, s_is_agent = False, s_authenticated = False, s_handshake_done = False,
                 s_inflight = False, s_closing = False, s_timer_closed = False, s_last_rx_ms = now,
                 s_pkts_rx = 0, s_pkts_tx = 0, s_pkt_win_start = 0, s_pkt_win_count = 0,
                 s_outq = [], s_outq_cap = 0, s_outq_off = 0, s_outq_packets = 0,
                 s_sw = sw, s_bio = bio, s_plain = []\<rparr>
        in (b_heap b, b\<lparr>b_heap := Suc (b_heap b)\<rparr>,
            t\<lparr>t_udp_sessions := (b_heap b, s) # t_udp_sessions t\<rparr>))"

section \<open>Forwarding\<close>

definition forward_to_agent :: "u64 \<Rightarrow> bytes \<Rightarrow> ut \<Rightarrow> ut" where
  "forward_to_agent flow_id payload bt =
     (case bt of (b, t) \<Rightarrow>
        (case Option.bind (t_agent_session t)
                (\<lambda>sa. map_option (Pair sa) (get_session sa t)) of
           None \<Rightarrow> (b\<lparr>b_udp_dropped_no_flow := b_udp_dropped_no_flow b + 1\<rparr>, t)
         | Some (sa, s) \<Rightarrow>
             if \<not> s_authenticated s
             then (b\<lparr>b_udp_dropped_no_flow := b_udp_dropped_no_flow b + 1\<rparr>, t)
             else if u32_of (cfg_udp_max_datagram_size (b_cfg b)) < length payload
             then (b\<lparr>b_udp_dropped_oversize := b_udp_dropped_oversize b + 1\<rparr>, t)
             else session_queue sa (tm_env_encode flow_id 0 payload) (b, t)))"

definition forward_to_peer :: "tm_udp_flow \<Rightarrow> bytes \<Rightarrow> ut \<Rightarrow> ut" where
  "forward_to_peer f payload bt =
     (case bt of (b, t) \<Rightarrow>
        if u32_of (cfg_udp_max_datagram_size (b_cfg b)) < length payload
        then (b\<lparr>b_udp_dropped_oversize := b_udp_dropped_oversize b + 1\<rparr>, t)
        else if fl_from_peer_session f then
          (case fl_peer_session f of
             None \<Rightarrow> (b, t)
           | Some sa \<Rightarrow> session_queue sa (tm_env_encode (fl_src_flow_id f) 0 payload) (b, t))
        else (case udp_send_raw (OutPlain (fl_src f) payload) (b, t) of (b, t) \<Rightarrow>
          (b\<lparr>b_datagrams_tx_total := b_datagrams_tx_total b + 1,
             b_udp_bytes_tx := b_udp_bytes_tx b + of_nat (length payload)\<rparr>,
           t\<lparr>t_datagrams_tx := t_datagrams_tx t + 1,
             t_udp_bytes_tx := t_udp_bytes_tx t + of_nat (length payload)\<rparr>)))"

text \<open>The counters of a datagram received for flow \<open>f\<close> at \<open>fa\<close>.\<close>

definition flow_seen :: "u64 \<Rightarrow> addr \<Rightarrow> tm_udp_flow \<Rightarrow> nat \<Rightarrow> ut \<Rightarrow> ut" where
  "flow_seen now fa f plen bt =
     (case bt of (b, t) \<Rightarrow>
        (b\<lparr>b_datagrams_rx_total := b_datagrams_rx_total b + 1,
           b_udp_bytes_rx := b_udp_bytes_rx b + of_nat plen\<rparr>,
         t\<lparr>t_udp_flows := put fa (f\<lparr>fl_last_seen_ms := now, fl_pkts_rx := fl_pkts_rx f + 1,
                                     fl_bytes_rx := fl_bytes_rx f + of_nat plen\<rparr>) (t_udp_flows t),
           t_datagrams_rx := t_datagrams_rx t + 1,
           t_udp_bytes_rx := t_udp_bytes_rx t + of_nat plen\<rparr>))"

definition agent_session_env :: "u64 \<Rightarrow> u64 \<Rightarrow> bytes \<Rightarrow> ut \<Rightarrow> ut" where
  "agent_session_env now flow_id payload bt =
     (if flow_id = 0 then bt
      else case bt of (b, t) \<Rightarrow>
        (case flow_find t flow_id of
           None \<Rightarrow> (b\<lparr>b_udp_dropped_no_flow := b_udp_dropped_no_flow b + 1\<rparr>, t)
         | Some (fa, f) \<Rightarrow> forward_to_peer f payload (flow_seen now fa f (length payload) (b, t))))"

text \<open>A datagram for a flow that is found or, within the limits, created; shared by peers and clients.\<close>

definition flow_deliver ::
    "u64 \<Rightarrow> (addr \<times> tm_udp_flow) option \<Rightarrow> (ut \<Rightarrow> (addr \<times> tm_udp_flow) \<times> ut) \<Rightarrow> bytes \<Rightarrow> ut \<Rightarrow> ut" where
  "flow_deliver now found create payload bt =
     (case found of
        Some (fa, f) \<Rightarrow> forward_to_agent (fl_flow_id f) payload (flow_seen now fa f (length payload) bt)
      | None \<Rightarrow>
          (case creation_limit now bt of (ok, b, t) \<Rightarrow>
             if \<not> ok \<or> size_of (cfg_udp_max_flows_per_tunnel (b_cfg b)) \<le> flow_count t
             then drop_rate_limit (b, t)
             else (case create (b, t) of ((fa, f), bt) \<Rightarrow>
               forward_to_agent (fl_flow_id f) payload (flow_seen now fa f (length payload) bt))))"

definition peer_session_env :: "u64 \<Rightarrow> addr \<Rightarrow> u64 \<Rightarrow> bytes \<Rightarrow> ut \<Rightarrow> ut" where
  "peer_session_env now sa flow_id payload bt =
     (case bt of (b, t) \<Rightarrow>
        (case get_session sa t of
           None \<Rightarrow> (b, t)
         | Some s \<Rightarrow>
             (case rate_check (cfg_udp_max_packets_per_source (b_cfg b)) now
                     (s_pkt_win_start s, s_pkt_win_count s) of
                (ok, ws, wc) \<Rightarrow>
                  let t = put_session sa (s\<lparr>s_pkt_win_start := ws, s_pkt_win_count := wc\<rparr>) t in
                  if \<not> ok then drop_rate_limit (b, t)
                  else (case tunnel_pkt_limit now (b, t) of (ok, b, t) \<Rightarrow>
                    if \<not> ok then drop_rate_limit (b, t)
                    else if flow_id = 0 then (b, t)
                    else flow_deliver now (flow_find_peer t sa flow_id)
                           (flow_new now True (Some sa) flow_id SaUnspec) payload (b, t)))))"

definition open_client_datagram :: "u64 \<Rightarrow> sockaddr \<Rightarrow> bytes \<Rightarrow> ut \<Rightarrow> ut" where
  "open_client_datagram now ad payload bt =
     (case tunnel_pkt_limit now bt of (ok, b, t) \<Rightarrow>
        if \<not> ok then drop_rate_limit (b, t)
        else flow_deliver now (flow_find_src t ad) (flow_new now False None 0 ad) payload (b, t))"

definition looks_like_dtls :: "bytes \<Rightarrow> bool" where
  "looks_like_dtls d \<longleftrightarrow>
     \<not> length d < 13 \<and> 20 \<le> d ! 0 \<and> d ! 0 \<le> 23 \<and> d ! 1 = 0xFE \<and>
     (d ! 2 = 0xFF \<or> d ! 2 = 0xFD \<or> d ! 2 = 0xFC)"

section \<open>Authentication and dispatch of a session's messages\<close>

abbreviation failed_auth :: "ut \<Rightarrow> ut" where
  "failed_auth bt \<equiv> (case bt of (b, t) \<Rightarrow> (b\<lparr>b_failed_auths := b_failed_auths b + 1\<rparr>, t))"

definition replace_agent_session :: "addr \<Rightarrow> ut \<Rightarrow> ut" where
  "replace_agent_session sa bt =
     (case (case t_agent_session (snd bt) of
              Some old \<Rightarrow> if old \<noteq> sa then tm_udp_session_close old bt else bt
            | None \<Rightarrow> bt) of
        (b, t) \<Rightarrow> (b, t\<lparr>t_agent_session := Some sa\<rparr>))"

definition session_authed :: "addr \<Rightarrow> bool \<Rightarrow> ut \<Rightarrow> ut" where
  "session_authed sa is_agent bt =
     (case bt of (b, t) \<Rightarrow>
        (case get_session sa t of
           None \<Rightarrow> (b, t)
         | Some s \<Rightarrow>
             let t = put_session sa (s\<lparr>s_authenticated := True, s_is_agent := is_agent\<rparr>) t
             in session_queue sa (tm_env_encode 0 TM_ENV_FLAG_AUTH_OK [])
                  (if is_agent then replace_agent_session sa (b, t) else (b, t))))"

function session_appdata :: "crypto \<Rightarrow> u64 \<Rightarrow> addr \<Rightarrow> bytes \<Rightarrow> ut \<Rightarrow> ut" where
  "session_appdata cr now sa data bt =
     (case get_session sa (snd bt) of
        None \<Rightarrow> bt
      | Some s \<Rightarrow>
          if \<not> s_authenticated s then
            if length data < TM_ENV_HDR_LEN \<or> data ! 0 \<noteq> 0 then failed_auth bt
            else (case tm_env_decode data of
                None \<Rightarrow> failed_auth bt
              | Some (flow_id, flags, payload) \<Rightarrow>
                  if flags AND TM_ENV_FLAG_AUTH_REQ = 0 \<or> payload = [] \<or> TM_MAX_SECRET < length payload
                  then failed_auth bt
                  else
                    let hex = credential cr (fst bt) payload;
                        is_agent = tm_ct_eq_hex hex (t_agent_secret_hmac (snd bt));
                        is_peer = (\<not> is_agent \<and> t_closed (snd bt) \<and>
                                   t_shared_token_hmac (snd bt) \<noteq> [] \<and>
                                   tm_ct_eq_hex hex (t_shared_token_hmac (snd bt)))
                    in if \<not> is_agent \<and> \<not> is_peer
                       then session_queue sa (tm_env_encode 0 TM_ENV_FLAG_AUTH_ERR []) (failed_auth bt)
                       else
                         let bt = session_authed sa is_agent bt;
                             off = TM_ENV_HDR_LEN + length payload
                         in if off < length data then session_appdata cr now sa (drop off data) bt else bt)
          else if length data < TM_ENV_HDR_LEN \<or> data ! 0 \<noteq> 0
          then (case bt of (b, t) \<Rightarrow> (b\<lparr>b_protocol_errors := b_protocol_errors b + 1\<rparr>, t))
          else (case tm_env_decode data of
              None \<Rightarrow> (case bt of (b, t) \<Rightarrow> (b\<lparr>b_protocol_errors := b_protocol_errors b + 1\<rparr>, t))
            | Some (flow_id, flags, payload) \<Rightarrow>
                if s_is_agent s then agent_session_env now flow_id payload bt
                else peer_session_env now sa flow_id payload bt))"
  by pat_completeness auto
termination
  by (relation "measure (\<lambda>(_, _, _, data, _). length data)") (auto simp: TM_ENV_HDR_LEN_def)

declare session_appdata.simps [simp del]

text \<open>\<open>drain_ssl\<close>: \<open>msgs\<close> are the application messages OpenSSL decrypts, in order.\<close>

fun drain_ssl :: "crypto \<Rightarrow> u64 \<Rightarrow> addr \<Rightarrow> bytes list \<Rightarrow> ut \<Rightarrow> ut" where
  "drain_ssl cr now sa [] bt = bt"
| "drain_ssl cr now sa (m # ms) bt = drain_ssl cr now sa ms (session_appdata cr now sa m bt)"

datatype accept_ans = HsDone | HsWant | HsFail

definition pump_in :: "crypto \<Rightarrow> u64 \<Rightarrow> addr \<Rightarrow> accept_ans \<Rightarrow> bytes list \<Rightarrow> ut \<Rightarrow> ut" where
  "pump_in cr now sa hs msgs bt =
     (case bt of (b, t) \<Rightarrow>
        (case get_session sa t of
           None \<Rightarrow> (b, t)
         | Some s \<Rightarrow>
             if s_closing s then (b, t)
             else if s_handshake_done s then pump_out sa (drain_ssl cr now sa msgs (b, t))
             else (case hs of
                 HsDone \<Rightarrow> pump_out sa (drain_ssl cr now sa msgs
                             (b, put_session sa (s\<lparr>s_handshake_done := True\<rparr>) t))
               | HsWant \<Rightarrow> pump_out sa (b, t)
               | HsFail \<Rightarrow> (b, t))))"

section \<open>Receiving\<close>

text \<open>
  What OpenSSL does with a datagram: whether a session can be created and with which tapes, its
  answer to \<open>SSL_accept\<close> and the messages it decrypts.
\<close>

record dtls_env =
  de_create :: bool
  de_sw :: "dtls_ans list"
  de_bio :: "bool list"
  de_accept :: accept_ans
  de_msgs :: "bytes list"

definition on_udp_packet :: "crypto \<Rightarrow> dtls_env \<Rightarrow> u64 \<Rightarrow> sockaddr \<Rightarrow> bytes \<Rightarrow> ut \<Rightarrow> ut" where
  "on_udp_packet cr env now ad data bt =
     (case bt of (b, t) \<Rightarrow>
        if b_shutting_down b \<or> \<not> t_enabled t then (b, t)
        else if \<not> t_closed t \<and> \<not> looks_like_dtls data then
          if size_of (cfg_udp_max_datagram_size (b_cfg b)) < length data
          then (b\<lparr>b_udp_dropped_oversize := b_udp_dropped_oversize b + 1\<rparr>, t)
          else open_client_datagram now ad data (b, t)
        else
          let found = List.find (\<lambda>(_, s). tm_addr_eq (Some (s_peer s)) (Some ad)) (t_udp_sessions t);
              made =
                (case found of
                   Some (sa, _) \<Rightarrow> Inr (sa, b, t)
                 | None \<Rightarrow>
                     (case creation_limit now (b, t) of (ok, b, t) \<Rightarrow>
                        if \<not> ok then Inl (drop_rate_limit (b, t))
                        else if \<not> de_create env then Inl (b, t)
                        else Inr (session_create (de_sw env) (de_bio env) now ad (b, t))))
          in (case made of
                Inl bt \<Rightarrow> bt
              | Inr (sa, b, t) \<Rightarrow>
                  (case get_session sa t of
                     None \<Rightarrow> (b, t)
                   | Some s \<Rightarrow>
                       pump_in cr now sa (de_accept env) (de_msgs env)
                         (b, put_session sa (s\<lparr>s_last_rx_ms := now, s_pkts_rx := s_pkts_rx s + 1\<rparr>) t))))"

section \<open>Completions and timers\<close>

definition raw_done :: "tm_tunnel \<Rightarrow> tm_tunnel" where
  "raw_done t = t\<lparr>t_udp_raw_inflight := t_udp_raw_inflight t - 1\<rparr>"

text \<open>
  \<open>session_maybe_free\<close> on a closed session, found in \<open>b_zombies\<close>: it is freed once no send is in
  flight and the timer has closed.
\<close>

definition session_maybe_free :: "addr \<Rightarrow> tm_broker \<Rightarrow> tm_broker" where
  "session_maybe_free sa b =
     (case map_of (b_zombies b) sa of
        None \<Rightarrow> b
      | Some s \<Rightarrow> if \<not> s_closing s \<or> s_inflight s \<or> \<not> s_timer_closed s then b
                  else b\<lparr>b_zombies := unlink sa (b_zombies b)\<rparr>)"

definition send_done :: "addr option \<Rightarrow> ut \<Rightarrow> ut" where
  "send_done so bt =
     (case bt of (b, t) \<Rightarrow>
        let t = raw_done t in
        (case so of
           None \<Rightarrow> (b, t)
         | Some sa \<Rightarrow>
             (case get_session sa t of
                Some s \<Rightarrow> pump_out sa (b, put_session sa (s\<lparr>s_inflight := False\<rparr>) t)
              | None \<Rightarrow>
                  (case map_of (b_zombies b) sa of
                     None \<Rightarrow> (b, t)
                   | Some s \<Rightarrow>
                       (session_maybe_free sa
                          (b\<lparr>b_zombies := put sa (s\<lparr>s_inflight := False\<rparr>) (b_zombies b)\<rparr>), t)))))"

definition session_timer_closed :: "addr \<Rightarrow> tm_broker \<Rightarrow> tm_broker" where
  "session_timer_closed sa b =
     (case map_of (b_zombies b) sa of
        None \<Rightarrow> b
      | Some s \<Rightarrow>
          session_maybe_free sa (b\<lparr>b_zombies := put sa (s\<lparr>s_timer_closed := True\<rparr>) (b_zombies b)\<rparr>))"

text \<open>\<open>session_timer_cb\<close>: the timer is always started again unless the session is idle.\<close>

definition session_timer_cb :: "u64 \<Rightarrow> addr \<Rightarrow> ut \<Rightarrow> ut" where
  "session_timer_cb now sa bt =
     (case bt of (b, t) \<Rightarrow>
        (case get_session sa t of
           None \<Rightarrow> (b, t)
         | Some s \<Rightarrow>
             if s_closing s then (b, t)
             else if word_of_int (cfg_udp_flow_idle_timeout_ms (b_cfg b)) * 2 < now - s_last_rx_ms s
             then tm_udp_session_close sa (b, t)
             else if \<not> s_handshake_done s then pump_out sa (b, t)
             else (b, t)))"

section \<open>Starting and stopping\<close>

text \<open>The answers of the system calls that open a public socket.\<close>

record listen_env =
  le_addr :: bool
  le_bind :: bool
  le_listen :: bool

definition tm_udp_start :: "listen_env \<Rightarrow> tm_tunnel \<Rightarrow> tm_tunnel option" where
  "tm_udp_start env t =
     (if t_proto t \<noteq> TM_PROTO_UDP \<or> t_udp_open t then Some t
      else if t_handle t \<noteq> HNone then None
      else
        let t = t\<lparr>t_handle := HActive\<rparr> in
        if \<not> le_addr env \<or> \<not> le_bind env \<or> \<not> le_listen env then Some t
        else Some (t\<lparr>t_udp_open := True\<rparr>))"

fun close_sessions :: "addr list \<Rightarrow> ut \<Rightarrow> ut" where
  "close_sessions [] bt = bt"
| "close_sessions (sa # sas) bt = close_sessions sas (tm_udp_session_close sa bt)"

fun expire_flows :: "addr list \<Rightarrow> ut \<Rightarrow> ut" where
  "expire_flows [] bt = bt"
| "expire_flows (fa # fas) bt = expire_flows fas (tm_udp_flow_expire fa bt)"

definition tm_udp_stop :: "ut \<Rightarrow> ut" where
  "tm_udp_stop bt =
     (case bt of (b, t) \<Rightarrow>
        let t = (if t_udp_open t
                 then t\<lparr>t_close_refs := t_close_refs t + 1, t_handle := HClosing, t_udp_open := False\<rparr>
                 else t);
            (b, t) = close_sessions (map fst (t_udp_sessions t)) (b, t);
            (b, t) = expire_flows (map fst (t_udp_flows t)) (b, t)
        in (b, t\<lparr>t_agent_session := None\<rparr>))"

end
