(* ===== verification/Agents.thy ===== *)
theory Agents
  imports Streams
begin

text \<open>
  \<open>broker/src/control.c\<close>, the control sessions of agents: sending frames, the frames an agent sends,
  and dropping the session. An agent is only reachable through its tunnel, so it is found by the
  tunnel's address \<open>ta\<close> and its own \<open>aa\<close>; \<open>tm_agent_drop\<close> frees it. An error callback that fires
  inside a write drops the agent while its caller is still using it; what the caller then reads
  is the result \<open>None\<close>.
\<close>

section \<open>Model\<close>

definition encode_msg :: "u8 \<Rightarrow> u32 \<Rightarrow> bytes \<Rightarrow> bytes option" where
  "encode_msg type sid msg = Option.bind (tm_frame_make type sid msg (of_nat (length msg))) tm_frame_encode"

definition agent_at :: "tm_broker \<Rightarrow> addr \<Rightarrow> addr \<Rightarrow> tm_agent option" where
  "agent_at b ta aa =
     (case get_tun b ta of
        None \<Rightarrow> None
      | Some t \<Rightarrow> (case t_agent t of None \<Rightarrow> None | Some (k, a) \<Rightarrow> if k = aa then Some a else None))"

definition put_agent :: "addr \<Rightarrow> addr \<Rightarrow> tm_agent \<Rightarrow> tm_broker \<Rightarrow> tm_broker" where
  "put_agent ta aa a b =
     (case get_tun b ta of None \<Rightarrow> b | Some t \<Rightarrow> put_tun ta (t\<lparr>t_agent := Some (aa, a)\<rparr>) b)"

definition tm_agent_drop :: "addr \<Rightarrow> tm_broker \<Rightarrow> tm_broker" where
  "tm_agent_drop ta b =
     (case get_tun b ta of
        None \<Rightarrow> b
      | Some t \<Rightarrow> if t_agent t = None then b
                  else put_tun ta (t\<lparr>t_agent := None, t_agent_online := False\<rparr>) b)"

text \<open>\<open>tm_io_write(a->io, ...)\<close>: a failing transport calls \<open>agent_conn_error\<close> from inside the write.\<close>

definition agent_io_write :: "addr \<Rightarrow> addr \<Rightarrow> bytes \<Rightarrow> tm_broker \<Rightarrow> (tm_status \<times> tm_broker) option" where
  "agent_io_write ta aa buf b =
     do { a \<leftarrow> agent_at b ta aa;
          let (r, io, ups) = tm_io_write (a_io a) buf;
          let b = put_agent ta aa (a\<lparr>a_io := io\<rparr>) b;
          Some (r, if up_error ups then tm_agent_drop ta b else b) }"

definition tm_agent_send_frame :: "addr \<Rightarrow> u8 \<Rightarrow> u32 \<Rightarrow> tm_broker \<Rightarrow> tm_broker option" where
  "tm_agent_send_frame ta type sid b =
     do { t \<leftarrow> get_tun b ta;
          case t_agent t of
            None \<Rightarrow> Some b
          | Some (aa, a) \<Rightarrow>
              if a_io a = None then Some b
              else case encode_msg type sid [] of
                None \<Rightarrow> Some b
              | Some buf \<Rightarrow>
                  do { (r, b) \<leftarrow> agent_io_write ta aa buf b;
                       if r = TM_OK then Some b
                       else do { _ \<leftarrow> agent_at b ta aa; Some (tm_agent_drop ta b) } } }"

definition agent_frame :: "addr \<Rightarrow> tm_frame \<Rightarrow> tm_broker \<Rightarrow> tm_broker option" where
  "agent_frame ta f b =
     (if f_type f = TM_MSG_PING then tm_agent_send_frame ta TM_MSG_PONG 0 b
      else if f_type f \<in> {TM_MSG_OPEN_STREAM_ERROR, TM_MSG_CLOSE_STREAM, TM_MSG_KILL_STREAM} then
        do { t \<leftarrow> get_tun b ta;
             case tm_stream_find t (f_stream_id f) of
               None \<Rightarrow> Some b
             | Some sa \<Rightarrow> Some (stream_close ta sa b) }
      else Some b)"

text \<open>
  The frames a reader still delivers, each with the reader as it is while that frame is handled,
  how the loop ends (a protocol error or not) and the reader at the end.
\<close>

function reader_trace :: "tm_frame_reader \<Rightarrow> (tm_frame \<times> tm_frame_reader) list \<times> bool \<times> tm_frame_reader" where
  "reader_trace r =
     (case reader_take r of
        (FeedFrame f, r') \<Rightarrow> (case reader_trace r' of (ps, e, r'') \<Rightarrow> ((f, r') # ps, e, r''))
      | (FeedMore, r') \<Rightarrow> ([], False, r')
      | (FeedError, r') \<Rightarrow> ([], True, r'))"
  by pat_completeness auto
termination
  by (relation "measure (\<lambda>r. length (fr_buf r))")
    (auto dest!: sym [of _ "reader_take _"] reader_take_shrinks simp: TM_FRAME_HDR_LEN_def)

declare reader_trace.simps [simp del]

text \<open>The whole chunk: the first call of the reader and the loop.\<close>

definition feed_trace ::
    "tm_frame_reader \<Rightarrow> bytes \<Rightarrow> (tm_frame \<times> tm_frame_reader) list \<times> bool \<times> tm_frame_reader" where
  "feed_trace r data =
     (case tm_frame_reader_feed r data of
        (FeedFrame f, r') \<Rightarrow> (case reader_trace r' of (ps, e, r'') \<Rightarrow> ((f, r') # ps, e, r''))
      | (FeedMore, r') \<Rightarrow> ([], False, r')
      | (FeedError, r') \<Rightarrow> ([], True, r'))"

fun agent_frames :: "addr \<Rightarrow> addr \<Rightarrow> (tm_frame \<times> tm_frame_reader) list \<Rightarrow> tm_broker \<Rightarrow> tm_broker option" where
  "agent_frames ta aa [] b = Some b"
| "agent_frames ta aa ((f, r) # ps) b =
     do { a \<leftarrow> agent_at b ta aa;
          b \<leftarrow> agent_frame ta f (put_agent ta aa (a\<lparr>a_fr := r\<rparr>) b);
          _ \<leftarrow> agent_at b ta aa;
          agent_frames ta aa ps b }"

definition agent_conn_read :: "u64 \<Rightarrow> addr \<Rightarrow> addr \<Rightarrow> bytes \<Rightarrow> tm_broker \<Rightarrow> tm_broker option" where
  "agent_conn_read now ta aa data b =
     do { a \<leftarrow> agent_at b ta aa;
          let (ps, e, r) = feed_trace (a_fr a) data;
          b \<leftarrow> agent_frames ta aa ps (put_agent ta aa (a\<lparr>a_last_rx_ms := now\<rparr>) b);
          a \<leftarrow> agent_at b ta aa;
          Some (if e then tm_agent_drop ta b else put_agent ta aa (a\<lparr>a_fr := r\<rparr>) b) }"

definition agent_conn_eof :: "addr \<Rightarrow> addr \<Rightarrow> tm_broker \<Rightarrow> tm_broker option" where
  "agent_conn_eof ta aa b = do { _ \<leftarrow> agent_at b ta aa; Some (tm_agent_drop ta b) }"

definition agent_conn_error :: "addr \<Rightarrow> addr \<Rightarrow> tm_broker \<Rightarrow> tm_broker option" where
  "agent_conn_error ta aa b = do { _ \<leftarrow> agent_at b ta aa; Some (tm_agent_drop ta b) }"

section \<open>What a control session can change\<close>

text \<open>
  An agent's frames touch nothing but its own tunnel: \<open>same_except ta b b'\<close> says that every other
  tunnel, the pending connections and the configuration are the same.
\<close>

definition same_except :: "addr \<Rightarrow> tm_broker \<Rightarrow> tm_broker \<Rightarrow> bool" where
  "same_except ta b b' \<longleftrightarrow>
     (\<forall>k. k \<noteq> ta \<longrightarrow> get_tun b' k = get_tun b k) \<and> b_conns b' = b_conns b \<and> b_cfg b' = b_cfg b \<and>
     b_hmac_key b' = b_hmac_key b \<and> map fst (b_tunnels b') = map fst (b_tunnels b) \<and>
     b_ports_tcp b' = b_ports_tcp b \<and> b_ports_udp b' = b_ports_udp b"

lemma same_except_refl [simp]: "same_except ta b b"
  by (simp add: same_except_def)

lemma same_except_trans: "same_except ta b b' \<Longrightarrow> same_except ta b' b'' \<Longrightarrow> same_except ta b b''"
  by (simp add: same_except_def)

lemma put_tun_more_fields [simp]:
  "b_conns (put_tun ta t b) = b_conns b" "b_hmac_key (put_tun ta t b) = b_hmac_key b"
  "map fst (b_tunnels (put_tun ta t b)) = map fst (b_tunnels b)"
  "b_ports_tcp (put_tun ta t b) = b_ports_tcp b" "b_ports_udp (put_tun ta t b) = b_ports_udp b"
  by (simp_all add: put_tun_def)

lemma get_tun_update [simp]:
  "get_tun (b\<lparr>b_stream_count := n\<rparr>) k = get_tun b k" "get_tun (b\<lparr>b_stream_errors := m\<rparr>) k = get_tun b k"
  by (simp_all add: get_tun_def)

lemma same_except_put_tun [simp]: "same_except ta b (put_tun ta t b)"
  by (simp add: same_except_def)

lemma same_except_drop [simp]: "same_except ta b (tm_agent_drop ta b)"
  by (simp add: tm_agent_drop_def split: option.split)

lemma same_except_put_agent [simp]: "same_except ta b (put_agent ta aa a b)"
  by (simp add: put_agent_def split: option.split)

lemma same_except_stream_close [simp]: "same_except ta b (stream_close ta sa b)"
  by (simp add: stream_close_def stream_unlink_def same_except_def split: option.split)

lemma same_except_agent_io_write: "agent_io_write ta aa buf b = Some (r, b') \<Longrightarrow> same_except ta b b'"
  by (auto simp: agent_io_write_def Let_def split: prod.splits Option.bind_splits if_splits
      intro: same_except_trans [OF same_except_put_agent same_except_drop])

lemma same_except_send_frame: "tm_agent_send_frame ta type sid b = Some b' \<Longrightarrow> same_except ta b b'"
  by (auto simp: tm_agent_send_frame_def split: Option.bind_splits option.splits prod.splits if_splits
      dest!: same_except_agent_io_write intro: same_except_trans [OF _ same_except_drop])

lemma same_except_agent_frame: "agent_frame ta f b = Some b' \<Longrightarrow> same_except ta b b'"
  by (auto simp: agent_frame_def split: if_splits Option.bind_splits option.splits
      dest: same_except_send_frame)

lemma same_except_agent_frames: "agent_frames ta aa ps b = Some b' \<Longrightarrow> same_except ta b b'"
proof (induction ps arbitrary: b)
  case (Cons p ps)
  obtain f r where p: "p = (f, r)" by (cases p)
  from Cons.prems obtain a b1 where
      "agent_frame ta f (put_agent ta aa (a\<lparr>a_fr := r\<rparr>) b) = Some b1" "agent_frames ta aa ps b1 = Some b'"
    by (auto simp: p split: Option.bind_splits)
  then have "same_except ta (put_agent ta aa (a\<lparr>a_fr := r\<rparr>) b) b1" "same_except ta b1 b'"
    by (auto intro: same_except_agent_frame Cons.IH)
  then show ?case
    by (rule same_except_trans [OF same_except_trans [OF same_except_put_agent]])
qed simp

lemma same_except_agent_conn_read:
  assumes "agent_conn_read now ta aa data b = Some b'"
  shows "same_except ta b b'"
proof -
  obtain a ps e r where f: "feed_trace (a_fr a) data = (ps, e, r)" "agent_at b ta aa = Some a"
    using assms by (auto simp: agent_conn_read_def split: Option.bind_splits prod.splits)
  then obtain b1 a1 where
      "agent_frames ta aa ps (put_agent ta aa (a\<lparr>a_last_rx_ms := now\<rparr>) b) = Some b1"
      "b' = (if e then tm_agent_drop ta b1 else put_agent ta aa (a1\<lparr>a_fr := r\<rparr>) b1)"
    using assms by (auto simp: agent_conn_read_def split: Option.bind_splits)
  then show ?thesis
    using same_except_agent_frames same_except_put_agent same_except_drop same_except_trans
    by (metis (full_types))
qed

text \<open>
  (C26) Isolation of control sessions: whatever bytes an authenticated agent sends on its control
  connection, handling them leaves every other tunnel (its streams, its own agent, its credentials),
  the pending connections, the configuration and the port tables unchanged.
\<close>
theorem agent_session_isolated:
  assumes "agent_conn_read now ta aa data b = Some b'" "k \<noteq> ta"
  shows "get_tun b' k = get_tun b k \<and> b_conns b' = b_conns b \<and> b_cfg b' = b_cfg b \<and>
    b_ports_tcp b' = b_ports_tcp b \<and> b_ports_udp b' = b_ports_udp b"
  using same_except_agent_conn_read [OF assms(1)] assms(2) by (simp add: same_except_def)

section \<open>Memory safety of the read loop\<close>

lemma agent_at_put_agent: "agent_at b ta aa = Some a \<Longrightarrow> agent_at (put_agent ta aa a' b) ta aa = Some a'"
  by (auto simp: agent_at_def put_agent_def split: option.splits prod.splits)

lemma agent_at_stream_close: "agent_at (stream_close ta sa b) ta aa = agent_at b ta aa"
  by (auto simp: agent_at_def stream_close_def stream_unlink_def split: option.splits)

lemma agent_frame_quiet:
  assumes "agent_at b ta aa = Some a" "f_type f \<noteq> TM_MSG_PING"
  obtains b' where "agent_frame ta f b = Some b'" "agent_at b' ta aa = Some a"
proof -
  obtain t where t: "get_tun b ta = Some t"
    using assms(1) by (auto simp: agent_at_def split: option.splits)
  show thesis
  proof (cases "f_type f \<in> {TM_MSG_OPEN_STREAM_ERROR, TM_MSG_CLOSE_STREAM, TM_MSG_KILL_STREAM} \<and>
      tm_stream_find t (f_stream_id f) \<noteq> None")
    case True
    then obtain sa where "tm_stream_find t (f_stream_id f) = Some sa" by auto
    then have "agent_frame ta f b = Some (stream_close ta sa b)"
      using True assms(2) t by (simp add: agent_frame_def)
    then show thesis using that assms(1) by (simp add: agent_at_stream_close)
  next
    case False
    then have "agent_frame ta f b = Some b" using assms(2) t by (auto simp: agent_frame_def)
    then show thesis using that assms(1) by blast
  qed
qed

lemma agent_frames_quiet:
  assumes "agent_at b ta aa = Some a" "\<forall>(f, _) \<in> set ps. f_type f \<noteq> TM_MSG_PING"
  shows "\<exists>b' a'. agent_frames ta aa ps b = Some b' \<and> agent_at b' ta aa = Some a'"
  using assms
proof (induction ps arbitrary: b a)
  case (Cons p ps)
  obtain f r where p: "p = (f, r)" by (cases p)
  let ?b = "put_agent ta aa (a\<lparr>a_fr := r\<rparr>) b"
  have "agent_at ?b ta aa = Some (a\<lparr>a_fr := r\<rparr>)" "f_type f \<noteq> TM_MSG_PING"
    using Cons.prems p by (auto intro: agent_at_put_agent)
  then obtain b1 where b1: "agent_frame ta f ?b = Some b1" "agent_at b1 ta aa = Some (a\<lparr>a_fr := r\<rparr>)"
    by (rule agent_frame_quiet)
  then have "\<exists>b' a'. agent_frames ta aa ps b1 = Some b' \<and> agent_at b' ta aa = Some a'"
    using Cons.IH Cons.prems(2) by (auto simp: p)
  then show ?case using Cons.prems(1) b1 by (simp add: p)
qed simp

text \<open>
  The read loop of a control session is safe without pings: a chunk that completes no \<open>PING\<close>
  frame, whatever other frames it completes, is handled without a memory error.
\<close>
lemma agent_read_safe:
  assumes "agent_at b ta aa = Some a" "feed_trace (a_fr a) data = (ps, e, r)"
      "\<forall>(f, _) \<in> set ps. f_type f \<noteq> TM_MSG_PING"
  shows "agent_conn_read now ta aa data b \<noteq> None"
proof -
  have "agent_at (put_agent ta aa (a\<lparr>a_last_rx_ms := now\<rparr>) b) ta aa = Some (a\<lparr>a_last_rx_ms := now\<rparr>)"
    by (rule agent_at_put_agent [OF assms(1)])
  from agent_frames_quiet [OF this assms(3)] show ?thesis
    using assms(1,2) by (auto simp: agent_conn_read_def)
qed

text \<open>
  (C36) A ping on a dying connection is a use after free: when the \<open>PONG\<close> for a chunk's first frame hits
  a transport error, the error callback frees the agent inside the write, and the loop then reads
  the freed agent's frame reader.
\<close>
theorem agent_pong_use_after_free:
  assumes "agent_at b ta aa = Some a" "feed_trace (a_fr a) data = ((f, r') # qs, e, r)"
    and f: "f_type f = TM_MSG_PING" and buf: "encode_msg TM_MSG_PONG 0 [] = Some buf"
    and io: "a_io a \<noteq> None" and wr: "tm_io_write (a_io a) buf = (TM_OK, io, ups)" "up_error ups"
  shows "agent_conn_read now ta aa data b = None"
proof -
  let ?b = "put_agent ta aa (a\<lparr>a_last_rx_ms := now\<rparr>) b"
  have at: "agent_at ?b ta aa = Some (a\<lparr>a_last_rx_ms := now\<rparr>)"
    by (rule agent_at_put_agent [OF assms(1)])
  let ?a = "a\<lparr>a_last_rx_ms := now, a_fr := r'\<rparr>"
  let ?b1 = "put_agent ta aa ?a ?b"
  have at1: "agent_at ?b1 ta aa = Some ?a" by (rule agent_at_put_agent [OF at])
  then obtain t where t: "get_tun ?b1 ta = Some t" "t_agent t = Some (aa, ?a)"
    by (auto simp: agent_at_def split: option.splits prod.splits if_splits)
  let ?b2 = "tm_agent_drop ta (put_agent ta aa (?a\<lparr>a_io := io\<rparr>) ?b1)"
  have "agent_io_write ta aa buf ?b1 = Some (TM_OK, ?b2)"
    using at1 wr by (simp add: agent_io_write_def)
  then have send: "agent_frame ta f ?b1 = Some ?b2"
    using t f buf io by (auto simp: agent_frame_def tm_agent_send_frame_def)
  have "agent_at ?b2 ta aa = None"
    using t(1) by (simp add: agent_at_def tm_agent_drop_def put_agent_def)
  then have "agent_frames ta aa ((f, r') # qs) ?b = None" using at send by simp
  then show ?thesis using assms(1,2) by (simp add: agent_conn_read_def)
qed

text \<open>
  A broker with two tunnels, the first with an agent whose TLS transport fails on the next write.
\<close>

definition demo_agent :: tm_agent where
  "demo_agent = \<lparr>a_sock = True, a_io = Some (IoSsl \<lparr>is_low_cb = True, is_error_cb = True, is_closed = False,
       is_ssl = promote_open (tm_ssl_stream_new [BioEmpty, BioChunk False] [SwOk 10])\<rparr>),
     a_fr = tm_frame_reader_new, a_last_rx_ms = 0, a_last_ping_ms = 0, a_remote = []\<rparr>"

definition demo_agents :: tm_broker where
  "demo_agents = (broker_new (cfg_load []) [])
     \<lparr>b_tunnels := [(0, tunnel_zero\<lparr>t_agent := Some (2, demo_agent), t_agent_online := True\<rparr>), (1, tunnel_zero)],
      b_heap := 3\<rparr>"

lemma demo_agent_at: "agent_at demo_agents 0 2 = Some demo_agent"
  by (simp add: agent_at_def demo_agents_def get_tun_def)

lemma demo_agent_partial: "\<exists>r. feed_trace (a_fr demo_agent) [1, 6, 0] = ([], False, r)"
  by (simp add: feed_trace_def demo_agent_def tm_frame_reader_feed_def reader_take_def reader_append_def
      tm_frame_reader_new_def TM_MAX_FRAME_PAYLOAD_def TM_FRAME_HDR_LEN_def)

lemma demo_agent_ping: "\<exists>r' r. feed_trace (a_fr demo_agent) [1, 6, 0, 0, 0, 0, 0, 0, 0, 0] = ([(demo_ping, r')], False, r)"
  by (simp add: feed_trace_def demo_agent_def tm_frame_reader_feed_def reader_take_def reader_append_def
      tm_frame_reader_new_def TM_MAX_FRAME_PAYLOAD_def TM_FRAME_HDR_LEN_def TM_PROTO_VERSION_def rd_u32_def
      tm_frame_make_def demo_ping_def reader_trace.simps)

lemma demo_agent_write:
  "\<exists>io ups. tm_io_write (a_io demo_agent) [1, 7, 0, 0, 0, 0, 0, 0, 0, 0] = (TM_OK, io, ups) \<and> up_error ups"
  by (simp add: demo_agent_def tm_io_write_def io_write_def ssl_write_def tm_ssl_stream_write_def promote_open_def
      tm_ssl_stream_new_def ssl_enqueue_def pump_write_def pump_write_loop.simps bio_read_def ssl_write_call_def
      ssl_take_def ssl_wrap_def ssl_write_len_def finish_close_def ssl_ups_def ssl_up_def TM_PQ_HIGH_def TM_PQ_LOW_def
      grow_cap.simps Let_def)

theorem agent_session_isolated_witness:
  "\<exists>b'. agent_conn_read 9 0 2 [1, 6, 0] demo_agents = Some b' \<and> get_tun b' 1 = get_tun demo_agents 1"
proof -
  obtain r where r: "feed_trace (a_fr demo_agent) [1, 6, 0] = ([], False, r)" using demo_agent_partial by blast
  have "agent_at (put_agent 0 2 (demo_agent\<lparr>a_last_rx_ms := 9\<rparr>) demo_agents) 0 2 = Some (demo_agent\<lparr>a_last_rx_ms := 9\<rparr>)"
    by (rule agent_at_put_agent [OF demo_agent_at])
  then obtain b' where b': "agent_conn_read 9 0 2 [1, 6, 0] demo_agents = Some b'"
    using r demo_agent_at by (simp add: agent_conn_read_def)
  then show ?thesis using agent_session_isolated [OF b', of 1] by simp
qed

theorem agent_pong_use_after_free_witness:
  "agent_conn_read 9 0 2 [1, 6, 0, 0, 0, 0, 0, 0, 0, 0] demo_agents = None"
proof -
  obtain r' r where r: "feed_trace (a_fr demo_agent) [1, 6, 0, 0, 0, 0, 0, 0, 0, 0] = ([(demo_ping, r')], False, r)"
    using demo_agent_ping by blast
  obtain io ups where w: "tm_io_write (a_io demo_agent) [1, 7, 0, 0, 0, 0, 0, 0, 0, 0] = (TM_OK, io, ups)" "up_error ups"
    using demo_agent_write by blast
  have "encode_msg TM_MSG_PONG 0 [] = Some [1, 7, 0, 0, 0, 0, 0, 0, 0, 0]"
    by (simp add: encode_msg_def tm_frame_make_def tm_frame_encode_def wr_u32_def TM_MSG_PONG_def TM_PROTO_VERSION_def
        TM_MAX_FRAME_PAYLOAD_def)
  from agent_pong_use_after_free [OF demo_agent_at r _ this _ w]
  show ?thesis by (simp add: demo_ping_def TM_MSG_PING_def demo_agent_def)
qed

end
