(* ===== verification/Registry.thy ===== *)
theory Registry
  imports UdpPlane Agents
begin

text \<open>
  \<open>broker/src/tcp.c\<close> and \<open>broker/src/registry.c\<close>: the public listener of a tunnel, the port tables,
  creating and deleting tunnels. libuv keeps a pointer to the handle embedded in the tunnel from
  \<open>uv_tcp_init\<close> until its close callback: initialising it again before that, or freeing the tunnel,
  is a memory error (result \<open>None\<close>). The answers of the system calls are a \<open>listen_env\<close>.
\<close>

section \<open>Public listeners\<close>

definition tm_tunnel_listener_start :: "listen_env \<Rightarrow> tm_tunnel \<Rightarrow> tm_tunnel option" where
  "tm_tunnel_listener_start env t =
     (if t_proto t \<noteq> TM_PROTO_TCP \<or> t_listener_open t then Some t
      else if t_closed t then Some t
      else if t_deleting t then Some t
      else if t_listener_closing t then Some (t\<lparr>t_listener_restart_pending := True\<rparr>)
      else if t_handle t \<noteq> HNone then None
      else
        let t = t\<lparr>t_handle := HActive\<rparr> in
        if \<not> le_addr env \<or> \<not> le_bind env \<or> \<not> le_listen env then Some t
        else Some (t\<lparr>t_listener_open := True\<rparr>))"

definition tm_tunnel_listener_stop :: "tm_tunnel \<Rightarrow> tm_tunnel" where
  "tm_tunnel_listener_stop t =
     (let t = t\<lparr>t_listener_restart_pending := False\<rparr> in
      if t_listener_open t
      then t\<lparr>t_close_refs := t_close_refs t + 1, t_listener_closing := True, t_handle := HClosing,
             t_listener_open := False\<rparr>
      else t)"

text \<open>
  \<open>free(tun)\<close>: the tunnel disappears; its handle must not be known to libuv any more. The two close
  callbacks end with it when the tunnel has been deleted.
\<close>

datatype closed_result = TunFreed | TunKept tm_tunnel

definition tunnel_free :: "tm_tunnel \<Rightarrow> closed_result option" where
  "tunnel_free t = (if t_handle t \<noteq> HNone then None else Some TunFreed)"

definition tunnel_listener_closed :: "listen_env \<Rightarrow> tm_tunnel \<Rightarrow> closed_result option" where
  "tunnel_listener_closed env t =
     (let t = t\<lparr>t_handle := HNone, t_listener_closing := False, t_close_refs := t_close_refs t - 1\<rparr> in
      if t_deleting t then
        if t_close_refs t = 0 then tunnel_free t else Some (TunKept t)
      else if t_listener_restart_pending t
      then map_option TunKept (tm_tunnel_listener_start env (t\<lparr>t_listener_restart_pending := False\<rparr>))
      else Some (TunKept t))"

definition tunnel_udp_closed :: "tm_tunnel \<Rightarrow> closed_result option" where
  "tunnel_udp_closed t =
     (let t = t\<lparr>t_handle := HNone, t_close_refs := t_close_refs t - 1\<rparr> in
      if t_deleting t \<and> t_close_refs t = 0 then tunnel_free t else Some (TunKept t))"

text \<open>
  \<open>on_public_accept\<close> on an accepted connection from \<open>peer\<close>; \<open>now\<close> and \<open>now'\<close> are the clock readings of
  \<open>rate_allow\<close> and \<open>rate_find\<close>.
\<close>

definition on_public_accept :: "u64 \<Rightarrow> u64 \<Rightarrow> sockaddr \<Rightarrow> addr \<Rightarrow> tm_broker \<Rightarrow> tm_broker option" where
  "on_public_accept now now' peer ta b =
     do { t \<leftarrow> get_tun b ta;
          if b_shutting_down b \<or> \<not> t_enabled t then Some b
          else
            (case rate_allow (cfg_connect_rate_per_ip (b_cfg b)) now now' peer (b_accept_rates b) of
               (False, rs) \<Rightarrow>
                 Some (b\<lparr>b_accept_rates := rs, b_conns_rate_limited := b_conns_rate_limited b + 1\<rparr>)
             | (True, rs) \<Rightarrow>
                 (let b = b\<lparr>b_accept_rates := rs\<rparr> in
                  if \<not> t_agent_online t
                  then Some (put_tun ta (t\<lparr>t_conns_rejected_offline := t_conns_rejected_offline t + 1\<rparr>) b)
                  else do { (sao, b) \<leftarrow> tm_stream_create_open now ta b;
                            case sao of
                              None \<Rightarrow> Some b
                            | Some sa \<Rightarrow>
                                do { b \<leftarrow> stream_apply ta sa (\<lambda>st. Some (st\<lparr>st_peer_addr := peer\<rparr>)) b;
                                     t' \<leftarrow> get_tun b ta;
                                     st \<leftarrow> map_of (t_streams t') sa;
                                     if t_proto t = TM_PROTO_UDP then Some (stream_close ta sa b)
                                     else tm_agent_send_frame ta TM_MSG_OPEN_STREAM (st_id st) b } })) }"

section \<open>Ports\<close>

definition tm_tunnel_find :: "tm_broker \<Rightarrow> bytes \<Rightarrow> addr option" where
  "tm_tunnel_find b tid = map_option fst (List.find (\<lambda>(_, t). t_id t = tid) (b_tunnels b))"

definition tm_port_in_range :: "tm_broker \<Rightarrow> u16 \<Rightarrow> bool" where
  "tm_port_in_range b port \<longleftrightarrow> cfg_public_port_start (b_cfg b) \<le> port \<and> port \<le> cfg_public_port_end (b_cfg b)"

definition port_index :: "tm_broker \<Rightarrow> u16 \<Rightarrow> nat" where
  "port_index b port = unat port - unat (cfg_public_port_start (b_cfg b))"

definition port_table :: "tm_broker \<Rightarrow> tm_proto \<Rightarrow> bool list" where
  "port_table b proto = (if proto = TM_PROTO_TCP then b_ports_tcp b else b_ports_udp b)"

definition set_port_table :: "tm_proto \<Rightarrow> bool list \<Rightarrow> tm_broker \<Rightarrow> tm_broker" where
  "set_port_table proto tbl b =
     (if proto = TM_PROTO_TCP then b\<lparr>b_ports_tcp := tbl\<rparr> else b\<lparr>b_ports_udp := tbl\<rparr>)"

text \<open>The scan of \<open>tm_port_alloc\<close> from the cursor: \<open>k\<close> entries are left to try.\<close>

fun port_scan :: "bool list \<Rightarrow> nat \<Rightarrow> nat \<Rightarrow> nat \<Rightarrow> nat \<Rightarrow> nat option" where
  "port_scan tbl n start i 0 = None"
| "port_scan tbl n start i (Suc k) =
     (let idx = (start + i) mod n in if \<not> tbl ! idx then Some idx else port_scan tbl n start (Suc i) k)"

definition tm_port_alloc :: "tm_proto \<Rightarrow> u16 \<Rightarrow> tm_broker \<Rightarrow> u16 \<times> tm_broker" where
  "tm_port_alloc proto prefer b =
     (let tbl = port_table b proto; n = port_count (b_cfg b) in
      if int n * 2 \<le> uint (b_ports_used b) then (0, b)
      else if prefer \<noteq> 0 \<and> tm_port_in_range b prefer \<and> \<not> tbl ! port_index b prefer
      then (prefer, (set_port_table proto (tbl[port_index b prefer := True]) b)
                      \<lparr>b_ports_used := b_ports_used b + 1\<rparr>)
      else (case port_scan tbl n (b_cursor b) 0 n of
          None \<Rightarrow> (0, b)
        | Some idx \<Rightarrow>
            (cfg_public_port_start (b_cfg b) + of_nat idx,
             (set_port_table proto (tbl[idx := True]) b)
               \<lparr>b_ports_used := b_ports_used b + 1, b_cursor := (idx + 1) mod n\<rparr>)))"

definition tm_port_free :: "tm_proto \<Rightarrow> u16 \<Rightarrow> tm_broker \<Rightarrow> tm_broker" where
  "tm_port_free proto port b =
     (if \<not> tm_port_in_range b port then b
      else
        let tbl = port_table b proto; i = port_index b port;
            used = (if tbl ! i then b_ports_used b - 1 else b_ports_used b)
        in (set_port_table proto (tbl[i := False]) b)\<lparr>b_ports_used := used\<rparr>)"

section \<open>Tunnels\<close>

definition tunnel_start :: "listen_env \<Rightarrow> tm_tunnel \<Rightarrow> tm_tunnel option" where
  "tunnel_start env t =
     (if t_proto t = TM_PROTO_TCP then tm_tunnel_listener_start env t else tm_udp_start env t)"

text \<open>
  \<open>tm_tunnel_create\<close>: no result where it returns \<open>NULL\<close>, else the tunnel's address and port.
\<close>

definition tunnel_new ::
    "u64 \<Rightarrow> bytes \<Rightarrow> tm_proto \<Rightarrow> bool \<Rightarrow> bytes option \<Rightarrow> bytes option \<Rightarrow> u16 \<Rightarrow> tm_tunnel" where
  "tunnel_new now tid proto closed agent_hmac token_hmac port =
     tunnel_zero\<lparr>t_id := snprintf_s (TM_TUNNEL_ID_LEN + 1) tid, t_proto := proto, t_closed := closed,
       t_enabled := True, t_public_port := port,
       t_agent_secret_hmac := snprintf_s 65 (case agent_hmac of Some h \<Rightarrow> h | None \<Rightarrow> []),
       t_shared_token_hmac := (case token_hmac of Some h \<Rightarrow> snprintf_s 65 h | None \<Rightarrow> []),
       t_created_at_ms := now, t_last_seen_ms := now, t_next_flow_id := 1\<rparr>"

definition tm_tunnel_create ::
    "listen_env \<Rightarrow> u64 \<Rightarrow> bytes \<Rightarrow> tm_proto \<Rightarrow> bool \<Rightarrow> bytes option \<Rightarrow> bytes option \<Rightarrow> u16 \<Rightarrow>
     tm_broker \<Rightarrow> ((addr \<times> u16) option \<times> tm_broker) option" where
  "tm_tunnel_create env now tid proto closed agent_hmac token_hmac prefer b =
     (if b_shutting_down b \<or> cfg_max_tunnels (b_cfg b) \<le> b_tunnel_count b \<or>
         tm_tunnel_find b tid \<noteq> None \<or> TM_TUNNEL_ID_LEN < length tid
      then Some (None, b)
      else
        let needs = \<not> (closed \<and> proto = TM_PROTO_TCP);
            (port, b1) = (if needs then tm_port_alloc proto prefer b else (0, b))
        in if needs \<and> port = 0 then Some (None, b1)
           else
             do { t \<leftarrow> tunnel_start env (tunnel_new now tid proto closed agent_hmac token_hmac port);
                  Some (Some (b_heap b1, port),
                        b1\<lparr>b_tunnels := (b_heap b1, t) # b_tunnels b1,
                           b_tunnel_count := b_tunnel_count b1 + 1, b_heap := Suc (b_heap b1)\<rparr>) })"

fun close_streams :: "addr \<Rightarrow> addr list \<Rightarrow> tm_broker \<Rightarrow> tm_broker" where
  "close_streams ta [] b = b"
| "close_streams ta (sa # sas) b = close_streams ta sas (stream_close ta sa b)"

text \<open>\<open>tm_tunnel_listener_stop\<close> or \<open>tm_udp_stop\<close> on the tunnel at \<open>ta\<close>.\<close>

definition tunnel_stop :: "addr \<Rightarrow> tm_broker \<Rightarrow> tm_broker" where
  "tunnel_stop ta b =
     (case get_tun b ta of
        None \<Rightarrow> b
      | Some t \<Rightarrow>
          if t_proto t = TM_PROTO_TCP then put_tun ta (tm_tunnel_listener_stop t) b
          else (case tm_udp_stop (b, t) of (b', t') \<Rightarrow> put_tun ta t' b'))"

definition tm_tunnel_teardown :: "addr \<Rightarrow> tm_broker \<Rightarrow> tm_broker" where
  "tm_tunnel_teardown ta b =
     (let b = tm_agent_drop ta (tunnel_stop ta b) in
      case get_tun b ta of
        None \<Rightarrow> b
      | Some t \<Rightarrow>
          tm_port_free (t_proto t) (t_public_port t) (close_streams ta (map fst (t_streams t)) b))"

definition tunnel_remove_from_list :: "addr \<Rightarrow> tm_broker \<Rightarrow> tm_broker" where
  "tunnel_remove_from_list ta b = b\<lparr>b_tunnels := unlink ta (b_tunnels b)\<rparr>"

text \<open>
  \<open>tm_tunnel_delete\<close>: the flag is \<open>False\<close> where it returns an error. A tunnel with closes in flight stays
  allocated for their callbacks, in \<open>b_detached\<close>.
\<close>

definition tm_tunnel_delete :: "bytes \<Rightarrow> tm_broker \<Rightarrow> (bool \<times> tm_broker) option" where
  "tm_tunnel_delete tid b =
     (case tm_tunnel_find b tid of
        None \<Rightarrow> Some (False, b)
      | Some ta \<Rightarrow>
          do { t \<leftarrow> get_tun b ta;
               let b = tm_tunnel_teardown ta (put_tun ta (t\<lparr>t_deleting := True\<rparr>) b);
               t \<leftarrow> get_tun b ta;
               let b = (tunnel_remove_from_list ta b)\<lparr>b_tunnel_count := b_tunnel_count b - 1\<rparr>;
               if t_close_refs t = 0 then do { _ \<leftarrow> tunnel_free t; Some (True, b) }
               else Some (True, b\<lparr>b_detached := (ta, t) # b_detached b\<rparr>) })"

text \<open>The close callbacks as events on the broker.\<close>

definition closed_event :: "addr \<Rightarrow> closed_result \<Rightarrow> tm_broker \<Rightarrow> tm_broker" where
  "closed_event ta r b =
     (case r of TunKept t \<Rightarrow> put_tun ta t b | TunFreed \<Rightarrow> b\<lparr>b_detached := unlink ta (b_detached b)\<rparr>)"

definition handle_closed :: "listen_env \<Rightarrow> addr \<Rightarrow> tm_broker \<Rightarrow> tm_broker option" where
  "handle_closed env ta b =
     do { t \<leftarrow> get_tun b ta;
          r \<leftarrow> (if t_proto t = TM_PROTO_TCP then tunnel_listener_closed env t else tunnel_udp_closed t);
          Some (closed_event ta r b) }"

end
