(* ===== verification/Control.thy ===== *)
theory Control
  imports Registry
begin

text \<open>
  \<open>broker/src/control.c\<close>, the connections of the control port before they become agents, peers or data
  connections. A handler runs on the broker and the connection \<open>c\<close> it was called for, whose address is
  \<open>ca\<close>; the list \<open>b_conns\<close> is updated when the handler is done. \<open>conn_close\<close> starts the close of the
  embedded timer \<open>hs_timer\<close>, whose callback frees the connection, so it stays readable for the rest of
  the event. Closing the timer a second time or before it is initialised aborts in libuv; this, a
  use of freed memory and an overflow of a buffer on the stack are the result \<open>None\<close>.
\<close>

section \<open>Model\<close>

type_synonym cs = "tm_broker \<times> tm_conn"

definition TM_MAX_PENDING_CONNS :: int where "TM_MAX_PENDING_CONNS = 4096"

definition text_bytes :: "string \<Rightarrow> bytes" where
  "text_bytes s = map of_char s"

definition conn_unlink :: "addr \<Rightarrow> tm_broker \<Rightarrow> tm_broker" where
  "conn_unlink ca b = b\<lparr>b_conns := unlink ca (b_conns b)\<rparr>"

abbreviation protocol_error :: "tm_broker \<Rightarrow> tm_broker" where
  "protocol_error b \<equiv> b\<lparr>b_protocol_errors := b_protocol_errors b + 1\<rparr>"

abbreviation auth_failure :: "tm_broker \<Rightarrow> tm_broker" where
  "auth_failure b \<equiv> b\<lparr>b_failed_auths := b_failed_auths b + 1\<rparr>"

definition conn_close :: "addr \<Rightarrow> cs \<Rightarrow> cs option" where
  "conn_close ca bc =
     (case bc of (b, c) \<Rightarrow>
        if c_closing c then Some (b, c)
        else if \<not> c_hs_timer c then None
        else Some (conn_unlink ca b,
                   c\<lparr>c_closing := True, c_hs_timer := False, c_io := None, c_ssl := False,
                     c_sock := False, c_fr := None\<rparr>))"

text \<open>\<open>send_frame_raw\<close> on the connection's own io, whose error callback is \<open>conn_error\<close>.\<close>

definition send_frame_raw :: "addr \<Rightarrow> u8 \<Rightarrow> u32 \<Rightarrow> bytes \<Rightarrow> cs \<Rightarrow> cs option" where
  "send_frame_raw ca type sid msg bc =
     (case bc of (b, c) \<Rightarrow>
        if c_io c = None then Some (b, c)
        else (case encode_msg type sid msg of
            None \<Rightarrow> Some (protocol_error b, c)
          | Some buf \<Rightarrow>
              (case tm_io_write (c_io c) buf of (r, io, ups) \<Rightarrow>
                 do { (b, c) \<leftarrow> (if up_error ups then conn_close ca (b, c\<lparr>c_io := io\<rparr>)
                                else Some (b, c\<lparr>c_io := io\<rparr>));
                      Some (if r \<noteq> TM_OK then protocol_error b else b, c) })))"

definition refuse :: "addr \<Rightarrow> u8 \<Rightarrow> u32 \<Rightarrow> string \<Rightarrow> cs \<Rightarrow> cs option" where
  "refuse ca type sid msg bc = do { bc \<leftarrow> send_frame_raw ca type sid (text_bytes msg) bc; conn_close ca bc }"

text \<open>The end of a promotion: the connection leaves the list and its timer is closed.\<close>

definition conn_retire :: "addr \<Rightarrow> cs \<Rightarrow> cs option" where
  "conn_retire ca bc =
     (case bc of (b, c) \<Rightarrow>
        if \<not> c_hs_timer c then None else Some (conn_unlink ca b, c\<lparr>c_hs_timer := False\<rparr>))"

subsection \<open>Agents\<close>

text \<open>
  The id and the secret of a \<open>REGISTER\<close> or \<open>AUTH\<close> payload, or \<open>None\<close> where the handlers refuse its lengths.
\<close>

definition cred_fields :: "tm_frame \<Rightarrow> (bytes \<times> bytes) option" where
  "cred_fields f =
     (let n = unat (f_payload_len f) in
      if n < 3 \<or> 2 + TM_TUNNEL_ID_LEN + TM_MAX_SECRET < n then None
      else
        let idlen = unat (rd_u16 (f_payload f)) in
        if idlen = 0 \<or> n < 2 + idlen then None
        else if n - 2 - idlen = 0 then None
        else Some (take idlen (drop 2 (f_payload f)), take (n - 2 - idlen) (drop (2 + idlen) (f_payload f))))"

definition never_matches :: bytes where
  "never_matches = replicate 64 48"

text \<open>The tunnel a registration may use, and the one a peer may use.\<close>

definition register_tunnel :: "tm_broker \<Rightarrow> bytes \<Rightarrow> (addr \<times> tm_tunnel) option" where
  "register_tunnel b tid =
     (case tm_tunnel_find b tid of
        None \<Rightarrow> None
      | Some ta \<Rightarrow> (case get_tun b ta of
            None \<Rightarrow> None
          | Some t \<Rightarrow> if t_enabled t then Some (ta, t) else None))"

definition peer_tunnel :: "tm_broker \<Rightarrow> bytes \<Rightarrow> (addr \<times> tm_tunnel) option" where
  "peer_tunnel b tid =
     (case register_tunnel b tid of
        None \<Rightarrow> None
      | Some (ta, t) \<Rightarrow> if t_closed t \<and> t_shared_token_hmac t \<noteq> [] then Some (ta, t) else None)"

text \<open>The promotion to an agent; \<open>send_frame_raw\<close> is called on the agent's io, whose error callback frees the agent.\<close>

definition agent_promote :: "u64 \<Rightarrow> addr \<Rightarrow> addr \<Rightarrow> cs \<Rightarrow> cs option" where
  "agent_promote now ca ta bc =
     (case bc of (b, c) \<Rightarrow>
        do { fr \<leftarrow> c_fr c;
             t \<leftarrow> get_tun b ta;
             let aa = b_heap b;
             let a = \<lparr>a_sock = c_sock c, a_io = tm_io_set_cbs (c_io c) False True, a_fr = fr,
                      a_last_rx_ms = now, a_last_ping_ms = now, a_remote = snprintf_s 128 (c_remote c)\<rparr>;
             let c = c\<lparr>c_sock := False, c_io := None, c_fr := None\<rparr>;
             let b = b\<lparr>b_heap := Suc aa\<rparr>;
             let b = (if t_agent t \<noteq> None
                      then tm_agent_drop ta (b\<lparr>b_agent_reconnects := b_agent_reconnects b + 1\<rparr>) else b);
             t \<leftarrow> get_tun b ta;
             let b = put_tun ta (t\<lparr>t_agent := Some (aa, a), t_agent_online := True, t_last_seen_ms := now\<rparr>) b;
             b \<leftarrow> (case encode_msg TM_MSG_REGISTER_OK 0 [] of
                      None \<Rightarrow> Some (protocol_error b)
                    | Some buf \<Rightarrow> do { (r, b) \<leftarrow> agent_io_write ta aa buf b;
                                      Some (if r \<noteq> TM_OK then protocol_error b else b) });
             _ \<leftarrow> agent_at b ta aa;
             conn_retire ca (b, c) })"

definition agent_register :: "crypto \<Rightarrow> u64 \<Rightarrow> addr \<Rightarrow> tm_frame \<Rightarrow> cs \<Rightarrow> cs option" where
  "agent_register cr now ca f bc =
     (case bc of (b, c) \<Rightarrow>
        (case cred_fields f of
           None \<Rightarrow> refuse ca TM_MSG_REGISTER_ERROR 0 ''bad register'' (b, c)
         | Some (tid, secret) \<Rightarrow>
             if TM_TUNNEL_ID_LEN < length tid then None
             else
               let found = register_tunnel b (cstr tid);
                   hex = credential cr b secret;
                   expected = (case found of Some (_, t) \<Rightarrow> t_agent_secret_hmac t | None \<Rightarrow> never_matches);
                   secret_ok = tm_ct_eq_hex hex expected
               in (case found of
                     Some (ta, _) \<Rightarrow>
                       if secret_ok then agent_promote now ca ta (b, c)
                       else refuse ca TM_MSG_REGISTER_ERROR 0 ''bad credentials'' (auth_failure b, c)
                   | None \<Rightarrow> refuse ca TM_MSG_REGISTER_ERROR 0 ''bad credentials'' (auth_failure b, c))))"

subsection \<open>Peers of closed tunnels\<close>

definition peer_auth :: "crypto \<Rightarrow> addr \<Rightarrow> tm_frame \<Rightarrow> cs \<Rightarrow> cs option" where
  "peer_auth cr ca f bc =
     (case bc of (b, c) \<Rightarrow>
        (case cred_fields f of
           None \<Rightarrow> refuse ca TM_MSG_AUTH_ERROR 0 ''bad credentials'' (auth_failure b, c)
         | Some (tid, token) \<Rightarrow>
             if TM_TUNNEL_ID_LEN < length tid then None
             else
               let found = peer_tunnel b (cstr tid);
                   hex = credential cr b token;
                   expected = (case found of Some (_, t) \<Rightarrow> t_shared_token_hmac t | None \<Rightarrow> never_matches);
                   token_ok = tm_ct_eq_hex hex expected
               in (case found of
                     Some (ta, _) \<Rightarrow>
                       if token_ok
                       then send_frame_raw ca TM_MSG_AUTH_OK 0 [] (b, c\<lparr>c_peer_authed := True, c_peer_tun := Some ta\<rparr>)
                       else refuse ca TM_MSG_AUTH_ERROR 0 ''bad credentials'' (auth_failure b, c)
                   | None \<Rightarrow> refuse ca TM_MSG_AUTH_ERROR 0 ''bad credentials'' (auth_failure b, c))))"

text \<open>\<open>send_frame_raw\<close> on leg A of a new stream, whose callbacks are the relay's.\<close>

definition stream_send_raw :: "addr \<Rightarrow> addr \<Rightarrow> u8 \<Rightarrow> tm_broker \<Rightarrow> tm_broker option" where
  "stream_send_raw ta sa type b =
     do { t \<leftarrow> get_tun b ta;
          st \<leftarrow> map_of (t_streams t) sa;
          if st_io st LegA = None then Some b
          else (case encode_msg type 0 [] of
              None \<Rightarrow> Some (protocol_error b)
            | Some buf \<Rightarrow>
                (case tm_io_write (st_io st LegA) buf of (r, io, ups) \<Rightarrow>
                   do { b \<leftarrow> stream_apply ta sa (\<lambda>st. run_ups (up3 LegA) ups (set_io LegA io st)) b;
                        Some (if r \<noteq> TM_OK then protocol_error b else b) })) }"

definition pending_streams :: "tm_tunnel \<Rightarrow> int" where
  "pending_streams t = int (length (filter (\<lambda>(_, st). \<not> st_bound st) (t_streams t)))"

definition peer_open_stream :: "u64 \<Rightarrow> addr \<Rightarrow> cs \<Rightarrow> cs option" where
  "peer_open_stream now ca bc =
     (case bc of (b, c) \<Rightarrow>
        (case c_peer_tun c of
           None \<Rightarrow> refuse ca TM_MSG_DATA_BIND_ERROR 0 ''tunnel offline'' (b, c)
         | Some ta \<Rightarrow>
             do { t \<leftarrow> get_tun b ta;
                  if \<not> t_agent_online t \<or> t_agent t = None
                  then refuse ca TM_MSG_DATA_BIND_ERROR 0 ''tunnel offline'' (b, c)
                  else if cfg_max_pending_streams (b_cfg b) \<le> pending_streams t
                  then refuse ca TM_MSG_DATA_BIND_ERROR 0 ''no capacity'' (b, c)
                  else
                    do { fr \<leftarrow> c_fr c;
                         let (lo, fr) = tm_frame_reader_drain fr;
                         let c = c\<lparr>c_fr := Some fr\<rparr>;
                         (sao, b) \<leftarrow> tm_stream_create_closed now ta (c_io c) b;
                         case sao of
                           None \<Rightarrow> refuse ca TM_MSG_DATA_BIND_ERROR 0 ''no capacity'' (b, c)
                         | Some sa \<Rightarrow>
                             do { let c = c\<lparr>c_sock := False, c_io := None\<rparr>;
                                  st \<leftarrow> Option.bind (get_tun b ta) (\<lambda>t. map_of (t_streams t) sa);
                                  b \<leftarrow> stream_send_raw ta sa TM_MSG_DATA_BIND_OK b;
                                  b \<leftarrow> tm_agent_send_frame ta TM_MSG_OPEN_STREAM (st_id st) b;
                                  b \<leftarrow> (if lo \<noteq> [] then broker_a_read ta sa lo b else Some b);
                                  conn_retire ca (b, c\<lparr>c_fr := None\<rparr>) } } }))"

definition peer_frame :: "u64 \<Rightarrow> addr \<Rightarrow> tm_frame \<Rightarrow> cs \<Rightarrow> cs option" where
  "peer_frame now ca f bc =
     (case bc of (b, c) \<Rightarrow>
        if f_type f = TM_MSG_DATA_BIND then
          if f_stream_id f = 0 then peer_open_stream now ca (b, c) else conn_close ca (protocol_error b, c)
        else if f_type f = TM_MSG_CLOSE_STREAM then
          do { ta \<leftarrow> c_peer_tun c;
               t \<leftarrow> get_tun b ta;
               case tm_stream_find t (f_stream_id f) of
                 None \<Rightarrow> Some (b, c)
               | Some sa \<Rightarrow> Some (stream_close ta sa b, c) }
        else if f_type f = TM_MSG_PING then send_frame_raw ca TM_MSG_PONG 0 [] (b, c)
        else conn_close ca (protocol_error b, c))"

subsection \<open>Data connections of agents\<close>

text \<open>The first stream with the given id, over the tunnels in the order of their list.\<close>

fun find_stream :: "(addr \<times> tm_tunnel) list \<Rightarrow> u32 \<Rightarrow> (addr \<times> addr) option" where
  "find_stream [] sid = None"
| "find_stream ((ta, t) # ts) sid =
     (case tm_stream_find t sid of Some sa \<Rightarrow> Some (ta, sa) | None \<Rightarrow> find_stream ts sid)"

text \<open>
  \<open>uv\<close> are the answers libuv will give the raw leg of the public client, if one is created. When
  writing \<open>DATA_BIND_OK\<close> fails, \<open>conn_error\<close> has closed the connection and its timer, and the end of
  the function closes the timer again.
\<close>

definition data_conn_bind :: "bool list \<Rightarrow> addr \<Rightarrow> addr \<Rightarrow> addr \<Rightarrow> u32 \<Rightarrow> cs \<Rightarrow> cs option" where
  "data_conn_bind uv ca ta sa sid bc =
     (case bc of (b, c) \<Rightarrow>
        do { fr \<leftarrow> c_fr c;
             let (lo, fr) = tm_frame_reader_drain fr;
             (b, c) \<leftarrow> send_frame_raw ca TM_MSG_DATA_BIND_OK sid [] (b, c\<lparr>c_fr := Some fr\<rparr>);
             io \<leftarrow> c_io c;
             b \<leftarrow> stream_apply ta sa (tm_stream_relay_attach_agent uv io) b;
             b \<leftarrow> (if lo \<noteq> [] then broker_b_read ta sa lo b else Some b);
             conn_retire ca (b, c\<lparr>c_sock := False, c_io := None, c_fr := None\<rparr>) })"

definition data_conn_first_frame :: "crypto \<Rightarrow> bool list \<Rightarrow> addr \<Rightarrow> tm_frame \<Rightarrow> cs \<Rightarrow> cs option" where
  "data_conn_first_frame cr uv ca f bc =
     (case bc of (b, c) \<Rightarrow>
        if f_stream_id f = 0 \<or> f_payload_len f = 0 \<or> TM_MAX_SECRET < unat (f_payload_len f)
        then conn_close ca (protocol_error b, c)
        else
          (case find_stream (b_tunnels b) (f_stream_id f) of
             None \<Rightarrow> refuse ca TM_MSG_DATA_BIND_ERROR (f_stream_id f) ''no such stream'' (b, c)
           | Some (ta, sa) \<Rightarrow>
               do { t \<leftarrow> get_tun b ta;
                    st \<leftarrow> map_of (t_streams t) sa;
                    if st_bound st \<or> st_closing st \<or> \<not> t_enabled t
                    then refuse ca TM_MSG_DATA_BIND_ERROR (f_stream_id f) ''no such stream'' (b, c)
                    else if \<not> tm_ct_eq_hex
                                (credential cr b (take (unat (f_payload_len f)) (f_payload f))) (t_agent_secret_hmac t)
                    then refuse ca TM_MSG_DATA_BIND_ERROR (f_stream_id f) ''bad credentials'' (auth_failure b, c)
                    else data_conn_bind uv ca ta sa (f_stream_id f) (b, c) }))"

subsection \<open>Dispatch\<close>

definition conn_frame :: "crypto \<Rightarrow> bool list \<Rightarrow> u64 \<Rightarrow> addr \<Rightarrow> tm_frame \<Rightarrow> cs \<Rightarrow> cs option" where
  "conn_frame cr uv now ca f bc =
     (case bc of (b, c) \<Rightarrow>
        if \<not> c_got_hello c then
          if f_type f = TM_MSG_HELLO
          then send_frame_raw ca TM_MSG_HELLO_ACK 0 [] (b, c\<lparr>c_got_hello := True\<rparr>)
          else if f_type f = TM_MSG_DATA_BIND then data_conn_first_frame cr uv ca f (b, c)
          else conn_close ca (protocol_error b, c)
        else if c_peer_authed c then peer_frame now ca f (b, c)
        else if f_type f = TM_MSG_REGISTER then agent_register cr now ca f (b, c)
        else if f_type f = TM_MSG_AUTH then peer_auth cr ca f (b, c)
        else if f_type f = TM_MSG_PING then send_frame_raw ca TM_MSG_PONG 0 [] (b, c)
        else conn_close ca (protocol_error b, c))"

text \<open>
  The loop of \<open>conn_read\<close> over the frames of a chunk; the flag says whether it ran to the end. It
  stops when a frame has closed or promoted the connection.
\<close>

fun conn_frames ::
    "crypto \<Rightarrow> bool list \<Rightarrow> u64 \<Rightarrow> addr \<Rightarrow> (tm_frame \<times> tm_frame_reader) list \<Rightarrow> cs \<Rightarrow> (bool \<times> cs) option" where
  "conn_frames cr uv now ca [] bc = Some (True, bc)"
| "conn_frames cr uv now ca ((f, r) # ps) bc =
     (case bc of (b, c) \<Rightarrow>
        do { (b, c) \<leftarrow> conn_frame cr uv now ca f (b, c\<lparr>c_fr := Some r\<rparr>);
             if c_closing c \<or> c_fr c = None then Some (False, b, c)
             else conn_frames cr uv now ca ps (b, c) })"

definition conn_store :: "addr \<Rightarrow> cs \<Rightarrow> tm_broker" where
  "conn_store ca bc = (case bc of (b, c) \<Rightarrow> b\<lparr>b_conns := put ca c (b_conns b)\<rparr>)"

definition conn_read :: "crypto \<Rightarrow> bool list \<Rightarrow> u64 \<Rightarrow> addr \<Rightarrow> bytes \<Rightarrow> tm_broker \<Rightarrow> tm_broker option" where
  "conn_read cr uv now ca data b =
     do { c \<leftarrow> map_of (b_conns b) ca;
          fr \<leftarrow> c_fr c;
          let (ps, e, r) = feed_trace fr data;
          (go, b, c) \<leftarrow> conn_frames cr uv now ca ps (b, c\<lparr>c_last_rx_ms := now\<rparr>);
          (b, c) \<leftarrow> (if \<not> go then Some (b, c)
                    else if e then conn_close ca (protocol_error b, c\<lparr>c_fr := Some r\<rparr>)
                    else Some (b, c\<lparr>c_fr := Some r\<rparr>));
          Some (conn_store ca (b, c)) }"

text \<open>The other callbacks of a connection: end of file, error and handshake timeout all close it.\<close>

definition conn_event_close :: "addr \<Rightarrow> tm_broker \<Rightarrow> tm_broker option" where
  "conn_event_close ca b =
     do { c \<leftarrow> map_of (b_conns b) ca; (b, c) \<leftarrow> conn_close ca (b, c); Some b }"

definition conn_eof :: "addr \<Rightarrow> tm_broker \<Rightarrow> tm_broker option" where
  "conn_eof = conn_event_close"

definition conn_error :: "addr \<Rightarrow> tm_broker \<Rightarrow> tm_broker option" where
  "conn_error = conn_event_close"

definition conn_hs_timeout :: "addr \<Rightarrow> tm_broker \<Rightarrow> tm_broker option" where
  "conn_hs_timeout = conn_event_close"

text \<open>
  \<open>on_control_accept\<close> on an accepted socket: \<open>ssl\<close> tells whether \<open>tm_broker_accept_ssl\<close> succeeds, \<open>bio\<close> and
  \<open>sw\<close> are OpenSSL's answers to the new connection. The handshake it starts waits for the client.
\<close>

definition on_control_accept ::
    "bool \<Rightarrow> bio_ans list \<Rightarrow> sw_ans list \<Rightarrow> bytes \<Rightarrow> u64 \<Rightarrow> tm_broker \<Rightarrow> tm_broker option" where
  "on_control_accept ssl bio sw remote now b =
     (if b_shutting_down b then Some b
      else if TM_MAX_PENDING_CONNS \<le> int (length (b_conns b)) then Some b
      else
        let ca = b_heap b;
            b = b\<lparr>b_heap := Suc ca\<rparr>;
            c = \<lparr>c_sock = True, c_ssl = ssl, c_io = None, c_fr = None, c_hs_timer = False, c_last_rx_ms = now,
                 c_remote = snprintf_s 128 remote, c_got_hello = False, c_peer_authed = False,
                 c_peer_tun = None, c_closing = False\<rparr>
        in if \<not> ssl then map_option fst (conn_close ca (b, c))
           else
             let c = c\<lparr>c_hs_timer := True, c_fr := Some tm_frame_reader_new,
                       c_io := tm_io_start (Some (IoSsl (tm_io_ssl_new False True bio sw)))\<rparr>
             in Some (b\<lparr>b_conns := (ca, c) # b_conns b, b_conns_total := b_conns_total b + 1\<rparr>))"

definition tm_control_listener_start :: "listen_env \<Rightarrow> tm_broker \<Rightarrow> tm_broker" where
  "tm_control_listener_start env b =
     (if \<not> le_addr env \<or> \<not> le_bind env \<or> \<not> le_listen env then b else b\<lparr>b_control_listening := True\<rparr>)"

subsection \<open>The periodic sweep and shutdown\<close>

definition agent_tick :: "u64 \<Rightarrow> addr \<Rightarrow> tm_broker \<Rightarrow> tm_broker option" where
  "agent_tick now ta b =
     do { t \<leftarrow> get_tun b ta;
          case t_agent t of
            None \<Rightarrow> Some b
          | Some (aa, a) \<Rightarrow>
              if word_of_int (cfg_idle_timeout_ms (b_cfg b)) < now - a_last_rx_ms a
              then Some (tm_agent_drop ta b)
              else if word_of_int (cfg_heartbeat_interval_ms (b_cfg b)) \<le> now - a_last_ping_ms a
              then tm_agent_send_frame ta TM_MSG_PING 0 (put_agent ta aa (a\<lparr>a_last_ping_ms := now\<rparr>) b)
              else Some b }"

fun agent_ticks :: "u64 \<Rightarrow> addr list \<Rightarrow> tm_broker \<Rightarrow> tm_broker option" where
  "agent_ticks now [] b = Some b"
| "agent_ticks now (ta # tas) b = do { b \<leftarrow> agent_tick now ta b; agent_ticks now tas b }"

definition conn_tick :: "u64 \<Rightarrow> addr \<Rightarrow> tm_broker \<Rightarrow> tm_broker option" where
  "conn_tick now ca b =
     do { c \<leftarrow> map_of (b_conns b) ca;
          if \<not> c_closing c \<and> word_of_int (cfg_idle_timeout_ms (b_cfg b)) < now - c_last_rx_ms c
          then map_option fst (conn_close ca (b, c)) else Some b }"

fun conn_ticks :: "u64 \<Rightarrow> addr list \<Rightarrow> tm_broker \<Rightarrow> tm_broker option" where
  "conn_ticks now [] b = Some b"
| "conn_ticks now (ca # cas) b = do { b \<leftarrow> conn_tick now ca b; conn_ticks now cas b }"

definition tm_agent_tick :: "u64 \<Rightarrow> tm_broker \<Rightarrow> tm_broker option" where
  "tm_agent_tick now b =
     do { b \<leftarrow> agent_ticks now (map fst (b_tunnels b)) b; conn_ticks now (map fst (b_conns b)) b }"

fun goaway :: "addr list \<Rightarrow> tm_broker \<Rightarrow> tm_broker option" where
  "goaway [] b = Some b"
| "goaway (ta # tas) b = do { b \<leftarrow> tm_agent_send_frame ta TM_MSG_GOING_AWAY 0 b; goaway tas b }"

definition tm_control_goaway_all :: "tm_broker \<Rightarrow> tm_broker option" where
  "tm_control_goaway_all b = goaway (map fst (b_tunnels b)) b"

fun drop_agents :: "addr list \<Rightarrow> tm_broker \<Rightarrow> tm_broker" where
  "drop_agents [] b = b"
| "drop_agents (ta # tas) b = drop_agents tas (tm_agent_drop ta b)"

fun close_conns :: "addr list \<Rightarrow> tm_broker \<Rightarrow> tm_broker option" where
  "close_conns [] b = Some b"
| "close_conns (ca # cas) b = do { b \<leftarrow> conn_event_close ca b; close_conns cas b }"

definition tm_control_close_all :: "tm_broker \<Rightarrow> tm_broker option" where
  "tm_control_close_all b =
     (let b = drop_agents (map fst (b_tunnels b)) b in close_conns (map fst (b_conns b)) b)"

end
