(* ===== verification/RegistryInv.thy ===== *)
theory RegistryInv
  imports Registry
begin

text \<open>
  Properties of listeners, ports and the registry: the allocator is exact and complete, a tunnel's
  listener handle is never reused or freed under libuv as long as binding succeeds, and closed TCP
  tunnels are never exposed.
\<close>

section \<open>The port allocator\<close>

definition taken :: "bool list \<Rightarrow> nat" where
  "taken tbl = length (filter id tbl)"

text \<open>
  The tables have one flag per port and \<open>ports_used\<close> counts the flags that are set. The count is kept
  in 16 bits, which is enough for ranges of less than 32768 ports.
\<close>

definition ports_inv :: "tm_broker \<Rightarrow> bool" where
  "ports_inv b \<longleftrightarrow>
     length (b_ports_tcp b) = port_count (b_cfg b) \<and> length (b_ports_udp b) = port_count (b_cfg b) \<and>
     unat (b_ports_used b) = taken (b_ports_tcp b) + taken (b_ports_udp b)"

definition range_ok :: "tm_broker_cfg \<Rightarrow> bool" where
  "range_ok cfg \<longleftrightarrow> 0 < cfg_public_port_start cfg \<and> cfg_public_port_start cfg \<le> cfg_public_port_end cfg \<and>
     port_count cfg < 32768"

lemma taken_le: "taken tbl \<le> length tbl"
  by (simp add: taken_def)

lemma taken_set:
  "i < length tbl \<Longrightarrow> \<not> tbl ! i \<Longrightarrow> taken (tbl[i := True]) = Suc (taken tbl)"
  "i < length tbl \<Longrightarrow> tbl ! i \<Longrightarrow> Suc (taken (tbl[i := False])) = taken tbl"
  by (induction tbl arbitrary: i) (auto simp: taken_def nth_Cons split: nat.splits)

lemma taken_full: "taken tbl = length tbl \<longleftrightarrow> (\<forall>i < length tbl. tbl ! i)"
proof -
  have "length (filter id xs) = length xs \<longleftrightarrow> (\<forall>x \<in> set xs. x)" for xs :: "bool list"
  proof (induction xs)
    case (Cons x xs)
    have "length (filter id xs) \<noteq> Suc (length xs)" using length_filter_le [of id xs] by linarith
    then show ?case using Cons by (simp add: id_def)
  qed simp
  then show ?thesis by (simp add: taken_def all_set_conv_all_nth)
qed

lemma port_scan_Some:
  "0 < n \<Longrightarrow> port_scan tbl n start i k = Some idx \<Longrightarrow> idx < n \<and> \<not> tbl ! idx"
  by (induction k arbitrary: i) (auto simp: Let_def split: if_splits)

lemma port_scan_None:
  "port_scan tbl n start i k = None \<Longrightarrow> j < k \<Longrightarrow> tbl ! ((start + i + j) mod n)"
proof (induction k arbitrary: i j)
  case (Suc k)
  have head: "tbl ! ((start + i) mod n)" and rest: "port_scan tbl n start (Suc i) k = None"
    using Suc.prems(1) by (auto simp: Let_def split: if_splits)
  show ?case
  proof (cases j)
    case (Suc m)
    then show ?thesis using Suc.IH [OF rest, of m] Suc.prems(2) by simp
  qed (use head in simp)
qed simp

text \<open>The scan visits every residue.\<close>

lemma port_scan_complete:
  assumes "port_scan tbl n start 0 n = None" "i < n"
  shows "tbl ! i"
proof -
  have n: "0 < n" using assms(2) by simp
  define j where "j = (i + n - start mod n) mod n"
  have "(start + j) mod n = (start mod n + (i + n - start mod n)) mod n"
    by (simp add: j_def mod_simps)
  also have "start mod n + (i + n - start mod n) = i + n" using mod_less_divisor [OF n, of start] by simp
  also have "(i + n) mod n = i" using assms(2) by simp
  finally have "(start + 0 + j) mod n = i" by simp
  moreover have "j < n" using n by (simp add: j_def)
  ultimately show ?thesis using port_scan_None [OF assms(1), of j] by simp
qed

lemma port_index_less:
  assumes "tm_port_in_range b p"
  shows "port_index b p < port_count (b_cfg b)"
proof -
  have "unat (cfg_public_port_start (b_cfg b)) \<le> unat p" "unat p \<le> unat (cfg_public_port_end (b_cfg b))"
    using assms(1) by (simp_all add: tm_port_in_range_def word_le_nat_alt)
  moreover have "nat (uint (cfg_public_port_end (b_cfg b)) - uint (cfg_public_port_start (b_cfg b))) =
      unat (cfg_public_port_end (b_cfg b)) - unat (cfg_public_port_start (b_cfg b))"
    by (simp add: nat_diff_distrib')
  ultimately show ?thesis by (simp add: port_index_def port_count_def)
qed

lemma set_port_table_fields [simp]:
  "b_cfg (set_port_table proto tbl b) = b_cfg b" "b_tunnels (set_port_table proto tbl b) = b_tunnels b"
  "b_detached (set_port_table proto tbl b) = b_detached b" "b_heap (set_port_table proto tbl b) = b_heap b"
  "b_tunnel_count (set_port_table proto tbl b) = b_tunnel_count b"
  by (simp_all add: set_port_table_def)

lemma port_table_set [simp]:
  "port_table (set_port_table proto tbl b) proto' = (if proto = proto' then tbl else port_table b proto')"
  by (cases proto; cases proto'; simp add: set_port_table_def port_table_def)

lemma port_table_update [simp]:
  "port_table (b\<lparr>b_ports_used := u\<rparr>) = port_table b" "port_table (b\<lparr>b_cursor := c\<rparr>) = port_table b"
  "port_table (b\<lparr>b_tunnels := ts\<rparr>) = port_table b" "port_table (b\<lparr>b_tunnel_count := k\<rparr>) = port_table b"
  "port_table (b\<lparr>b_heap := h\<rparr>) = port_table b" "port_table (b\<lparr>b_detached := ds\<rparr>) = port_table b"
  by (rule ext, simp add: port_table_def)+

lemma ports_inv_alt:
  "ports_inv b \<longleftrightarrow> (\<forall>proto. length (port_table b proto) = port_count (b_cfg b)) \<and>
     unat (b_ports_used b) = taken (port_table b TM_PROTO_TCP) + taken (port_table b TM_PROTO_UDP)"
  by (auto simp: ports_inv_def port_table_def split: if_splits)

lemma ports_inv_take:
  assumes "range_ok (b_cfg b)" "ports_inv b" "i < port_count (b_cfg b)" "\<not> port_table b proto ! i"
  shows "ports_inv ((set_port_table proto ((port_table b proto)[i := True]) b)\<lparr>b_ports_used := b_ports_used b + 1\<rparr>)"
proof -
  have len: "length (port_table b q) = port_count (b_cfg b)" for q
    using assms(2) by (simp add: ports_inv_alt)
  have "taken (port_table b TM_PROTO_TCP) + taken (port_table b TM_PROTO_UDP) \<le> 2 * port_count (b_cfg b)"
    using taken_le [of "port_table b TM_PROTO_TCP"] taken_le [of "port_table b TM_PROTO_UDP"] by (simp add: len)
  then have "unat (b_ports_used b) + 1 < 65536"
    using assms(1,2) by (simp add: ports_inv_alt range_ok_def)
  then have "unat (b_ports_used b + 1) = Suc (unat (b_ports_used b))"
    by (simp add: unat_word_ariths)
  then show ?thesis
    using assms(2-4) by (cases proto) (simp_all add: ports_inv_alt len taken_set)
qed

lemma ports_inv_release:
  assumes "ports_inv b" "i < port_count (b_cfg b)"
  shows "ports_inv ((set_port_table proto ((port_table b proto)[i := False]) b)
    \<lparr>b_ports_used := (if port_table b proto ! i then b_ports_used b - 1 else b_ports_used b)\<rparr>)"
proof (cases "port_table b proto ! i")
  case True
  have len: "length (port_table b q) = port_count (b_cfg b)" for q
    using assms(1) by (simp add: ports_inv_alt)
  have t: "Suc (taken ((port_table b proto)[i := False])) = taken (port_table b proto)"
    using assms(2) True by (simp add: len taken_set)
  have "unat (b_ports_used b) = taken (port_table b TM_PROTO_TCP) + taken (port_table b TM_PROTO_UDP)"
    using assms(1) by (simp add: ports_inv_alt)
  moreover from this have "b_ports_used b \<noteq> 0" using t by (cases proto) auto
  then have "unat (b_ports_used b - 1) = unat (b_ports_used b) - 1" by (rule unat_minus_one)
  ultimately show ?thesis using True t by (cases proto) (simp_all add: ports_inv_alt len)
next
  case False
  then have "(port_table b proto)[i := False] = port_table b proto"
    using list_update_id [of "port_table b proto" i] by simp
  then show ?thesis using False assms(1) by (cases proto) (simp_all add: ports_inv_alt)
qed

lemma port_of_index:
  assumes "range_ok (b_cfg b)" "i < port_count (b_cfg b)"
  defines "p \<equiv> cfg_public_port_start (b_cfg b) + of_nat i"
  shows "p \<noteq> 0" "tm_port_in_range b p" "port_index b p = i"
proof -
  have le: "unat (cfg_public_port_start (b_cfg b)) \<le> unat (cfg_public_port_end (b_cfg b))"
    using assms(1) by (simp add: range_ok_def word_le_nat_alt)
  then have "nat (uint (cfg_public_port_end (b_cfg b)) - uint (cfg_public_port_start (b_cfg b))) =
      unat (cfg_public_port_end (b_cfg b)) - unat (cfg_public_port_start (b_cfg b))"
    by (simp add: nat_diff_distrib')
  then have i: "unat (cfg_public_port_start (b_cfg b)) + i \<le> unat (cfg_public_port_end (b_cfg b))"
    using assms(2) le by (simp add: port_count_def)
  moreover have "unat (cfg_public_port_end (b_cfg b)) < 65536"
    by (rule order_less_le_trans [OF unsigned_less]) simp
  ultimately have p: "unat p = unat (cfg_public_port_start (b_cfg b)) + i"
    by (simp add: p_def unat_word_ariths unsigned_of_nat take_bit_nat_eq_self)
  moreover have "0 < unat (cfg_public_port_start (b_cfg b))"
    using assms(1) by (simp add: range_ok_def word_less_nat_alt)
  ultimately show "p \<noteq> 0" by auto
  show "tm_port_in_range b p" "port_index b p = i"
    using p i by (simp_all add: tm_port_in_range_def port_index_def word_le_nat_alt)
qed

lemma port_index_inj:
  "tm_port_in_range b p \<Longrightarrow> tm_port_in_range b q \<Longrightarrow> port_index b p = port_index b q \<longleftrightarrow> p = q"
  by (auto simp: tm_port_in_range_def port_index_def word_le_nat_alt word_unat_eq_iff)

text \<open>The three outcomes of the allocator.\<close>

definition port_free :: "tm_broker \<Rightarrow> tm_proto \<Rightarrow> u16 \<Rightarrow> bool" where
  "port_free b proto p \<longleftrightarrow> tm_port_in_range b p \<and> \<not> port_table b proto ! port_index b p"

lemma port_free_cong:
  "b_cfg b' = b_cfg b \<Longrightarrow> port_table b' proto = port_table b proto \<Longrightarrow> port_free b' proto q = port_free b proto q"
  by (simp add: port_free_def tm_port_in_range_def port_index_def)

lemma port_free_take:
  assumes "ports_inv b" "tm_port_in_range b p" "tm_port_in_range b q" "b_cfg b' = b_cfg b"
      "\<And>r. port_table b' r =
        (if proto = r then (port_table b proto)[port_index b p := True] else port_table b r)"
  shows "port_free b' proto' q = (port_free b proto' q \<and> (proto', q) \<noteq> (proto, p))"
proof -
  have "port_index b p < length (port_table b proto)"
    using assms(1) port_index_less [OF assms(2)] by (simp add: ports_inv_alt)
  moreover have "port_index b' = port_index b" "tm_port_in_range b' = tm_port_in_range b"
    using assms(4) by (simp_all add: fun_eq_iff port_index_def tm_port_in_range_def)
  ultimately show ?thesis
    using port_index_inj [OF assms(2,3)] by (auto simp: port_free_def assms(5) nth_list_update)
qed

lemma ports_inv_cursor [simp]: "ports_inv (b\<lparr>b_cursor := c\<rparr>) = ports_inv b"
  by (simp add: ports_inv_def)

definition port_alloc_ok :: "tm_broker \<Rightarrow> tm_broker \<Rightarrow> tm_proto \<Rightarrow> u16 \<Rightarrow> bool" where
  "port_alloc_ok b b' proto p \<longleftrightarrow> ports_inv b' \<and> b_cfg b' = b_cfg b \<and> port_free b proto p \<and>
    (\<forall>proto' q. tm_port_in_range b q \<longrightarrow>
       port_free b' proto' q = (port_free b proto' q \<and> (proto', q) \<noteq> (proto, p)))"

lemma port_alloc_taken:
  assumes "range_ok (b_cfg b)" "ports_inv b" "tm_port_in_range b p" "\<not> port_table b proto ! port_index b p"
      "b1 = (set_port_table proto ((port_table b proto)[port_index b p := True]) b)\<lparr>b_ports_used := b_ports_used b + 1\<rparr>"
      "b' = b1 \<or> b' = b1\<lparr>b_cursor := c\<rparr>"
  shows "port_alloc_ok b b' proto p"
proof -
  have "ports_inv b1"
    unfolding assms(5) using assms(1-4) port_index_less by (intro ports_inv_take) simp_all
  moreover have "b_cfg b' = b_cfg b"
      "port_table b' r = (if proto = r then (port_table b proto)[port_index b p := True] else port_table b r)" for r
    using assms(5,6) by auto
  ultimately show ?thesis
    using port_free_take [OF assms(2,3), of _ b'] assms(3,4,6)
    by (auto simp: port_alloc_ok_def port_free_def [of b proto p])
qed

lemma ports_full:
  assumes "ports_inv b" "int (port_count (b_cfg b)) * 2 \<le> uint (b_ports_used b)"
  shows "\<not> port_free b proto q"
proof
  assume f: "port_free b proto q"
  have len: "length (port_table b r) = port_count (b_cfg b)" for r using assms(1) by (simp add: ports_inv_alt)
  have "\<exists>i < length (port_table b proto). \<not> port_table b proto ! i"
    using f port_index_less len by (auto simp: port_free_def)
  then have "taken (port_table b proto) \<noteq> length (port_table b proto)" by (simp add: taken_full)
  then have lt: "taken (port_table b proto) < port_count (b_cfg b)"
    using taken_le [of "port_table b proto"] len [of proto] by linarith
  have le: "taken (port_table b r) \<le> port_count (b_cfg b)" for r
    using taken_le [of "port_table b r"] len [of r] by linarith
  have "2 * port_count (b_cfg b) \<le> unat (b_ports_used b)"
    using assms(2) by (simp only: uint_nat)
  then have "2 * port_count (b_cfg b) \<le> taken (port_table b TM_PROTO_TCP) + taken (port_table b TM_PROTO_UDP)"
    using assms(1) by (simp add: ports_inv_alt)
  then show False using lt le [of TM_PROTO_TCP] le [of TM_PROTO_UDP] by (cases proto) simp_all
qed

lemma port_alloc_branches:
  "int (port_count (b_cfg b)) * 2 \<le> uint (b_ports_used b) \<Longrightarrow> tm_port_alloc proto prefer b = (0, b)"
  "\<not> int (port_count (b_cfg b)) * 2 \<le> uint (b_ports_used b) \<Longrightarrow> prefer \<noteq> 0 \<and> port_free b proto prefer \<Longrightarrow>
     tm_port_alloc proto prefer b =
       (prefer, (set_port_table proto ((port_table b proto)[port_index b prefer := True]) b)
                  \<lparr>b_ports_used := b_ports_used b + 1\<rparr>)"
  "\<not> int (port_count (b_cfg b)) * 2 \<le> uint (b_ports_used b) \<Longrightarrow> \<not> (prefer \<noteq> 0 \<and> port_free b proto prefer) \<Longrightarrow>
     tm_port_alloc proto prefer b =
       (case port_scan (port_table b proto) (port_count (b_cfg b)) (b_cursor b) 0 (port_count (b_cfg b)) of
          None \<Rightarrow> (0, b)
        | Some idx \<Rightarrow>
            (cfg_public_port_start (b_cfg b) + of_nat idx,
             (set_port_table proto ((port_table b proto)[idx := True]) b)
               \<lparr>b_ports_used := b_ports_used b + 1, b_cursor := (idx + 1) mod port_count (b_cfg b)\<rparr>))"
  unfolding tm_port_alloc_def Let_def port_free_def by (simp_all only: if_True if_False simp_thms)

lemma port_alloc_spec:
  assumes "range_ok (b_cfg b)" "ports_inv b" "tm_port_alloc proto prefer b = (p, b')"
  shows "ports_inv b' \<and> b_cfg b' = b_cfg b \<and>
    (if p = 0 then b' = b \<and> (\<forall>q. \<not> port_free b proto q)
     else port_free b proto p \<and> (port_free b proto prefer \<and> prefer \<noteq> 0 \<longrightarrow> p = prefer) \<and>
       (\<forall>proto' q. tm_port_in_range b q \<longrightarrow>
          port_free b' proto' q = (port_free b proto' q \<and> (proto', q) \<noteq> (proto, p))))"
proof -
  let ?n = "port_count (b_cfg b)" and ?tbl = "port_table b proto"
  consider (used_up) "int ?n * 2 \<le> uint (b_ports_used b)"
    | (preferred) "\<not> int ?n * 2 \<le> uint (b_ports_used b)" "prefer \<noteq> 0" "port_free b proto prefer"
    | (rotate) "\<not> int ?n * 2 \<le> uint (b_ports_used b)" "\<not> (prefer \<noteq> 0 \<and> port_free b proto prefer)"
    by blast
  then show ?thesis
  proof cases
    case used_up
    then show ?thesis using assms(2,3) ports_full [OF assms(2)] by (simp add: port_alloc_branches(1))
  next
    case preferred
    note eq = assms(3) [unfolded port_alloc_branches(2) [OF preferred(1) conjI [OF preferred(2,3)]], symmetric]
    have "p = prefer" "b' = (set_port_table proto (?tbl[port_index b prefer := True]) b)
        \<lparr>b_ports_used := b_ports_used b + 1\<rparr>"
      using eq by (simp_all only: prod.inject)
    moreover have "tm_port_in_range b prefer" "\<not> ?tbl ! port_index b prefer"
      using preferred(3) by (simp_all add: port_free_def)
    ultimately have "port_alloc_ok b b' proto p"
      using port_alloc_taken [OF assms(1,2)] by blast
    then show ?thesis using preferred(2) \<open>p = prefer\<close> unfolding port_alloc_ok_def by simp
  next
    case rotate
    note scan = assms(3) [unfolded port_alloc_branches(3) [OF rotate], symmetric]
    show ?thesis
    proof (cases "port_scan ?tbl ?n (b_cursor b) 0 ?n")
      case None
      then have "\<not> port_free b proto q" for q
        using port_scan_complete [OF None] port_index_less [of b q] by (auto simp: port_free_def)
      then show ?thesis using scan None assms(2) by simp
    next
      case (Some i)
      have i: "i < ?n" "\<not> ?tbl ! i" using port_scan_Some [OF _ Some] by (simp_all add: port_count_def)
      have p: "p = cfg_public_port_start (b_cfg b) + of_nat i" using scan Some by simp
      note idx = port_of_index [OF assms(1) i(1), folded p]
      have "b' = ((set_port_table proto (?tbl[port_index b p := True]) b)\<lparr>b_ports_used := b_ports_used b + 1\<rparr>)
          \<lparr>b_cursor := (i + 1) mod ?n\<rparr>"
        using scan Some idx(3) by simp
      then have "port_alloc_ok b b' proto p"
        using port_alloc_taken [OF assms(1,2) idx(2), of proto _ b'] i(2) idx(3) by blast
      then show ?thesis using idx(1) rotate(2) unfolding port_alloc_ok_def by argo
    qed
  qed
qed


text \<open>A broker with the default configuration but three public ports.\<close>

definition demo_broker :: tm_broker where
  "demo_broker = broker_new ((cfg_load [])\<lparr>cfg_public_port_start := 7000, cfg_public_port_end := 7002\<rparr>) []"

lemma demo_broker_fields [simp]:
  "cfg_public_port_start (b_cfg demo_broker) = 7000" "cfg_public_port_end (b_cfg demo_broker) = 7002"
  "port_count (b_cfg demo_broker) = 3" "b_ports_used demo_broker = 0"
  "b_ports_tcp demo_broker = [False, False, False]" "b_ports_udp demo_broker = [False, False, False]"
  by (simp_all add: demo_broker_def broker_new_def port_count_def numeral_3_eq_3)

lemma demo_broker_ports:
  "range_ok (b_cfg demo_broker)" "ports_inv demo_broker" "port_free demo_broker proto 7001"
  by (simp_all add: range_ok_def ports_inv_def taken_def port_free_def tm_port_in_range_def
      port_index_def port_table_def)


section \<open>The registry\<close>

text \<open>
  What identifies a tunnel never changes while it exists. A closed TCP tunnel has no port; every other
  tunnel has one of the range, and the flags of the tables are set for exactly the ports of the
  listed tunnels, each held by one tunnel.
\<close>

type_synonym tun_key = "bytes \<times> tm_proto \<times> bool \<times> u16"

definition tun_key :: "tm_tunnel \<Rightarrow> tun_key" where
  "tun_key t = (t_id t, t_proto t, t_closed t, t_public_port t)"

definition keys :: "tm_broker \<Rightarrow> (addr \<times> tun_key) list" where
  "keys b = map (\<lambda>(ta, t). (ta, tun_key t)) (b_tunnels b)"

definition exposes :: "tun_key \<Rightarrow> bool" where
  "exposes k = (case k of (_, proto, closed, _) \<Rightarrow> \<not> (closed \<and> proto = TM_PROTO_TCP))"

definition key_port :: "tun_key \<Rightarrow> tm_proto \<times> u16" where
  "key_port k = (case k of (_, proto, _, port) \<Rightarrow> (proto, port))"

definition held :: "(addr \<times> tun_key) list \<Rightarrow> (tm_proto \<times> u16) list" where
  "held ks = map (key_port \<circ> snd) (filter (exposes \<circ> snd) ks)"

definition registry_ok :: "tm_broker \<Rightarrow> (addr \<times> tun_key) list \<Rightarrow> bool" where
  "registry_ok b ks \<longleftrightarrow>
     ports_inv b \<and> distinct (map fst ks) \<and> distinct (map (fst \<circ> snd) ks) \<and> distinct (held ks) \<and>
     (\<forall>(proto, p) \<in> set (held ks). tm_port_in_range b p) \<and>
     (\<forall>k \<in> snd ` set ks. \<not> exposes k \<longrightarrow> snd (key_port k) = 0) \<and>
     (\<forall>proto p. tm_port_in_range b p \<longrightarrow> (port_free b proto p \<longleftrightarrow> (proto, p) \<notin> set (held ks)))"

text \<open>A closed TCP tunnel is never exposed: its handle is not even initialised.\<close>

definition hidden :: "tm_tunnel \<Rightarrow> bool" where
  "hidden t \<longleftrightarrow> (\<not> exposes (tun_key t) \<longrightarrow> t_handle t = HNone \<and> \<not> t_listener_open t)"

definition registry_inv :: "tm_broker \<Rightarrow> bool" where
  "registry_inv b \<longleftrightarrow>
     registry_ok b (keys b) \<and> b_tunnel_count b = int (length (b_tunnels b)) \<and>
     objs_ok (b_heap b) (all_tuns b) \<and> (\<forall>(_, t) \<in> set (all_tuns b). hidden t)"

lemma registry_ok_cong:
  "b_cfg b' = b_cfg b \<Longrightarrow> b_ports_tcp b' = b_ports_tcp b \<Longrightarrow> b_ports_udp b' = b_ports_udp b \<Longrightarrow>
   b_ports_used b' = b_ports_used b \<Longrightarrow> registry_ok b' ks = registry_ok b ks"
  by (simp add: registry_ok_def ports_inv_def port_free_def tm_port_in_range_def port_index_def port_table_def)

lemma registry_inv_cong:
  assumes "registry_inv b" "b_cfg b' = b_cfg b" "b_ports_tcp b' = b_ports_tcp b"
      "b_ports_udp b' = b_ports_udp b" "b_ports_used b' = b_ports_used b" "b_tunnels b' = b_tunnels b"
      "b_detached b' = b_detached b" "b_tunnel_count b' = b_tunnel_count b" "b_heap b \<le> b_heap b'"
  shows "registry_inv b'"
  using assms registry_ok_cong [OF assms(2-5)]
  by (auto simp: registry_inv_def keys_def all_tuns_def intro: objs_ok_mono)

lemma keys_put_tun:
  assumes "get_tun b ta = Some t" "tun_key t' = tun_key t"
  shows "keys (put_tun ta t' b) = keys b"
proof (cases "ta \<in> fst ` set (b_tunnels b)")
  case True
  then have "map_of (b_tunnels b) ta = Some t"
    using assms(1) by (auto simp: get_tun_def map_add_def split: option.splits simp: map_of_eq_None_iff)
  then show ?thesis using map_put_same [of "b_tunnels b" ta t tun_key t'] assms(2) True by (simp add: keys_def put_tun_def)
qed (simp add: keys_def put_tun_def)

lemma put_tun_registry [simp]:
  "b_ports_used (put_tun ta t b) = b_ports_used b" "b_tunnel_count (put_tun ta t b) = b_tunnel_count b"
  "length (b_tunnels (put_tun ta t b)) = length (b_tunnels b)" "b_heap (put_tun ta t b) = b_heap b"
  by (simp_all add: put_tun_def)

lemma registry_inv_put_tun:
  assumes "registry_inv b" "get_tun b ta = Some t" "tun_key t' = tun_key t" "hidden t \<Longrightarrow> hidden t'"
  shows "registry_inv (put_tun ta t' b)"
proof -
  have "(ta, t) \<in> set (all_tuns b)" using assms(2) by (simp add: get_tun_all map_of_SomeD)
  then have "hidden t'" using assms(1,4) by (auto simp: registry_inv_def)
  moreover have "registry_ok (put_tun ta t' b) (keys b) = registry_ok b (keys b)"
    by (rule registry_ok_cong) simp_all
  ultimately show ?thesis
    using assms(1) keys_put_tun [OF assms(2,3)] by (auto simp: registry_inv_def dest!: in_put)
qed

lemma registry_inv_update:
  assumes "registry_inv b" "get_tun b ta = Some t" "tun_key t' = tun_key t"
      "t_handle t' = t_handle t" "t_listener_open t' = t_listener_open t"
  shows "registry_inv (put_tun ta t' b)"
  using assms by (auto intro!: registry_inv_put_tun simp: hidden_def)

lemmas tun_key_simps = tun_key_def hidden_def exposes_def

lemma registry_inv_drop: "registry_inv b \<Longrightarrow> registry_inv (tm_agent_drop ta b)"
  by (auto simp: tm_agent_drop_def tun_key_def split: option.split intro: registry_inv_update)

lemma registry_inv_put_agent: "registry_inv b \<Longrightarrow> registry_inv (put_agent ta aa a b)"
  by (auto simp: put_agent_def tun_key_def split: option.split intro: registry_inv_update)

lemma registry_inv_stream_close: 
  assumes "registry_inv b" shows "registry_inv (stream_close ta sa b)"
proof (cases "get_tun b ta")
  case (Some t)
  define t' where "t' = t\<lparr>t_streams := unlink sa (t_streams t), t_streams_active :=
    (if 0 < t_streams_active t then t_streams_active t - 1 else t_streams_active t)\<rparr>"
  have "registry_inv (put_tun ta t' b)"
    by (rule registry_inv_update [OF assms Some]) (simp_all add: t'_def tun_key_def)
  then show ?thesis
    by (rule registry_inv_cong) (simp_all add: stream_close_def stream_unlink_def Some t'_def)
qed (rule registry_inv_cong [OF assms], simp_all add: stream_close_def stream_unlink_def)

lemma registry_inv_close_streams: "registry_inv b \<Longrightarrow> registry_inv (close_streams ta sas b)"
  by (induction sas arbitrary: b) (simp_all add: registry_inv_stream_close)

text \<open>What the UDP part of a teardown can change: of the broker a counter and the list of zombies.\<close>

definition reg_same :: "tm_broker \<Rightarrow> tm_broker \<Rightarrow> bool" where
  "reg_same b b' \<longleftrightarrow> b_cfg b' = b_cfg b \<and> b_ports_tcp b' = b_ports_tcp b \<and> b_ports_udp b' = b_ports_udp b \<and>
     b_ports_used b' = b_ports_used b \<and> b_tunnels b' = b_tunnels b \<and> b_detached b' = b_detached b \<and>
     b_tunnel_count b' = b_tunnel_count b \<and> b_heap b' = b_heap b"

definition ut_same :: "ut \<Rightarrow> ut \<Rightarrow> bool" where
  "ut_same bt bt' \<longleftrightarrow> reg_same (fst bt) (fst bt') \<and> tun_key (snd bt') = tun_key (snd bt) \<and>
     t_handle (snd bt') = t_handle (snd bt) \<and> t_listener_open (snd bt') = t_listener_open (snd bt) \<and>
     t_udp_open (snd bt') = t_udp_open (snd bt)"

lemma ut_same_refl [simp]: "ut_same bt bt"
  by (simp add: ut_same_def reg_same_def)

lemma ut_same_trans: "ut_same x y \<Longrightarrow> ut_same y z \<Longrightarrow> ut_same x z"
  by (simp add: ut_same_def reg_same_def)

lemma ut_same_expire [simp]: "ut_same bt (tm_udp_flow_expire fa bt)"
  by (simp add: tm_udp_flow_expire_def flow_unlink_def ut_same_def reg_same_def tun_key_def split: prod.split)

lemma ut_same_expires: "ut_same bt (foldl (\<lambda>bt (fa, _). tm_udp_flow_expire fa bt) bt gone)"
proof (induction gone arbitrary: bt)
  case (Cons p gone)
  then show ?case using ut_same_trans [OF ut_same_expire Cons] by (simp split: prod.split)
qed simp

lemma ut_same_session_close [simp]: "ut_same bt (tm_udp_session_close sa bt)"
proof -
  obtain b t where bt: "bt = (b, t)" by (cases bt)
  show ?thesis
  proof (cases "get_session sa t")
    case (Some s)
    obtain b1 t1 where f: "foldl (\<lambda>bt (fa, _). tm_udp_flow_expire fa bt) (b, t)
        (filter (\<lambda>(_, f). fl_peer_session f = Some sa) (t_udp_flows t)) = (b1, t1)" by fastforce
    have "ut_same (b, t) (b1, t1)" unfolding f [symmetric] by (rule ut_same_expires)
    then show ?thesis
      using Some f by (simp add: bt tm_udp_session_close_def ut_same_def reg_same_def tun_key_def)
  qed (simp add: bt tm_udp_session_close_def)
qed

lemma ut_same_close_sessions: "ut_same bt (close_sessions sas bt)"
proof (induction sas arbitrary: bt)
  case (Cons sa sas)
  then show ?case using ut_same_trans [OF ut_same_session_close Cons.IH] by simp
qed simp

lemma ut_same_expire_flows: "ut_same bt (expire_flows fas bt)"
proof (induction fas arbitrary: bt)
  case (Cons fa fas)
  then show ?case using ut_same_trans [OF ut_same_expire Cons.IH] by simp
qed simp

lemma udp_stop_same:
  assumes "tm_udp_stop (b, t) = (b', t')"
  shows "reg_same b b'" "tun_key t' = tun_key t"
proof -
  define t0 where "t0 = (if t_udp_open t
    then t\<lparr>t_close_refs := t_close_refs t + 1, t_handle := HClosing, t_udp_open := False\<rparr> else t)"
  obtain b1 t1 where c: "close_sessions (map fst (t_udp_sessions t0)) (b, t0) = (b1, t1)" by fastforce
  obtain b2 t2 where e: "expire_flows (map fst (t_udp_flows t1)) (b1, t1) = (b2, t2)" by fastforce
  have r: "b' = b2" "t' = t2\<lparr>t_agent_session := None\<rparr>"
    using assms c e by (auto simp: tm_udp_stop_def t0_def [symmetric])
  have "ut_same (b, t0) (b2, t2)"
    using ut_same_trans ut_same_close_sessions ut_same_expire_flows c e by metis
  then show "reg_same b b'" "tun_key t' = tun_key t"
    by (simp_all add: ut_same_def r t0_def tun_key_def split: if_splits)
qed

lemma registry_inv_udp_stop:
  assumes "registry_inv b" "get_tun b ta = Some t" "t_proto t \<noteq> TM_PROTO_TCP" "tm_udp_stop (b, t) = (b', t')"
  shows "registry_inv (put_tun ta t' b')"
proof -
  note same = udp_stop_same [OF assms(4)]
  have "exposes (tun_key t')" using same(2) assms(3) by (simp add: tun_key_def exposes_def)
  moreover have "registry_inv b'" "get_tun b' ta = Some t"
    using same(1) assms(1,2) by (auto simp: reg_same_def get_tun_def intro: registry_inv_cong)
  ultimately show ?thesis
    using same(2) by (auto intro: registry_inv_put_tun simp: hidden_def)
qed

lemma registry_inv_listener_stop:
  assumes "registry_inv b" "get_tun b ta = Some t"
  shows "registry_inv (put_tun ta (tm_tunnel_listener_stop t) b)"
  by (rule registry_inv_put_tun [OF assms])
    (auto simp: tm_tunnel_listener_stop_def Let_def tun_key_simps split: if_splits)

lemma registry_inv_tunnel_stop: "registry_inv b \<Longrightarrow> registry_inv (tunnel_stop ta b)"
  by (simp add: tunnel_stop_def registry_inv_listener_stop registry_inv_udp_stop split: option.split prod.split)

subsection \<open>Creating and deleting\<close>

lemma tun_key_start:
  assumes "tunnel_start env t = Some t'" "hidden t"
  shows "tun_key t' = tun_key t" "hidden t'"
  using assms
  by (auto simp: tunnel_start_def tm_tunnel_listener_start_def tm_udp_start_def Let_def tun_key_simps
      split: if_splits)

lemma tun_key_new:
  "length tid \<le> TM_TUNNEL_ID_LEN \<Longrightarrow> tun_key (tunnel_new now tid proto closed ah th port) = (tid, proto, closed, port)"
  "hidden (tunnel_new now tid proto closed ah th port)"
  by (simp_all add: tunnel_new_def tunnel_zero_def tun_key_simps snprintf_s_def)

lemma registry_ok_hidden:
  assumes "registry_ok b ks" "ta \<notin> fst ` set ks" "tid \<notin> (fst \<circ> snd) ` set ks"
  shows "registry_ok b ((ta, tid, TM_PROTO_TCP, True, 0) # ks)"
  using assms by (auto simp: registry_ok_def held_def exposes_def key_port_def)

lemma registry_ok_exposed:
  assumes "registry_ok b ks" "ta \<notin> fst ` set ks" "tid \<notin> (fst \<circ> snd) ` set ks" "range_ok (b_cfg b)"
      "exposes (tid, proto, closed, p)" "tm_port_alloc proto prefer b = (p, b')" "p \<noteq> 0"
  shows "registry_ok b' ((ta, tid, proto, closed, p) # ks)"
proof -
  have inv: "ports_inv b" using assms(1) by (simp add: registry_ok_def)
  have b': "ports_inv b'" "b_cfg b' = b_cfg b" "port_free b proto p"
      "\<And>proto' q. tm_port_in_range b q \<Longrightarrow>
         port_free b' proto' q = (port_free b proto' q \<and> (proto', q) \<noteq> (proto, p))"
    using port_alloc_spec [OF assms(4) inv assms(6)] assms(7) by auto
  have r: "tm_port_in_range b' = tm_port_in_range b" using b'(2) by (simp add: fun_eq_iff tm_port_in_range_def)
  have p: "tm_port_in_range b p" "(proto, p) \<notin> set (held ks)"
    using b'(3) assms(1) by (auto simp: port_free_def registry_ok_def)
  have h: "held ((ta, tid, proto, closed, p) # ks) = (proto, p) # held ks"
    using assms(5) by (simp add: held_def key_port_def)
  show ?thesis
    using assms(1-3,5) b'(1) b'(4) p unfolding registry_ok_def h r by (auto simp: r)
qed

lemma tm_tunnel_find_None: "tm_tunnel_find b tid = None \<longleftrightarrow> tid \<notin> (fst \<circ> snd) ` set (keys b)"
proof -
  have "(fst \<circ> snd) ` set (keys b) = (\<lambda>(_, t). t_id t) ` set (b_tunnels b)"
    by (simp add: keys_def tun_key_def image_image split_def)
  then show ?thesis by (auto simp: tm_tunnel_find_def find_None_iff)
qed

lemma port_alloc_frame:
  assumes "tm_port_alloc proto prefer b = (p, b')"
  shows "b_tunnels b' = b_tunnels b" "b_detached b' = b_detached b" "b_heap b' = b_heap b"
      "b_tunnel_count b' = b_tunnel_count b" "b_cfg b' = b_cfg b"
  using assms by (auto simp: tm_port_alloc_def Let_def split: if_splits option.splits)

lemma registry_ok_failed_alloc:
  assumes "range_ok (b_cfg b)" "registry_ok b ks" "tm_port_alloc proto prefer b = (0, b')"
  shows "b' = b"
  using port_alloc_spec [OF assms(1) _ assms(3)] assms(2) by (simp add: registry_ok_def)

lemma registry_inv_create:
  assumes "registry_inv b" "range_ok (b_cfg b)"
      "tm_tunnel_create env now tid proto closed ah th prefer b = Some (r, b')"
  shows "registry_inv b'"
proof -
  define needs where "needs = (\<not> (closed \<and> proto = TM_PROTO_TCP))"
  obtain p b1 where al: "(if needs then tm_port_alloc proto prefer b else (0, b)) = (p, b1)" by fastforce
  have ok: "registry_ok b (keys b)" using assms(1) by (simp add: registry_inv_def)
  consider "b' = b" | "needs" "p = 0" "b' = b1"
    | t where "tm_tunnel_find b tid = None" "length tid \<le> TM_TUNNEL_ID_LEN" "needs \<longrightarrow> p \<noteq> 0"
        "tunnel_start env (tunnel_new now tid proto closed ah th p) = Some t"
        "b' = b1\<lparr>b_tunnels := (b_heap b1, t) # b_tunnels b1,
                 b_tunnel_count := b_tunnel_count b1 + 1, b_heap := Suc (b_heap b1)\<rparr>"
    using assms(3) al unfolding tm_tunnel_create_def needs_def [symmetric] Let_def
    by (auto split: if_splits Option.bind_splits)
  then show ?thesis
  proof cases
    case 2
    then show ?thesis using registry_ok_failed_alloc [OF assms(2) ok] al assms(1) by auto
  next
    case (3 t)
    note t = tun_key_start [OF 3(4) tun_key_new(2)] tun_key_new(1) [OF 3(2)]
    have fr: "b_tunnels b1 = b_tunnels b" "b_detached b1 = b_detached b" "b_heap b1 = b_heap b"
        "b_tunnel_count b1 = b_tunnel_count b"
      using al port_alloc_frame by (auto split: if_splits)
    have objs: "objs_ok (b_heap b) (all_tuns b)" using assms(1) by (simp add: registry_inv_def)
    have "b_heap b \<notin> fst ` set (keys b)" "tid \<notin> (fst \<circ> snd) ` set (keys b)"
      using objs 3(1) by (force simp: objs_ok_def all_tuns_def keys_def, simp add: tm_tunnel_find_None)
    then have "registry_ok b1 ((b_heap b, tid, proto, closed, p) # keys b)"
      using registry_ok_hidden [OF ok] registry_ok_exposed [OF ok _ _ assms(2)] al 3(3)
      by (auto simp: needs_def exposes_def split: if_splits)
    then have "registry_ok b' (keys b')"
      using t by (subst registry_ok_cong [of _ b1]) (simp_all add: 3(5) fr keys_def)
    moreover have "objs_ok (b_heap b') (all_tuns b')"
      using objs_ok_fresh [OF objs] by (simp add: 3(5) fr all_tuns_def)
    ultimately show ?thesis
      using assms(1) t by (simp add: registry_inv_def 3(5) fr all_tuns_def)
  qed (use assms(1) in simp)
qed

lemma keys_tm_port_free [simp]:
  "b_tunnels (tm_port_free proto p b) = b_tunnels b" "b_detached (tm_port_free proto p b) = b_detached b"
  "b_heap (tm_port_free proto p b) = b_heap b" "b_tunnel_count (tm_port_free proto p b) = b_tunnel_count b"
  "b_cfg (tm_port_free proto p b) = b_cfg b"
  by (simp_all add: tm_port_free_def Let_def)

lemma port_free_release:
  assumes "ports_inv b" "tm_port_in_range b p" "tm_port_in_range b q"
  shows "port_free (tm_port_free proto p b) proto' q = (port_free b proto' q \<or> (proto', q) = (proto, p))"
proof -
  have "port_index b p < length (port_table b proto)"
    using assms(1) port_index_less [OF assms(2)] by (simp add: ports_inv_alt)
  moreover have "port_index (tm_port_free proto p b) = port_index b"
      "tm_port_in_range (tm_port_free proto p b) = tm_port_in_range b"
    by (simp_all add: fun_eq_iff port_index_def tm_port_in_range_def)
  ultimately show ?thesis
    using port_index_inj [OF assms(2,3)] assms(2,3)
    by (auto simp: port_free_def tm_port_free_def Let_def nth_list_update)
qed

lemma ports_inv_free: "ports_inv b \<Longrightarrow> ports_inv (tm_port_free proto p b)"
  using ports_inv_release [of b "port_index b p" proto] port_index_less [of b p]
  by (simp add: tm_port_free_def Let_def)

lemma held_Cons [simp]: "held [] = []" "held (x # ks) = (if exposes (snd x) then key_port (snd x) # held ks else held ks)"
  by (simp_all add: held_def)

lemma held_remove:
  assumes "distinct (map fst ks)" "(ta, k) \<in> set ks" "distinct (held ks)"
  shows "set (held (filter (\<lambda>p. fst p \<noteq> ta) ks)) = (if exposes k then set (held ks) - {key_port k} else set (held ks))"
  using assms
proof (induction ks)
  case (Cons x ks)
  show ?case
  proof (cases "fst x = ta")
    case True
    then have nk: "ta \<notin> fst ` set ks" using Cons.prems(1) by auto
    then have "x = (ta, k)" using Cons.prems(2) by (force simp: image_iff)
    moreover have "filter (\<lambda>p. fst p \<noteq> ta) ks = ks" using nk by (auto simp: filter_id_conv)
    ultimately show ?thesis using Cons.prems(3) True by auto
  next
    case False
    then have "(ta, k) \<in> set ks" using Cons.prems(2) by auto
    moreover from this have "exposes k \<Longrightarrow> key_port k \<in> set (held ks)" by (force simp: held_def)
    ultimately show ?thesis using Cons False by auto
  qed
qed simp

lemma distinct_held_filter: "distinct (held ks) \<Longrightarrow> distinct (held (filter P ks))"
  using distinct_map_filter [of "key_port \<circ> snd" "filter (exposes \<circ> snd) ks" P]
  by (simp add: held_def conj_commute)

lemma registry_ok_remove:
  assumes "registry_ok b ks" "(ta, k) \<in> set ks" "k = (tid, proto, closed, p)" "range_ok (b_cfg b)"
  shows "registry_ok (tm_port_free proto p b) (filter (\<lambda>q. fst q \<noteq> ta) ks)"
proof -
  let ?ks = "filter (\<lambda>q. fst q \<noteq> ta) ks"
  have held: "set (held ?ks) = (if exposes k then set (held ks) - {(proto, p)} else set (held ks))"
    using held_remove [OF _ assms(2)] assms(1,3) by (auto simp: registry_ok_def key_port_def)
  have r: "tm_port_in_range (tm_port_free proto p b) = tm_port_in_range b"
    by (simp add: fun_eq_iff tm_port_in_range_def)
  have free: "port_free (tm_port_free proto p b) proto' q \<longleftrightarrow> (proto', q) \<notin> set (held ?ks)"
    if q: "tm_port_in_range b q" for proto' q
  proof (cases "exposes k")
    case True
    then have "(proto, p) \<in> set (held ks)" using assms(2,3) by (force simp: held_def key_port_def)
    then show ?thesis
      using assms(1) q True port_free_release [of b p q proto proto'] by (auto simp: registry_ok_def held)
  next
    case False
    then have "p = 0" using assms(1-3) by (force simp: registry_ok_def key_port_def)
    then have "tm_port_free proto p b = b"
      using assms(4) by (auto simp: tm_port_free_def tm_port_in_range_def range_ok_def)
    then show ?thesis using assms(1) q False by (simp add: registry_ok_def held)
  qed
  show ?thesis
    unfolding registry_ok_def r
    using assms(1) free held ports_inv_free distinct_held_filter
    by (auto simp: registry_ok_def distinct_map_filter split: if_splits)
qed

lemma keys_registry_step:
  assumes "get_tun b ta = Some t" "tun_key t' = tun_key t" "b_tunnels b' = b_tunnels (put_tun ta t' b)"
  shows "keys b' = keys b"
  using keys_put_tun [OF assms(1,2)] assms(3) by (simp add: keys_def)

lemma keys_drop [simp]: "keys (tm_agent_drop ta b) = keys b"
  by (auto simp: tm_agent_drop_def tun_key_def intro!: keys_put_tun split: option.split)

lemma keys_stream_close [simp]: "keys (stream_close ta sa b) = keys b"
proof (cases "get_tun b ta")
  case (Some t)
  then show ?thesis
    by (intro keys_registry_step [OF Some, where t' = "t\<lparr>t_streams := unlink sa (t_streams t), t_streams_active :=
      (if 0 < t_streams_active t then t_streams_active t - 1 else t_streams_active t)\<rparr>"])
      (simp_all add: tun_key_def stream_close_def stream_unlink_def)
qed (simp add: stream_close_def stream_unlink_def keys_def)

lemma keys_close_streams [simp]: "keys (close_streams ta sas b) = keys b"
  by (induction sas arbitrary: b) simp_all

lemma keys_tunnel_stop [simp]: "keys (tunnel_stop ta b) = keys b"
proof (cases "get_tun b ta")
  case (Some t)
  obtain b' t' where u: "tm_udp_stop (b, t) = (b', t')" by fastforce
  have "tun_key (tm_tunnel_listener_stop t) = tun_key t"
    by (simp add: tm_tunnel_listener_stop_def Let_def tun_key_def)
  moreover have "tun_key t' = tun_key t" "b_tunnels b' = b_tunnels b" "b_detached b' = b_detached b"
    using udp_stop_same [OF u] by (simp_all add: reg_same_def)
  then have "keys (put_tun ta t' b') = keys b"
    by (intro keys_registry_step [OF Some, of t']) (simp_all add: put_tun_def)
  ultimately show ?thesis
    using Some u by (auto simp: tunnel_stop_def intro: keys_put_tun)
qed (simp add: tunnel_stop_def)

lemma key_in_keys:
  "get_tun b ta = Some t \<Longrightarrow> ta \<in> fst ` set (keys b) \<Longrightarrow> (ta, tun_key t) \<in> set (keys b)"
  by (force simp: get_tun_def keys_def map_add_def image_image split_def map_of_eq_None_iff
      split: option.splits dest: map_of_SomeD)

text \<open>Taking a tunnel out of the list, after its port was freed.\<close>

lemma registry_inv_remove:
  assumes "registry_inv b" "range_ok (b_cfg b)" "ta \<in> fst ` set (keys b)" "get_tun b ta = Some t"
      "b1 = tm_port_free (t_proto t) (t_public_port t) b"
      "b2 = (tunnel_remove_from_list ta b1)\<lparr>b_tunnel_count := b_tunnel_count b1 - 1\<rparr>"
  shows "registry_inv b2" "registry_inv (b2\<lparr>b_detached := (ta, t) # b_detached b2\<rparr>)"
proof -
  have objs: "objs_ok (b_heap b) (b_tunnels b @ b_detached b)" and h: "\<forall>(_, t) \<in> set (all_tuns b). hidden t"
    using assms(1) by (simp_all add: registry_inv_def all_tuns_def)
  have mem: "ta \<in> fst ` set (b_tunnels b)" using assms(3) by (force simp: keys_def)
  have k: "keys b2 = filter (\<lambda>q. fst q \<noteq> ta) (keys b)" "keys (b2\<lparr>b_detached := ds\<rparr>) = keys b2" for ds
    by (simp_all add: assms(5,6) tunnel_remove_from_list_def keys_def unlink_def filter_map comp_def split_def)
  have ok: "registry_ok b1 (filter (\<lambda>q. fst q \<noteq> ta) (keys b))"
    unfolding assms(5) using assms(1,2) key_in_keys [OF assms(4,3)]
    by (intro registry_ok_remove) (auto simp: registry_inv_def tun_key_def)
  have ok2: "registry_ok b2 (keys b2)" "registry_ok (b2\<lparr>b_detached := ds\<rparr>) (keys b2)" for ds
    using ok by (simp_all add: k) (auto simp: assms(6) tunnel_remove_from_list_def cong: registry_ok_cong)
  have len: "b_tunnel_count b2 = int (length (b_tunnels b2))"
    using assms(1) length_unlink [of "b_tunnels b" ta] mem objs
    by (auto simp: registry_inv_def assms(5,6) tunnel_remove_from_list_def objs_ok_def)
  have "(ta, t) \<in> set (all_tuns b)" using assms(4) by (simp add: get_tun_all map_of_SomeD)
  then have ht: "hidden t" using h by auto
  have fields: "b_tunnels b2 = unlink ta (b_tunnels b)" "b_detached b2 = b_detached b" "b_heap b2 = b_heap b"
    by (simp_all add: assms(5,6) tunnel_remove_from_list_def)
  show "registry_inv b2"
    using ok2(1) len objs h
    by (auto simp: registry_inv_def fields all_tuns_def objs_ok_def distinct_unlink)
  show "registry_inv (b2\<lparr>b_detached := (ta, t) # b_detached b2\<rparr>)"
    using ok2(2) len objs h ht mem
    by (auto simp: registry_inv_def fields all_tuns_def objs_ok_def distinct_unlink k)
qed

lemma get_tun_tm_port_free [simp]: "get_tun (tm_port_free proto p b) ta = get_tun b ta"
  by (simp add: get_tun_def)

lemma get_tun_stream_close:
  assumes "get_tun b ta = Some t"
  shows "\<exists>t'. get_tun (stream_close ta sa b) ta = Some t' \<and> tun_key t' = tun_key t"
  using assms by (simp add: stream_close_def stream_unlink_def tun_key_def)

lemma get_tun_close_streams:
  assumes "get_tun b ta = Some t"
  shows "\<exists>t'. get_tun (close_streams ta sas b) ta = Some t' \<and> tun_key t' = tun_key t"
  using assms
proof (induction sas arbitrary: b t)
  case (Cons sa sas)
  obtain t' where t': "get_tun (stream_close ta sa b) ta = Some t'" "tun_key t' = tun_key t"
    using get_tun_stream_close [OF Cons.prems] by blast
  show ?case using Cons.IH [OF t'(1)] t'(2) by simp
qed simp

lemma b_cfg_close_streams [simp]: "b_cfg (close_streams ta sas b) = b_cfg b"
  by (induction sas arbitrary: b)
    (simp_all add: stream_close_def stream_unlink_def split: option.split)

lemma b_cfg_teardown [simp]: "b_cfg (tm_agent_drop ta b) = b_cfg b" "b_cfg (tunnel_stop ta b) = b_cfg b"
  by (auto simp: tm_agent_drop_def tunnel_stop_def reg_same_def split: option.split prod.split
      dest!: udp_stop_same(1))

lemma registry_inv_delete:
  assumes "registry_inv b" "range_ok (b_cfg b)" "tm_tunnel_delete tid b = Some (ok, b')"
  shows "registry_inv b'"
proof (cases "tm_tunnel_find b tid")
  case None
  then show ?thesis using assms(1,3) by (simp add: tm_tunnel_delete_def)
next
  case (Some ta)
  then have mem: "ta \<in> fst ` set (keys b)"
    by (force simp: tm_tunnel_find_def find_Some_iff keys_def in_set_conv_nth)
  obtain t where t: "get_tun b ta = Some t"
    using assms(3) Some by (auto simp: tm_tunnel_delete_def split: Option.bind_splits)
  define b0 where "b0 = tm_agent_drop ta (tunnel_stop ta (put_tun ta (t\<lparr>t_deleting := True\<rparr>) b))"
  have "registry_inv (put_tun ta (t\<lparr>t_deleting := True\<rparr>) b)" "keys (put_tun ta (t\<lparr>t_deleting := True\<rparr>) b) = keys b"
    by (rule registry_inv_update [OF assms(1) t] keys_put_tun [OF t]; simp add: tun_key_def)+
  then have b0: "registry_inv b0" "keys b0 = keys b" "b_cfg b0 = b_cfg b"
    by (simp_all add: b0_def registry_inv_drop registry_inv_tunnel_stop)
  have td: "tm_tunnel_teardown ta (put_tun ta (t\<lparr>t_deleting := True\<rparr>) b) =
      (case get_tun b0 ta of None \<Rightarrow> b0 | Some t \<Rightarrow>
         tm_port_free (t_proto t) (t_public_port t) (close_streams ta (map fst (t_streams t)) b0))"
    by (simp only: tm_tunnel_teardown_def b0_def Let_def)
  define bd where "bd = tm_tunnel_teardown ta (put_tun ta (t\<lparr>t_deleting := True\<rparr>) b)"
  have del: "Some (ok, b') = do { t \<leftarrow> get_tun bd ta;
      let b = (tunnel_remove_from_list ta bd)\<lparr>b_tunnel_count := b_tunnel_count bd - 1\<rparr>;
      if t_close_refs t = 0 then do { _ \<leftarrow> tunnel_free t; Some (True, b) }
      else Some (True, b\<lparr>b_detached := (ta, t) # b_detached b\<rparr>) }"
    using assms(3) unfolding tm_tunnel_delete_def Some bd_def by (simp only: t option.case Option.bind.simps Let_def)
  obtain t0 where t0: "get_tun b0 ta = Some t0"
    using del by (cases "get_tun b0 ta") (simp_all add: bd_def td)
  define b1 where "b1 = close_streams ta (map fst (t_streams t0)) b0"
  obtain t1 where t1: "get_tun b1 ta = Some t1" "tun_key t1 = tun_key t0"
    using get_tun_close_streams [OF t0] by (auto simp: b1_def)
  have b1: "registry_inv b1" "keys b1 = keys b" "b_cfg b1 = b_cfg b"
    using b0 by (simp_all add: b1_def registry_inv_close_streams)
  define b2 where "b2 = tm_port_free (t_proto t1) (t_public_port t1) b1"
  have bd: "bd = b2" using t0 t1(2) by (simp add: bd_def td b1_def b2_def tun_key_def)
  have "get_tun b2 ta = Some t1" using t1(1) by (simp add: b2_def)
  then have "b' = (tunnel_remove_from_list ta b2)\<lparr>b_tunnel_count := b_tunnel_count b2 - 1\<rparr> \<or>
      b' = (tunnel_remove_from_list ta b2)\<lparr>b_tunnel_count := b_tunnel_count b2 - 1\<rparr>
        \<lparr>b_detached := (ta, t1) # b_detached (tunnel_remove_from_list ta b2)\<rparr>"
    using del unfolding bd by (auto simp: Let_def split: if_splits Option.bind_splits)
  then show ?thesis
    using registry_inv_remove [OF b1(1) _ _ t1(1) b2_def refl] b1(2,3) mem assms(2) by auto
qed

subsection \<open>The other handlers\<close>

lemma closed_keeps:
  assumes "tunnel_listener_closed env t = Some (TunKept t')" "t_proto t = TM_PROTO_TCP"
  shows "tun_key t' = tun_key t" "hidden t \<Longrightarrow> hidden t'"
  using assms
  by (auto simp: tunnel_listener_closed_def tm_tunnel_listener_start_def tunnel_free_def Let_def tun_key_simps
      split: if_splits)

lemma udp_closed_keeps:
  assumes "tunnel_udp_closed t = Some (TunKept t')" "t_proto t \<noteq> TM_PROTO_TCP"
  shows "tun_key t' = tun_key t" "hidden t'"
  using assms by (auto simp: tunnel_udp_closed_def tunnel_free_def Let_def tun_key_simps split: if_splits)

lemma registry_inv_unlink_detached:
  assumes "registry_inv b" shows "registry_inv (b\<lparr>b_detached := unlink ta (b_detached b)\<rparr>)"
proof -
  have "registry_ok (b\<lparr>b_detached := unlink ta (b_detached b)\<rparr>) (keys b) = registry_ok b (keys b)"
    by (rule registry_ok_cong) simp_all
  then show ?thesis
    using assms
    by (auto simp: registry_inv_def keys_def all_tuns_def objs_ok_def distinct_unlink)
qed

lemma registry_inv_handle_closed:
  assumes "registry_inv b" "handle_closed env ta b = Some b'"
  shows "registry_inv b'"
proof -
  obtain t r where t: "get_tun b ta = Some t" "b' = closed_event ta r b"
      "(if t_proto t = TM_PROTO_TCP then tunnel_listener_closed env t else tunnel_udp_closed t) = Some r"
    using assms(2) by (auto simp: handle_closed_def split: Option.bind_splits)
  show ?thesis
  proof (cases r)
    case TunFreed
    then show ?thesis using t(2) registry_inv_unlink_detached [OF assms(1)] by (simp add: closed_event_def)
  next
    case (TunKept t')
    then have "tun_key t' = tun_key t" "hidden t \<Longrightarrow> hidden t'"
      using t(3) closed_keeps udp_closed_keeps by (auto split: if_splits)
    then show ?thesis
      using registry_inv_put_tun [OF assms(1) t(1)] t(2) TunKept by (simp add: closed_event_def)
  qed
qed

lemma registry_inv_agent_io_write:
  "agent_io_write ta aa buf b = Some (r, b') \<Longrightarrow> registry_inv b \<Longrightarrow> registry_inv b'"
  by (auto simp: agent_io_write_def Let_def registry_inv_drop registry_inv_put_agent
      split: prod.splits Option.bind_splits if_splits)

lemma registry_inv_send_frame:
  "tm_agent_send_frame ta type sid b = Some b' \<Longrightarrow> registry_inv b \<Longrightarrow> registry_inv b'"
  by (auto simp: tm_agent_send_frame_def registry_inv_drop split: Option.bind_splits option.splits prod.splits if_splits
      dest: registry_inv_agent_io_write)

lemma registry_inv_agent_frame: "agent_frame ta f b = Some b' \<Longrightarrow> registry_inv b \<Longrightarrow> registry_inv b'"
  by (auto simp: agent_frame_def registry_inv_stream_close split: if_splits Option.bind_splits option.splits
      dest: registry_inv_send_frame)

lemma registry_inv_agent_frames: "agent_frames ta aa ps b = Some b' \<Longrightarrow> registry_inv b \<Longrightarrow> registry_inv b'"
  by (induction ps arbitrary: b)
    (auto split: Option.bind_splits dest!: registry_inv_agent_frame intro: registry_inv_put_agent)

lemma registry_inv_agent_read:
  assumes "agent_conn_read now ta aa data b = Some b'" "registry_inv b"
  shows "registry_inv b'"
  using assms
  by (auto simp: agent_conn_read_def Let_def registry_inv_drop registry_inv_put_agent
      split: Option.bind_splits prod.splits if_splits dest!: registry_inv_agent_frames)

lemma registry_inv_store:
  assumes "registry_inv b" shows "registry_inv (stream_store ta sa st b)"
  using assms registry_inv_stream_close [OF assms] registry_inv_update [OF assms]
  by (auto simp: stream_store_def tun_key_def split: option.split)

lemma registry_inv_apply:
  "stream_apply ta sa f b = Some b' \<Longrightarrow> registry_inv b \<Longrightarrow> registry_inv b'"
  by (auto simp: stream_apply_def split: option.splits intro: registry_inv_store)

lemma registry_inv_link:
  assumes "registry_inv b" "stream_link ta st b = (sa, b')"
  shows "registry_inv b'"
proof (cases "get_tun b ta")
  case (Some t)
  define t' where "t' = t\<lparr>t_streams := (b_heap b, st) # t_streams t, t_streams_active := t_streams_active t + 1,
    t_streams_total := t_streams_total t + 1\<rparr>"
  have "registry_inv (put_tun ta t' b)"
    by (rule registry_inv_update [OF assms(1) Some]) (simp_all add: t'_def tun_key_def)
  then show ?thesis
    by (rule registry_inv_cong) (use assms(2) Some in \<open>auto simp: stream_link_def t'_def\<close>)
qed (use assms in \<open>simp add: stream_link_def\<close>)

lemma registry_inv_create_open:
  assumes "tm_stream_create_open now ta b = Some (r, b')" "registry_inv b"
  shows "registry_inv b'"
proof -
  have "registry_inv (b\<lparr>b_sid_counter := b_sid_counter b + 1\<rparr>)"
    by (rule registry_inv_cong [OF assms(2)]) simp_all
  then show ?thesis
    using assms by (auto simp: tm_stream_create_open_def split: option.splits if_splits prod.splits
        dest: registry_inv_link)
qed

lemma registry_inv_accept:
  assumes "on_public_accept now now' peer ta b = Some b'" "registry_inv b"
  shows "registry_inv b'"
proof -
  obtain t where t: "get_tun b ta = Some t"
    using assms(1) by (auto simp: on_public_accept_def split: Option.bind_splits)
  obtain ok rs where ra: "rate_allow (cfg_connect_rate_per_ip (b_cfg b)) now now' peer (b_accept_rates b) = (ok, rs)"
    by fastforce
  define b1 where "b1 = b\<lparr>b_accept_rates := rs\<rparr>"
  have b1: "registry_inv b1" "registry_inv (b1\<lparr>b_conns_rate_limited := b_conns_rate_limited b + 1\<rparr>)"
    by (rule registry_inv_cong [OF assms(2)]; simp add: b1_def)+
  have t1: "get_tun b1 ta = Some t" using t by (simp add: b1_def get_tun_def)
  have off: "registry_inv (put_tun ta (t\<lparr>t_conns_rejected_offline := t_conns_rejected_offline t + 1\<rparr>) b1)"
    by (rule registry_inv_update [OF b1(1) t1]) (simp_all add: tun_key_def)
  show ?thesis
    using assms b1 off
    unfolding on_public_accept_def t Option.bind.simps ra
    by (auto simp: b1_def [symmetric] Let_def registry_inv_stream_close
        split: if_splits bool.splits Option.bind_splits option.splits
        dest!: registry_inv_create_open registry_inv_apply registry_inv_send_frame)
qed

text \<open>Every order of the registry's operations, its callbacks and the traffic of agents and clients.\<close>

inductive registry_run :: "tm_broker_cfg \<Rightarrow> tm_broker \<Rightarrow> bool" for cfg where
  started: "registry_run cfg (broker_new cfg key)"
| create: "registry_run cfg b \<Longrightarrow>
    tm_tunnel_create env now tid proto closed ah th prefer b = Some (r, b') \<Longrightarrow> registry_run cfg b'"
| delete: "registry_run cfg b \<Longrightarrow> tm_tunnel_delete tid b = Some (ok, b') \<Longrightarrow> registry_run cfg b'"
| closed: "registry_run cfg b \<Longrightarrow> handle_closed env ta b = Some b' \<Longrightarrow> registry_run cfg b'"
| accept: "registry_run cfg b \<Longrightarrow> on_public_accept now now' peer ta b = Some b' \<Longrightarrow> registry_run cfg b'"
| agent: "registry_run cfg b \<Longrightarrow> agent_conn_read now ta aa data b = Some b' \<Longrightarrow> registry_run cfg b'"

lemma taken_replicate [simp]: "taken (replicate n False) = 0"
  by (induction n) (simp_all add: taken_def)

lemma registry_inv_new: "registry_inv (broker_new cfg key)"
proof -
  have "port_free (broker_new cfg key) proto p" if "tm_port_in_range (broker_new cfg key) p" for proto p
    using port_index_less [OF that] that
    by (simp add: port_free_def port_table_def broker_new_def)
  then show ?thesis
    by (simp add: registry_inv_def registry_ok_def ports_inv_def keys_def all_tuns_def) 
      (simp add: broker_new_def)
qed

lemma b_cfg_apply: "stream_apply ta sa f b = Some b' \<Longrightarrow> b_cfg b' = b_cfg b"
  by (auto simp: stream_apply_def stream_store_def stream_close_def stream_unlink_def split: option.splits if_splits)

lemma b_cfg_send_frame: "tm_agent_send_frame ta type sid b = Some b' \<Longrightarrow> b_cfg b' = b_cfg b"
  using same_except_send_frame by (simp add: same_except_def)

lemma b_cfg_create_open: "tm_stream_create_open now ta b = Some (r, b') \<Longrightarrow> b_cfg b' = b_cfg b"
  by (auto simp: tm_stream_create_open_def stream_link_def split: option.splits if_splits)

lemma b_cfg_step:
  "tm_tunnel_create env now tid proto closed ah th prefer b = Some (r, b') \<Longrightarrow> b_cfg b' = b_cfg b"
  "handle_closed env ta b = Some b' \<Longrightarrow> b_cfg b' = b_cfg b"
  "on_public_accept now now' peer ta b = Some b' \<Longrightarrow> b_cfg b' = b_cfg b"
  "agent_conn_read n ta aa data b = Some b' \<Longrightarrow> b_cfg b' = b_cfg b"
proof -
  assume "tm_tunnel_create env now tid proto closed ah th prefer b = Some (r, b')"
  then show "b_cfg b' = b_cfg b"
    by (auto simp: tm_tunnel_create_def Let_def split: if_splits prod.splits Option.bind_splits
        dest: port_alloc_frame(5))
next
  assume "handle_closed env ta b = Some b'"
  then show "b_cfg b' = b_cfg b"
    by (auto simp: handle_closed_def closed_event_def split: Option.bind_splits closed_result.splits)
next
  assume "on_public_accept now now' peer ta b = Some b'"
  then show "b_cfg b' = b_cfg b"
    by (auto simp: on_public_accept_def Let_def stream_close_def stream_unlink_def
        split: if_splits bool.splits prod.splits Option.bind_splits option.splits
        dest!: b_cfg_create_open b_cfg_apply b_cfg_send_frame)
next
  assume "agent_conn_read n ta aa data b = Some b'"
  then show "b_cfg b' = b_cfg b" using same_except_agent_conn_read by (simp add: same_except_def)
qed

lemma b_cfg_tunnel_teardown [simp]: "b_cfg (tm_tunnel_teardown ta b) = b_cfg b"
  by (simp add: tm_tunnel_teardown_def Let_def split: option.split)

lemma b_cfg_delete:
  assumes "tm_tunnel_delete tid b = Some (ok, b')"
  shows "b_cfg b' = b_cfg b"
proof (cases "tm_tunnel_find b tid")
  case (Some ta)
  then obtain t where t: "get_tun b ta = Some t"
    using assms by (cases "get_tun b ta") (simp_all add: tm_tunnel_delete_def)
  define b1 where "b1 = tm_tunnel_teardown ta (put_tun ta (t\<lparr>t_deleting := True\<rparr>) b)"
  have "b_cfg b1 = b_cfg b" by (simp add: b1_def)
  then show ?thesis
    using assms unfolding tm_tunnel_delete_def Some option.case t Option.bind.simps Let_def b1_def [symmetric]
    by (auto simp: tunnel_remove_from_list_def split: if_splits Option.bind_splits)
qed (use assms in \<open>simp add: tm_tunnel_delete_def\<close>)

lemma registry_run_inv:
  assumes "registry_run cfg b" "range_ok cfg"
  shows "registry_inv b \<and> b_cfg b = cfg"
  using assms
proof (induction rule: registry_run.induct)
  case (started key)
  then show ?case using registry_inv_new by (simp add: broker_new_def)
next
  case (create b env now tid proto closed ah th "prefer" r b')
  then show ?case using registry_inv_create b_cfg_step(1) by metis
next
  case (delete b tid ok b')
  then show ?case using registry_inv_delete b_cfg_delete by metis
next
  case (closed b env ta b')
  then show ?case using registry_inv_handle_closed b_cfg_step(2) by metis
next
  case (accept b now now' peer ta b')
  then show ?case using registry_inv_accept b_cfg_step(3) by metis
next
  case (agent b now ta aa data b')
  then show ?case using registry_inv_agent_read b_cfg_step(4) by metis
qed

lemma key_port_tun_key [simp]: "key_port (tun_key t) = (t_proto t, t_public_port t)"
  by (simp add: key_port_def tun_key_def)

lemma held_keys:
  "(proto, p) \<in> set (held (keys b)) \<longleftrightarrow>
     (\<exists>(ta, t) \<in> set (b_tunnels b). exposes (tun_key t) \<and> t_proto t = proto \<and> t_public_port t = p)"
proof -
  have "held (keys b) = map (\<lambda>x. key_port (tun_key (snd x))) (filter (\<lambda>x. exposes (tun_key (snd x))) (b_tunnels b))"
    by (simp add: held_def keys_def filter_map comp_def split_def)
  then show ?thesis by (auto simp: image_iff)
qed

lemma in_range_nonzero: "range_ok (b_cfg b) \<Longrightarrow> tm_port_in_range b p \<Longrightarrow> p \<noteq> 0"
  by (auto simp: range_ok_def tm_port_in_range_def)

lemma held_unique:
  assumes "distinct (held ks)" "(ta, k) \<in> set ks" "(ta', k') \<in> set ks" "exposes k" "exposes k'"
      "key_port k = key_port k'"
  shows "(ta, k) = (ta', k')"
  using assms
proof (induction ks)
  case (Cons x ks)
  have mem: "exposes j \<Longrightarrow> (tj, j) \<in> set ks \<Longrightarrow> key_port j \<in> set (held ks)" for tj j by (force simp: held_def)
  show ?case using Cons mem [of k ta] mem [of k' ta'] by (auto split: if_splits)
qed simp

lemma in_keys: "(ta, t) \<in> set (b_tunnels b) \<Longrightarrow> (ta, tun_key t) \<in> set (keys b)"
  by (force simp: keys_def)

lemma registry_ok_zero:
  assumes "registry_ok b ks" "(ta, k) \<in> set ks"
  shows "exposes k \<or> snd (key_port k) = 0"
proof -
  have "\<forall>x \<in> set ks. \<not> exposes (snd x) \<longrightarrow> snd (key_port (snd x)) = 0"
    using assms(1) by (simp add: registry_ok_def)
  from bspec [OF this assms(2)] show ?thesis by auto
qed


text \<open>
  (C15) A closed TCP tunnel is never exposed: in every order of operations it has no public port, and its
  listener is neither open nor known to libuv, also while it is being deleted.
\<close>

theorem closed_tcp_never_exposed:
  assumes "registry_run cfg b" "range_ok cfg" "get_tun b ta = Some t" "t_closed t" "t_proto t = TM_PROTO_TCP"
  shows "\<not> t_listener_open t \<and> t_handle t = HNone \<and> ((ta, t) \<in> set (b_tunnels b) \<longrightarrow> t_public_port t = 0)"
proof -
  have inv: "registry_inv b" using registry_run_inv [OF assms(1,2)] by simp
  have e: "\<not> exposes (tun_key t)" using assms(4,5) by (simp add: exposes_def tun_key_def)
  have "(ta, t) \<in> set (all_tuns b)" using assms(3) by (simp add: get_tun_all map_of_SomeD)
  then have "hidden t" using inv by (auto simp: registry_inv_def)
  moreover have "t_public_port t = 0" if "(ta, t) \<in> set (b_tunnels b)"
    using registry_ok_zero [of b, OF _ in_keys [OF that]] inv e
    by (simp add: registry_inv_def key_port_def tun_key_def)
  ultimately show ?thesis using e by (simp add: hidden_def)
qed

text \<open>A run: a closed tunnel and an open one are created and an answer of the system to binding.\<close>

definition bind_ok :: listen_env where
  "bind_ok = \<lparr>le_addr = True, le_bind = True, le_listen = True\<rparr>"

definition demo_closed :: tm_broker where
  "demo_closed = snd (the (tm_tunnel_create bind_ok 5 [65] TM_PROTO_TCP True None None 0 demo_broker))"

lemma demo_closed_create:
  "tm_tunnel_create bind_ok 5 [65] TM_PROTO_TCP True None None 0 demo_broker = Some (Some (0, 0), demo_closed)"
  by (simp add: demo_closed_def tm_tunnel_create_def demo_broker_def broker_new_def tm_tunnel_find_def
      cfg_load_def TM_TUNNEL_ID_LEN_def tunnel_start_def tm_tunnel_listener_start_def tunnel_new_def tunnel_zero_def)

lemma demo_closed_run: "registry_run (b_cfg demo_broker) demo_closed"
proof -
  have "registry_run (b_cfg demo_broker) demo_broker"
    unfolding demo_broker_def by (simp add: broker_new_def) (rule registry_run.started [unfolded broker_new_def])
  then show ?thesis by (rule registry_run.create [OF _ demo_closed_create])
qed

definition demo_tunnel :: tm_tunnel where
  "demo_tunnel = tunnel_new 5 [65] TM_PROTO_TCP True None None 0"

lemma demo_closed_fields:
  "b_tunnels demo_closed = [(0, demo_tunnel)]" "b_cfg demo_closed = b_cfg demo_broker"
  by (simp_all add: demo_closed_def demo_tunnel_def tm_tunnel_create_def demo_broker_def broker_new_def
      tm_tunnel_find_def cfg_load_def TM_TUNNEL_ID_LEN_def tunnel_start_def tm_tunnel_listener_start_def
      tunnel_new_def tunnel_zero_def)

lemma demo_tunnel_fields: "t_closed demo_tunnel" "t_proto demo_tunnel = TM_PROTO_TCP" "t_public_port demo_tunnel = 0"
  by (simp_all add: demo_tunnel_def tunnel_new_def)


theorem closed_tcp_never_exposed_witness: "\<not> t_listener_open demo_tunnel \<and> t_handle demo_tunnel = HNone"
proof -
  have "get_tun demo_closed 0 = Some demo_tunnel" by (simp add: get_tun_def demo_closed_fields)
  then show ?thesis
    using closed_tcp_never_exposed [OF demo_closed_run demo_broker_ports(1)] demo_tunnel_fields(1,2) by blast
qed

section \<open>The life of a listener\<close>

text \<open>
  What can happen to the listener of a TCP tunnel: it is started (by creating or enabling the tunnel),
  stopped (by disabling it), the tunnel is deleted, and libuv runs the close callback of a closing
  handle. A deleted tunnel is out of the registry, so only its callback is left. The result is \<open>None\<close>
  where the handle would be initialised twice or the tunnel freed under libuv.
\<close>

datatype life_event = LStart | LStop | LDelete | LClosed

definition life_step :: "listen_env \<Rightarrow> life_event \<Rightarrow> tm_tunnel \<Rightarrow> closed_result option" where
  "life_step env ev t =
     (case ev of
        LStart \<Rightarrow> if t_deleting t then Some (TunKept t) else map_option TunKept (tm_tunnel_listener_start env t)
      | LStop \<Rightarrow> if t_deleting t then Some (TunKept t) else Some (TunKept (tm_tunnel_listener_stop t))
      | LDelete \<Rightarrow>
          if t_deleting t then Some (TunKept t)
          else let t = tm_tunnel_listener_stop (t\<lparr>t_deleting := True\<rparr>)
               in if t_close_refs t = 0 then tunnel_free t else Some (TunKept t)
      | LClosed \<Rightarrow> if t_handle t = HClosing then tunnel_listener_closed env t else Some (TunKept t))"

fun life_run :: "(listen_env \<times> life_event) list \<Rightarrow> tm_tunnel \<Rightarrow> closed_result option" where
  "life_run [] t = Some (TunKept t)"
| "life_run ((env, ev) # evs) t =
     (case life_step env ev t of
        None \<Rightarrow> None
      | Some TunFreed \<Rightarrow> Some TunFreed
      | Some (TunKept t') \<Rightarrow> life_run evs t')"

definition life_inv :: "tm_tunnel \<Rightarrow> bool" where
  "life_inv t \<longleftrightarrow>
     t_proto t = TM_PROTO_TCP \<and> (t_listener_open t \<longleftrightarrow> t_handle t = HActive) \<and>
     (t_listener_closing t \<longleftrightarrow> t_handle t = HClosing) \<and>
     t_close_refs t = (if t_handle t = HClosing then 1 else 0) \<and>
     (t_listener_restart_pending t \<longrightarrow> t_handle t = HClosing) \<and>
     (t_deleting t \<longrightarrow> t_handle t = HClosing \<and> \<not> t_listener_restart_pending t) \<and>
     (t_closed t \<longrightarrow> t_handle t = HNone)"

definition env_ok :: "listen_env \<Rightarrow> bool" where
  "env_ok env \<longleftrightarrow> le_addr env \<and> le_bind env \<and> le_listen env"

lemma life_step_inv:
  assumes "life_inv t" "env_ok env"
  shows "(\<exists>t'. life_step env ev t = Some (TunKept t') \<and> life_inv t' \<and> t_closed t' = t_closed t) \<or>
    (life_step env ev t = Some TunFreed)"
  using assms
  by (cases ev; cases "t_handle t")
    (auto simp: life_step_def life_inv_def env_ok_def tm_tunnel_listener_start_def tm_tunnel_listener_stop_def
      tunnel_listener_closed_def tunnel_free_def Let_def)

lemma life_run_inv:
  assumes "life_inv t" "\<forall>(env, ev) \<in> set evs. env_ok env"
  shows "(\<exists>t'. life_run evs t = Some (TunKept t') \<and> life_inv t' \<and> t_closed t' = t_closed t) \<or>
    life_run evs t = Some TunFreed"
  using assms
proof (induction evs arbitrary: t)
  case (Cons e evs)
  obtain env ev where e: "e = (env, ev)" by (cases e)
  then have "env_ok env" using Cons.prems(2) by simp
  from life_step_inv [OF Cons.prems(1) this] show ?case
  proof
    assume "\<exists>t'. life_step env ev t = Some (TunKept t') \<and> life_inv t' \<and> t_closed t' = t_closed t"
    then obtain t' where t': "life_step env ev t = Some (TunKept t')" "life_inv t'" "t_closed t' = t_closed t"
      by blast
    show ?thesis using Cons.IH [OF t'(2)] Cons.prems(2) t'(1,3) by (simp add: e)
  qed (simp add: e)
qed simp

lemma life_inv_new: "life_inv (tunnel_new now tid TM_PROTO_TCP closed ah th port)"
  by (simp add: life_inv_def tunnel_new_def tunnel_zero_def)

lemma t_closed_new [simp]: "t_closed (tunnel_new now tid proto closed ah th port) = closed"
  by (simp add: tunnel_new_def)




lemma demo_restart:
  "\<exists>t. life_run [(bind_ok, LStart), (bind_ok, LStop)] (tunnel_new 5 [65] TM_PROTO_TCP False None None 7000) =
     Some (TunKept t) \<and> \<not> t_deleting t \<and> t_listener_closing t"
  by (simp add: life_step_def tm_tunnel_listener_start_def tm_tunnel_listener_stop_def bind_ok_def
      tunnel_new_def tunnel_zero_def)




text \<open>
  (C39) Disabling and enabling a UDP tunnel before the close callback has run initialises its socket's
  handle while libuv is closing it: \<open>tm_udp_start\<close> has no counterpart of the listener's restart flag.
\<close>

theorem udp_reenable_faults:
  assumes "t_proto t = TM_PROTO_UDP" "t_udp_open t" "tm_udp_stop (b, t) = (b', t')"
  shows "tm_udp_start env t' = None"
proof -
  define t0 where "t0 = t\<lparr>t_close_refs := t_close_refs t + 1, t_handle := HClosing, t_udp_open := False\<rparr>"
  obtain b1 t1 where c: "close_sessions (map fst (t_udp_sessions t0)) (b, t0) = (b1, t1)" by fastforce
  obtain b2 t2 where e: "expire_flows (map fst (t_udp_flows t1)) (b1, t1) = (b2, t2)" by fastforce
  have "t' = t2\<lparr>t_agent_session := None\<rparr>"
    using assms(2,3) c e by (simp add: tm_udp_stop_def t0_def [symmetric])
  moreover have "ut_same (b, t0) (b2, t2)"
    using ut_same_trans ut_same_close_sessions ut_same_expire_flows c e by metis
  ultimately show ?thesis
    using assms(1) by (simp add: ut_same_def tm_udp_start_def t0_def tun_key_def)
qed

theorem udp_reenable_faults_witness:
  "tm_udp_start bind_ok (snd (tm_udp_stop (demo_broker, tunnel_zero\<lparr>t_proto := TM_PROTO_UDP, t_udp_open := True\<rparr>))) = None"
  by (rule udp_reenable_faults [of "tunnel_zero\<lparr>t_proto := TM_PROTO_UDP, t_udp_open := True\<rparr>" demo_broker
      "fst (tm_udp_stop (demo_broker, tunnel_zero\<lparr>t_proto := TM_PROTO_UDP, t_udp_open := True\<rparr>))"]) simp_all

end
