(* ===== verification/UdpInv.thy ===== *)
theory UdpInv
  imports UdpPlane
begin

text \<open>
  Properties of the UDP side of a tunnel: a session's queue is a FIFO of whole envelopes within its
  limits, the tables of flows and sessions stay consistent through every event, replies go to the
  address the flow came from, and nothing is forwarded before authentication.
\<close>

section \<open>The queue of a session\<close>

text \<open>\<open>queue_ok s envs\<close>: the unsent part of the queue is exactly the envelopes \<open>envs\<close>, each behind its length.\<close>

definition queue_ok :: "tm_udp_session \<Rightarrow> bytes list \<Rightarrow> bool" where
  "queue_ok s envs \<longleftrightarrow>
     s_outq_off s \<le> length (s_outq s) \<and> length (s_outq s) \<le> s_outq_cap s \<and>
     drop (s_outq_off s) (s_outq s) = concat (map (\<lambda>e. wr_u32 (of_nat (length e)) @ e) envs) \<and>
     s_outq_packets s = length envs \<and> (\<forall>e \<in> set envs. length e < 2 ^ 32)"

text \<open>DTLS writes a message whole or not at all.\<close>

definition whole_writes :: "tm_udp_session \<Rightarrow> bool" where
  "whole_writes s \<longleftrightarrow> (\<forall>a \<in> set (s_sw s). \<forall>n. a \<noteq> DwPart n)"

lemma queue_append_ok:
  assumes "queue_ok s envs" "length data < 2 ^ 32"
  shows "queue_ok (queue_append data s) (envs @ [data])"
proof -
  have grow: "n \<le> grow_cap (if c \<noteq> 0 then c * 2 else 4096) n" for c n :: nat
    by (rule grow_cap_ge) simp
  show ?thesis
    using assms grow by (auto simp: queue_ok_def queue_append_def Let_def length_wr_u32)
qed

lemma dtls_write_ok:
  assumes "dtls_write s = (a, s')" "whole_writes s" "queue_ok s envs"
  shows "whole_writes s' \<and> queue_ok s' envs \<and> s_plain s' = s_plain s \<and> (\<forall>n. a \<noteq> DwPart n) \<and>
    s_outq s' = s_outq s \<and> s_outq_off s' = s_outq_off s \<and> s_outq_cap s' = s_outq_cap s \<and>
    s_outq_packets s' = s_outq_packets s"
  using assms by (cases "s_sw s") (auto simp: dtls_write_def whole_writes_def queue_ok_def)

lemma pump_take_ok:
  assumes q: "queue_ok s envs" and w: "whole_writes s" and p: "pump_take s = (r, s')"
  shows "(case r of None \<Rightarrow> queue_ok s' envs \<and> s_plain s' = s_plain s \<and> whole_writes s'
    | Some s1 \<Rightarrow> whole_writes s1 \<and>
        (\<exists>rest. queue_ok s1 rest \<and> s_plain s1 @ rest = s_plain s @ envs))"
proof (cases envs)
  case Nil
  then have "\<not> s_outq_off s < length (s_outq s)" using q by (simp add: queue_ok_def)
  then show ?thesis using p q w by (auto simp: pump_take_def Let_def)
next
  case (Cons e rest)
  let ?off = "s_outq_off s" and ?q = "s_outq s"
  have dq: "drop ?off ?q = wr_u32 (of_nat (length e)) @ e @ concat (map (\<lambda>e. wr_u32 (of_nat (length e)) @ e) rest)"
    and le: "length e < 2 ^ 32"
    using q Cons by (auto simp: queue_ok_def)
  have len: "length ?q - ?off = 4 + length e + length (concat (map (\<lambda>e. wr_u32 (of_nat (length e)) @ e) rest))"
    using arg_cong [OF dq, of length] by (simp add: length_wr_u32)
  have rd: "unat (rd_u32 (drop ?off ?q)) = length e"
    using le by (simp add: dq unsigned_of_nat take_bit_nat_eq_self)
  have body: "take (length e) (drop (?off + 4) ?q) = e"
    using arg_cong [OF dq, of "drop 4"] by (simp add: length_wr_u32 add.commute)
  have "drop (4 + length e) (drop ?off ?q) = concat (map (\<lambda>e. wr_u32 (of_nat (length e)) @ e) rest)"
    unfolding dq by simp
  then have tail: "drop (?off + 4 + length e) ?q = concat (map (\<lambda>e. wr_u32 (of_nat (length e)) @ e) rest)"
    by (simp add: ac_simps)
  have next_q: "queue_ok (s1\<lparr>s_outq_off := ?off + 4 + length e, s_outq_packets := s_outq_packets s - 1\<rparr>) rest"
    if "s_outq s1 = ?q" "s_outq_cap s1 = s_outq_cap s" for s1
    using q len that tail by (auto simp: queue_ok_def Cons)
  have guards: "?off < length ?q" "\<not> length ?q - ?off < 4" "\<not> length ?q - ?off - 4 < length e"
    using len by simp_all
  obtain a s2 where a: "dtls_write s = (a, s2)" by (cases "dtls_write s")
  note dw = dtls_write_ok [OF a w q]
  show ?thesis
  proof (cases a)
    case DwWhole
    have "queue_ok (s2\<lparr>s_plain := s_plain s @ [e], s_outq_off := ?off + 4 + length e,
        s_outq_packets := s_outq_packets s - 1\<rparr>) rest"
      using next_q [of "s2\<lparr>s_plain := s_plain s @ [e]\<rparr>"] dw by simp
    moreover have "r = Some (s2\<lparr>s_plain := s_plain s @ [e], s_outq_off := ?off + 4 + length e,
        s_outq_packets := s_outq_packets s - 1\<rparr>)"
      using p guards rd body dw DwWhole by (auto simp: pump_take_def Let_def a)
    ultimately show ?thesis using dw Cons by (auto simp: whole_writes_def)
  next
    case (DwPart n)
    then show ?thesis using dw by simp
  next
    case DwWant
    then have "r = Some s2" using p guards rd by (auto simp: pump_take_def Let_def a)
    then show ?thesis using dw by auto
  next
    case DwFail
    then have "r = None" "s' = s2" using p guards rd by (auto simp: pump_take_def Let_def a)
    then show ?thesis using dw by simp
  qed
qed

lemma pump_take_cap:
  "pump_take s = (r, s') \<Longrightarrow> s_outq_cap s' = s_outq_cap s \<and> (\<forall>s1. r = Some s1 \<longrightarrow> s_outq_cap s1 = s_outq_cap s)"
  by (auto simp: pump_take_def dtls_write_def Let_def split: if_splits list.splits)

lemma udp_send_raw_tables:
  "udp_send_raw out (b, t) = (b', t') \<Longrightarrow>
     t_udp_sessions t' = t_udp_sessions t \<and> t_udp_flows t' = t_udp_flows t \<and>
     t_agent_session t' = t_agent_session t \<and> t_next_flow_id t' = t_next_flow_id t \<and>
     b_heap b' = b_heap b \<and> b_cfg b' = b_cfg b"
  by (auto simp: udp_send_raw_def Let_def split: if_splits)

text \<open>
  \<open>quiet\<close>: an operation that leaves the tables alone, down to who the sessions are. \<open>sess_ids\<close> is what
  the other parts of the code read of a session.
\<close>

definition sess_id :: "tm_udp_session \<Rightarrow> bool \<times> bool \<times> bool \<times> sockaddr" where
  "sess_id s = (s_closing s, s_authenticated s, s_is_agent s, s_peer s)"

definition sess_ids :: "tm_tunnel \<Rightarrow> (addr \<times> bool \<times> bool \<times> bool \<times> sockaddr) list" where
  "sess_ids t = map (\<lambda>(a, s). (a, sess_id s)) (t_udp_sessions t)"

definition quiet :: "ut \<Rightarrow> ut \<Rightarrow> bool" where
  "quiet bt bt' \<longleftrightarrow>
     sess_ids (snd bt') = sess_ids (snd bt) \<and> t_udp_flows (snd bt') = t_udp_flows (snd bt) \<and>
     t_agent_session (snd bt') = t_agent_session (snd bt) \<and>
     t_next_flow_id (snd bt') = t_next_flow_id (snd bt) \<and> t_closed (snd bt') = t_closed (snd bt) \<and>
     t_agent_secret_hmac (snd bt') = t_agent_secret_hmac (snd bt) \<and>
     t_shared_token_hmac (snd bt') = t_shared_token_hmac (snd bt) \<and>
     b_heap (fst bt') = b_heap (fst bt) \<and> b_cfg (fst bt') = b_cfg (fst bt) \<and>
     b_hmac_key (fst bt') = b_hmac_key (fst bt)"

lemma quiet_refl [simp]: "quiet bt bt"
  by (simp add: quiet_def)

lemma quiet_counters [simp]:
  "quiet (b, t) (b\<lparr>b_udp_dropped_queue_full := n\<rparr>, t)" "quiet (b, t) (b\<lparr>b_udp_dropped_no_flow := n\<rparr>, t)"
  "quiet (b, t) (b\<lparr>b_udp_dropped_oversize := n\<rparr>, t)" "quiet (b, t) (b\<lparr>b_udp_dropped_rate_limit := n\<rparr>, t)"
  "quiet (b, t) (b\<lparr>b_failed_auths := n\<rparr>, t)" "quiet (b, t) (b\<lparr>b_protocol_errors := n\<rparr>, t)"
  by (simp_all add: quiet_def)

lemma quiet_trans: "quiet x y \<Longrightarrow> quiet y z \<Longrightarrow> quiet x z"
  by (simp add: quiet_def)

lemma sess_ids_put [simp]:
  "get_session sa t = Some s \<Longrightarrow> sess_id s' = sess_id s \<Longrightarrow> sess_ids (put_session sa s' t) = sess_ids t"
  by (simp add: sess_ids_def map_put_same)

lemma pump_take_id:
  "pump_take s = (r, s') \<Longrightarrow> sess_id s' = sess_id s \<and> (\<forall>s1. r = Some s1 \<longrightarrow> sess_id s1 = sess_id s)"
  by (auto simp: pump_take_def dtls_write_def sess_id_def Let_def split: if_splits list.splits)

lemma udp_send_raw_quiet: "quiet bt (udp_send_raw out bt)"
  by (cases bt) (auto simp: quiet_def udp_send_raw_def sess_ids_def Let_def)

lemma udp_send_raw_sessions: "t_udp_sessions (snd (udp_send_raw out bt)) = t_udp_sessions (snd bt)"
  by (cases bt) (auto simp: udp_send_raw_def Let_def)

lemma pump_emit_quiet:
  assumes "get_session sa (snd bt) = Some s0" "sess_id s = sess_id s0"
  shows "quiet bt (pump_emit sa s bt)"
proof -
  obtain b t where bt: "bt = (b, t)" by (cases bt)
  obtain b1 t1 where r: "udp_send_raw (OutRecord sa) (b, t) = (b1, t1)" by fastforce
  have q: "quiet (b, t) (b1, t1)" using udp_send_raw_quiet [of "(b, t)" "OutRecord sa"] r by simp
  have g: "get_session sa t1 = Some s0"
    using udp_send_raw_sessions [of "OutRecord sa" "(b, t)"] r assms(1) bt by simp
  have id: "sess_id (s\<lparr>s_bio := x\<rparr>) = sess_id s0"
      "sess_id (s\<lparr>s_bio := x, s_inflight := y, s_pkts_tx := z\<rparr>) = sess_id s0" for x y z
    using assms(2) by (simp_all add: sess_id_def)
  show ?thesis
    using q g assms(1) id by (simp add: pump_emit_def bt r quiet_def sess_ids_def map_put_same Let_def)
qed

lemma pump_wrap_id [simp]: "sess_id (pump_wrap s) = sess_id s"
  by (simp add: pump_wrap_def sess_id_def)

lemma pump_out_quiet: "quiet bt (pump_out sa bt)"
proof -
  obtain b t where bt: "bt = (b, t)" by (cases bt)
  show ?thesis
  proof (cases "get_session sa t")
    case (Some s)
    obtain r s' where p: "pump_take s = (r, s')" by (cases "pump_take s")
    show ?thesis
    proof (cases r)
      case None
      then show ?thesis using Some p pump_take_id [OF p]
        by (auto simp: pump_out_def bt quiet_def sess_ids_def map_put_same)
    next
      case (Some s1)
      then show ?thesis using \<open>get_session sa t = Some s\<close> p pump_take_id [OF p]
          pump_emit_quiet [of bt sa s "pump_wrap s1"]
        by (auto simp: pump_out_def bt)
    qed
  qed (simp add: pump_out_def bt)
qed

lemma queue_append_id [simp]: "sess_id (queue_append data s) = sess_id s"
  by (simp add: queue_append_def sess_id_def Let_def)

lemma session_queue_quiet: "quiet bt (session_queue sa data bt)"
proof -
  obtain b t where bt: "bt = (b, t)" by (cases bt)
  have "quiet (b, t) (b, put_session sa (queue_append data s) t)" if "get_session sa t = Some s" for s
    using that by (simp add: quiet_def sess_ids_def map_put_same)
  then show ?thesis
    using quiet_trans [OF _ pump_out_quiet] by (auto simp: session_queue_def bt split: option.split)
qed

lemma forward_to_agent_quiet: "quiet bt (forward_to_agent fid payload bt)"
  using session_queue_quiet by (cases bt) (auto simp: forward_to_agent_def split: option.split)

lemma forward_to_peer_quiet: "quiet bt (forward_to_peer f payload bt)"
proof -
  obtain b t where bt: "bt = (b, t)" by (cases bt)
  obtain b1 t1 where r: "udp_send_raw (OutPlain (fl_src f) payload) (b, t) = (b1, t1)" by fastforce
  have "quiet (b, t) (b1, t1)" using udp_send_raw_quiet [of "(b, t)" "OutPlain (fl_src f) payload"] r by simp
  then have "quiet (b, t) (b1\<lparr>b_datagrams_tx_total := x, b_udp_bytes_tx := y\<rparr>,
      t1\<lparr>t_datagrams_tx := u, t_udp_bytes_tx := v\<rparr>)" for x y u v
    by (simp add: quiet_def sess_ids_def)
  then show ?thesis
    using session_queue_quiet by (auto simp: forward_to_peer_def bt r split: option.split)
qed

lemma limits_quiet:
  "tunnel_pkt_limit now bt = (ok, bt') \<Longrightarrow> quiet bt bt'"
  "creation_limit now bt = (ok, bt') \<Longrightarrow> quiet bt bt'"
  by (auto simp: tunnel_pkt_limit_def creation_limit_def quiet_def sess_ids_def split: prod.splits)

section \<open>Queues are FIFO\<close>

lemma pump_emit_session:
  assumes "get_session sa (snd bt) = Some s0"
  shows "\<exists>s'. get_session sa (snd (pump_emit sa s bt)) = Some s' \<and>
    s_outq s' = s_outq s \<and> s_outq_off s' = s_outq_off s \<and> s_outq_cap s' = s_outq_cap s \<and>
    s_outq_packets s' = s_outq_packets s \<and> s_plain s' = s_plain s \<and> s_sw s' = s_sw s"
proof -
  obtain b t where bt: "bt = (b, t)" by (cases bt)
  obtain b1 t1 where r: "udp_send_raw (OutRecord sa) (b, t) = (b1, t1)" by fastforce
  have "get_session sa t1 = Some s0"
    using udp_send_raw_sessions [of "OutRecord sa" "(b, t)"] r assms bt by simp
  then show ?thesis
    using assms by (simp add: pump_emit_def bt r Let_def)
qed

lemma pump_out_fifo:
  assumes "get_session sa t = Some s" "queue_ok s envs" "whole_writes s" "pump_out sa (b, t) = (b', t')"
  shows "\<exists>s' envs'. get_session sa t' = Some s' \<and> queue_ok s' envs' \<and> whole_writes s' \<and>
    s_plain s' @ envs' = s_plain s @ envs \<and> s_outq_cap s' = s_outq_cap s"
proof (cases "s_closing s \<or> s_inflight s")
  case True
  then show ?thesis using assms by (auto simp: pump_out_def)
next
  case False
  obtain r s2 where p: "pump_take s = (r, s2)" by (cases "pump_take s")
  note take = pump_take_ok [OF assms(2,3) p] pump_take_cap [OF p]
  show ?thesis
  proof (cases r)
    case None
    then have "get_session sa t' = Some s2" using assms(1,4) False p by (auto simp: pump_out_def)
    then show ?thesis using take None by auto
  next
    case (Some s1)
    then obtain rest where rest: "queue_ok s1 rest" "whole_writes s1" "s_plain s1 @ rest = s_plain s @ envs"
        "s_outq_cap s1 = s_outq_cap s"
      using take by auto
    have pe: "pump_emit sa (pump_wrap s1) (b, t) = (b', t')"
      using assms(1,4) False p Some by (simp add: pump_out_def)
    from pump_emit_session [of "(b, t)" sa s "pump_wrap s1"] obtain s' where
        s': "get_session sa t' = Some s'" "s_outq s' = s_outq (pump_wrap s1)"
          "s_outq_off s' = s_outq_off (pump_wrap s1)" "s_outq_cap s' = s_outq_cap (pump_wrap s1)"
          "s_outq_packets s' = s_outq_packets (pump_wrap s1)" "s_plain s' = s_plain (pump_wrap s1)"
          "s_sw s' = s_sw (pump_wrap s1)"
      using assms(1) pe by auto
    have "queue_ok s' rest" "whole_writes s'"
      using rest(1,2) s' by (auto simp: queue_ok_def whole_writes_def pump_wrap_def split: if_splits)
    moreover have "s_plain s' = s_plain s1" "s_outq_cap s' = s_outq_cap s1"
      using s' by (simp_all add: pump_wrap_def)
    ultimately show ?thesis using rest(3,4) s'(1) by auto
  qed
qed

lemma queue_append_cap:
  assumes "s_outq_off s \<le> length (s_outq s)" "length (s_outq s) - s_outq_off s + 4 + length data \<le> n"
    and "s_outq_cap s \<le> max 4096 (2 * n)"
  shows "s_outq_cap (queue_append data s) \<le> max 4096 (2 * n)"
proof (cases "s_outq_cap s < length (s_outq s) - s_outq_off s + (4 + length data)")
  case True
  let ?need = "length (s_outq s) - s_outq_off s + (4 + length data)"
  have "grow_cap (if s_outq_cap s \<noteq> 0 then s_outq_cap s * 2 else 4096) ?need \<le> max 4096 (2 * n)"
    using grow_cap_upper [of "if s_outq_cap s \<noteq> 0 then s_outq_cap s * 2 else 4096" ?need] True assms(2)
    by (auto split: if_splits)
  then show ?thesis using assms(3) by (auto simp: queue_append_def Let_def)
next
  case False
  then show ?thesis using assms(1,3) by (auto simp: queue_append_def Let_def)
qed

text \<open>
  (C21) The output queue of a DTLS session is a bounded FIFO of whole messages. When \<open>session_queue\<close>
  admits an envelope, the envelopes OpenSSL has taken followed by those still queued grow by exactly
  that envelope, at the end; when it refuses one (packet or byte limit) they stay the same. The
  queue's memory stays within twice the byte limit \<open>udp_queue_packets * (udp_max_datagram_size + 15)\<close>
  or the initial 4096 bytes.
\<close>
theorem session_queue_fifo:
  assumes "get_session sa t = Some s" "\<not> s_closing s" "queue_ok s envs" "whole_writes s"
    and "s_outq_cap s \<le> max 4096 (2 * queue_limit (b_cfg b))"
    and "session_queue sa data (b, t) = (b', t')"
  shows "\<exists>s' envs'. get_session sa t' = Some s' \<and> queue_ok s' envs' \<and> whole_writes s' \<and>
    s_plain s' @ envs' = s_plain s @ envs @ (if queue_admits (b_cfg b) (length data) s then [data] else []) \<and>
    s_outq_cap s' \<le> max 4096 (2 * queue_limit (b_cfg b))"
proof (cases "queue_admits (b_cfg b) (length data) s")
  case True
  then have adm: "length data < 2 ^ 32" "length (s_outq s) - s_outq_off s + 4 + length data \<le> queue_limit (b_cfg b)"
    by (auto simp: queue_admits_def)
  let ?s = "queue_append data s"
  have "pump_out sa (b, put_session sa ?s t) = (b', t')" "get_session sa (put_session sa ?s t) = Some ?s"
    using assms(1,2,6) True by (simp_all add: session_queue_def)
  moreover have "whole_writes ?s" "s_plain ?s = s_plain s"
    using assms(4) by (simp_all add: queue_append_def whole_writes_def Let_def)
  ultimately show ?thesis
    using pump_out_fifo [OF _ queue_append_ok [OF assms(3) adm(1)], of "put_session sa ?s t" sa b b' t']
      queue_append_cap [OF _ adm(2) assms(5)] assms(3) True
    by (fastforce simp: queue_ok_def [of s])
next
  case False
  then show ?thesis using assms by (auto simp: session_queue_def)
qed

section \<open>The tables\<close>

definition inet :: "sockaddr \<Rightarrow> bool" where
  "inet a = (case a of SaInet _ _ \<Rightarrow> True | SaInet6 _ _ \<Rightarrow> True | _ \<Rightarrow> False)"

lemma tm_addr_eq_inet: "inet b \<Longrightarrow> tm_addr_eq (Some a) (Some b) \<longleftrightarrow> a = b"
  by (auto simp: inet_def tm_addr_eq_def split: sockaddr.splits)

text \<open>Who a flow belongs to: a peer session and its flow id, or a client address.\<close>

definition flow_key :: "tm_udp_flow \<Rightarrow> bool \<times> addr option \<times> u64 \<times> sockaddr" where
  "flow_key f = (fl_from_peer_session f, fl_peer_session f, fl_src_flow_id f, fl_src f)"

definition flow_ok :: "addr set \<Rightarrow> u64 \<Rightarrow> tm_udp_flow \<Rightarrow> bool" where
  "flow_ok sas nx f \<longleftrightarrow>
     fl_flow_id f \<noteq> 0 \<and> fl_flow_id f < nx \<and>
     (if fl_from_peer_session f then (\<exists>sa \<in> sas. fl_peer_session f = Some sa) \<and> fl_src f = SaUnspec
      else fl_peer_session f = None \<and> fl_src_flow_id f = 0 \<and> inet (fl_src f))"

definition udp_inv :: "ut \<Rightarrow> bool" where
  "udp_inv bt \<longleftrightarrow>
     (let t = snd bt; n = b_heap (fst bt); fs = t_udp_flows t in
      objs_ok n (sess_ids t) \<and> objs_ok n fs \<and>
      (\<forall>(_, c, _) \<in> set (sess_ids t). \<not> c) \<and>
      (\<forall>(_, f) \<in> set fs. flow_ok (fst ` set (sess_ids t)) (t_next_flow_id t) f) \<and>
      distinct (map (\<lambda>(_, f). fl_flow_id f) fs) \<and> distinct (map (\<lambda>(_, f). flow_key f) fs) \<and>
      length fs \<le> size_of (cfg_udp_max_flows_per_tunnel (b_cfg (fst bt))) \<and>
      0 < t_next_flow_id t \<and>
      (\<forall>sa. t_agent_session t = Some sa \<longrightarrow>
         (\<exists>p. (sa, False, True, True, p) \<in> set (sess_ids t))))"

lemma udp_inv_quiet: "udp_inv bt \<Longrightarrow> quiet bt bt' \<Longrightarrow> udp_inv bt'"
  by (simp add: udp_inv_def quiet_def Let_def)

lemma fst_sess_ids [simp]: "map fst (sess_ids t) = map fst (t_udp_sessions t)"
  by (simp add: sess_ids_def comp_def case_prod_unfold)

lemma fst_set_sess_ids: "fst ` set (sess_ids t) = fst ` set (t_udp_sessions t)"
  using arg_cong [OF fst_sess_ids, of set t] by (simp only: list.set_map)

lemma find_snd:
  assumes "List.find (\<lambda>(_, x). P x) xs = Some (k, x)"
  shows "(k, x) \<in> set xs \<and> P x"
  using find_Some_in [OF assms] by simp

lemma flow_seen_inv:
  assumes inv: "udp_inv (b, t)" and f: "(fa, f) \<in> set (t_udp_flows t)"
  shows "udp_inv (flow_seen now fa f n (b, t))"
proof -
  let ?f = "f\<lparr>fl_last_seen_ms := now, fl_pkts_rx := fl_pkts_rx f + 1, fl_bytes_rx := fl_bytes_rx f + of_nat n\<rparr>"
  have at: "map_of (t_udp_flows t) fa = Some f"
    using inv f by (auto simp: udp_inv_def objs_ok_def Let_def)
  have same: "map (\<lambda>(_, f). fl_flow_id f) (put fa ?f (t_udp_flows t)) = map (\<lambda>(_, f). fl_flow_id f) (t_udp_flows t)"
      "map (\<lambda>(_, f). flow_key f) (put fa ?f (t_udp_flows t)) = map (\<lambda>(_, f). flow_key f) (t_udp_flows t)"
    using arg_cong [OF map_put_same [OF at, of fl_flow_id ?f], of "map snd"]
      arg_cong [OF map_put_same [OF at, of flow_key ?f], of "map snd"]
    by (simp_all add: comp_def case_prod_unfold flow_key_def)
  have "flow_ok sas nx ?f = flow_ok sas nx f" for sas nx by (simp add: flow_ok_def)
  then have "flow_ok sas nx g" if "(k, g) \<in> set (put fa ?f (t_udp_flows t))"
      "\<forall>(_, f) \<in> set (t_udp_flows t). flow_ok sas nx f" for k g sas nx
    using in_put [OF that(1)] that(2) f by auto
  then show ?thesis
    using inv same by (auto simp: udp_inv_def flow_seen_def sess_ids_def Let_def)
qed

lemma flow_new_inv:
  assumes inv: "udp_inv (b, t)" and room: "length (t_udp_flows t) < size_of (cfg_udp_max_flows_per_tunnel (b_cfg b))"
    and nx: "unat (t_next_flow_id t) + 1 < 2 ^ 64"
    and key: "\<forall>(_, f) \<in> set (t_udp_flows t). flow_key f \<noteq> (fp, ps, sid, src)"
    and ok: "if fp then (\<exists>sa \<in> fst ` set (sess_ids t). ps = Some sa) \<and> src = SaUnspec
      else ps = None \<and> sid = 0 \<and> inet src"
    and new: "flow_new now fp ps sid src (b, t) = ((fa, f), b', t')"
  shows "udp_inv (b', t')" "(fa, f) \<in> set (t_udp_flows t')" "sess_ids t' = sess_ids t"
    "fl_flow_id f = t_next_flow_id t" "t_next_flow_id t' = t_next_flow_id t + 1" "b_cfg b' = b_cfg b"
proof -
  let ?n = "t_next_flow_id t"
  have pos: "0 < ?n" using inv by (simp add: udp_inv_def Let_def)
  have up: "?n < ?n + 1" using nx by (simp add: word_less_nat_alt unat_word_ariths)
  have below: "x < ?n + 1" if "x < ?n" for x using that up by (rule less_trans)
  have f: "fa = b_heap b" "fl_flow_id f = ?n" "flow_key f = (fp, ps, sid, src)"
      "fl_from_peer_session f = fp" "fl_peer_session f = ps" "fl_src_flow_id f = sid" "fl_src f = src"
      "t_udp_flows t' = (fa, f) # t_udp_flows t" "t_next_flow_id t' = ?n + 1" "sess_ids t' = sess_ids t"
      "b_heap b' = Suc (b_heap b)" "b_cfg b' = b_cfg b" "t_agent_session t' = t_agent_session t"
    using new pos by (auto simp: flow_new_def flow_key_def sess_ids_def Let_def)
  have ids: "\<forall>(_, g) \<in> set (t_udp_flows t). fl_flow_id g \<noteq> ?n"
    using inv by (fastforce simp: udp_inv_def Let_def flow_ok_def)
  have old: "\<forall>(_, g) \<in> set (t_udp_flows t). flow_ok (fst ` set (sess_ids t)) (?n + 1) g"
    using inv below by (fastforce simp: udp_inv_def Let_def flow_ok_def)
  have newf: "flow_ok (fst ` set (sess_ids t)) (?n + 1) f"
    using ok pos up f by (auto simp: flow_ok_def)
  have "0 < ?n + 1" using pos up by (rule less_trans)
  then show "udp_inv (b', t')"
    using inv room ids key old newf f
    by (auto simp: udp_inv_def Let_def objs_ok_fresh intro: objs_ok_mono)
  show "(fa, f) \<in> set (t_udp_flows t')" "sess_ids t' = sess_ids t"
    "fl_flow_id f = ?n" "t_next_flow_id t' = ?n + 1" "b_cfg b' = b_cfg b" using f by simp_all
qed

lemma udp_inv_fewer_flows:
  assumes "udp_inv (b, t)"
  shows "udp_inv (b\<lparr>b_udp_flow_expired := n\<rparr>, t\<lparr>t_udp_flows := filter P (t_udp_flows t)\<rparr>)"
proof -
  have "length (filter P (t_udp_flows t)) \<le> size_of (cfg_udp_max_flows_per_tunnel (b_cfg b))"
    using assms by (auto simp: udp_inv_def Let_def intro: order_trans [OF length_filter_le])
  moreover have "objs_ok (b_heap b) (filter P (t_udp_flows t))"
    using assms by (auto simp: udp_inv_def Let_def objs_ok_def distinct_map_filter)
  ultimately show ?thesis
    using assms by (auto simp: udp_inv_def sess_ids_def Let_def distinct_map_filter)
qed

lemma flow_expire_inv: "udp_inv bt \<Longrightarrow> udp_inv (tm_udp_flow_expire fa bt)"
  using udp_inv_fewer_flows by (cases bt) (simp add: tm_udp_flow_expire_def flow_unlink_def unlink_def)

text \<open>Closing a session: its flows go with it.\<close>

lemma expire_all:
  "foldl (\<lambda>bt (fa, _). tm_udp_flow_expire fa bt) (b, t) gone =
     (b\<lparr>b_udp_flow_expired := b_udp_flow_expired b + of_nat (length gone)\<rparr>,
      t\<lparr>t_udp_flows := filter (\<lambda>(k, _). k \<notin> fst ` set gone) (t_udp_flows t)\<rparr>)"
proof (induction gone arbitrary: b t)
  case (Cons g gone)
  obtain fa f where g: "g = (fa, f)" by (cases g)
  have "filter (\<lambda>(k, _). k \<notin> fst ` set gone) (unlink fa fs) = filter (\<lambda>(k, _). k \<notin> fst ` set (g # gone)) fs"
    for fs :: "(addr \<times> tm_udp_flow) list"
    by (auto simp: g unlink_def intro!: filter_cong)
  then show ?case
    using Cons.IH by (simp add: g tm_udp_flow_expire_def flow_unlink_def add.commute add.left_commute)
qed simp

lemma filter_gone:
  assumes "distinct (map fst fs)"
  shows "filter (\<lambda>(k, _). k \<notin> fst ` set (filter (\<lambda>(_, f). P f) fs)) fs = filter (\<lambda>(_, f). \<not> P f) fs"
proof (rule filter_cong [OF refl])
  fix x assume x: "x \<in> set fs"
  obtain k f where kf: "x = (k, f)" by (cases x)
  have "P f" if "(k, g) \<in> set fs" "P g" for g
    using that x kf eq_key_imp_eq_value [OF assms] by blast
  then show "(case x of (k, _) \<Rightarrow> k \<notin> fst ` set (filter (\<lambda>(_, f). P f) fs)) = (case x of (_, f) \<Rightarrow> \<not> P f)"
    using x kf by (force simp: image_iff)
qed

lemma session_close_shape:
  assumes inv: "udp_inv (b, t)" and s: "get_session sa t = Some s"
  shows "\<exists>n z. tm_udp_session_close sa (b, t) =
    (b\<lparr>b_udp_flow_expired := n, b_zombies := z\<rparr>,
     t\<lparr>t_udp_flows := filter (\<lambda>(_, f). fl_peer_session f \<noteq> Some sa) (t_udp_flows t),
       t_udp_sessions := unlink sa (t_udp_sessions t),
       t_agent_session := (if t_agent_session t = Some sa then None else t_agent_session t)\<rparr>)"
proof -
  have "distinct (map fst (t_udp_flows t))" using inv by (simp add: udp_inv_def objs_ok_def Let_def)
  from filter_gone [OF this, of "\<lambda>f. fl_peer_session f = Some sa"] show ?thesis
    using s by (auto simp: tm_udp_session_close_def expire_all Let_def)
qed

lemma sess_ids_unlink: "sess_ids (t\<lparr>t_udp_sessions := unlink sa (t_udp_sessions t)\<rparr>) = unlink sa (sess_ids t)"
proof -
  have "map (\<lambda>(a, s). (a, sess_id s)) (unlink sa xs) = unlink sa (map (\<lambda>(a, s). (a, sess_id s)) xs)" for xs
    by (induction xs) auto
  then show ?thesis by (simp add: sess_ids_def)
qed

lemma session_close_inv: "udp_inv bt \<Longrightarrow> udp_inv (tm_udp_session_close sa bt)"
proof -
  assume inv: "udp_inv bt"
  obtain b t where bt: "bt = (b, t)" by (cases bt)
  show ?thesis
  proof (cases "get_session sa t")
    case None
    then show ?thesis using inv by (simp add: bt tm_udp_session_close_def)
  next
    case (Some s)
    let ?fs = "filter (\<lambda>(_, f). fl_peer_session f \<noteq> Some sa) (t_udp_flows t)"
    obtain n z where sh: "tm_udp_session_close sa (b, t) =
        (b\<lparr>b_udp_flow_expired := n, b_zombies := z\<rparr>,
         t\<lparr>t_udp_flows := ?fs, t_udp_sessions := unlink sa (t_udp_sessions t),
           t_agent_session := (if t_agent_session t = Some sa then None else t_agent_session t)\<rparr>)"
      using session_close_shape [OF inv [unfolded bt] Some] by blast
    have i1: "udp_inv (b\<lparr>b_udp_flow_expired := n\<rparr>, t\<lparr>t_udp_flows := ?fs\<rparr>)"
      by (rule udp_inv_fewer_flows [OF inv [unfolded bt]])
    have ids: "sess_ids (t\<lparr>t_udp_flows := ?fs, t_udp_sessions := unlink sa (t_udp_sessions t),
        t_agent_session := x\<rparr>) = unlink sa (sess_ids t)" for x
      using sess_ids_unlink [of sa t] by (simp add: sess_ids_def)
    have "flow_ok (fst ` set (unlink sa (sess_ids t))) nx f"
      if "flow_ok (fst ` set (sess_ids t)) nx f" "fl_peer_session f \<noteq> Some sa" for f nx
      using that by (auto simp: flow_ok_def split: if_splits) blast
    then show ?thesis
      using i1 ids by (fastforce simp: bt sh udp_inv_def Let_def objs_ok_unlink sess_ids_def [of "t\<lparr>t_udp_flows := ?fs\<rparr>"]
          sess_ids_def [of t] split: if_splits)
  qed
qed

text \<open>\<open>next_by k bt bt'\<close>: at most \<open>k\<close> flow ids have been handed out.\<close>

definition next_by :: "nat \<Rightarrow> ut \<Rightarrow> ut \<Rightarrow> bool" where
  "next_by k bt bt' \<longleftrightarrow> unat (t_next_flow_id (snd bt')) \<le> unat (t_next_flow_id (snd bt)) + k"

lemma quiet_next: "quiet bt bt' \<Longrightarrow> next_by k bt bt'"
  by (simp add: quiet_def next_by_def)

lemma quiet_next_trans: "quiet bt bt' \<Longrightarrow> next_by k bt' bt'' \<Longrightarrow> next_by k bt bt''"
  by (simp add: quiet_def next_by_def)

lemma flow_seen_next: "next_by k bt (flow_seen now fa f n bt)"
  by (cases bt) (simp add: next_by_def flow_seen_def)

lemma forward_seen:
  assumes "udp_inv (b, t)" "(fa, f) \<in> set (t_udp_flows t)"
  shows "udp_inv (forward_to_agent fid payload (flow_seen now fa f n (b, t)))"
    "next_by k (b, t) (forward_to_agent fid payload (flow_seen now fa f n (b, t)))"
    "udp_inv (forward_to_peer g payload (flow_seen now fa f n (b, t)))"
    "next_by k (b, t) (forward_to_peer g payload (flow_seen now fa f n (b, t)))"
  using flow_seen_inv [OF assms, of now n] flow_seen_next [of k "(b, t)" now fa f n]
    forward_to_agent_quiet [of "flow_seen now fa f n (b, t)" fid payload]
    forward_to_peer_quiet [of "flow_seen now fa f n (b, t)" g payload]
  by (auto intro: udp_inv_quiet simp: next_by_def quiet_def)

lemma flow_deliver_inv:
  assumes inv: "udp_inv (b, t)" and nx: "unat (t_next_flow_id t) + 1 < 2 ^ 64"
    and found: "\<And>fa f. found = Some (fa, f) \<Longrightarrow> (fa, f) \<in> set (t_udp_flows t)"
    and fresh: "found = None \<Longrightarrow> \<forall>(_, f) \<in> set (t_udp_flows t). flow_key f \<noteq> (fp, ps, sid, src)"
    and ok: "if fp then (\<exists>sa \<in> fst ` set (sess_ids t). ps = Some sa) \<and> src = SaUnspec
      else ps = None \<and> sid = 0 \<and> inet src"
  shows "udp_inv (flow_deliver now found (flow_new now fp ps sid src) payload (b, t)) \<and>
    next_by 1 (b, t) (flow_deliver now found (flow_new now fp ps sid src) payload (b, t))"
proof (cases found)
  case (Some p)
  then show ?thesis
    using forward_seen [OF inv found, of "fst p" "snd p"] by (cases p) (simp add: flow_deliver_def)
next
  case None
  obtain lim b1 t1 where lim: "creation_limit now (b, t) = (lim, b1, t1)" by (cases "creation_limit now (b, t)")
  have q: "quiet (b, t) (b1, t1)" by (rule limits_quiet(2) [OF lim])
  then have i1: "udp_inv (b1, t1)" using inv by (rule udp_inv_quiet [rotated])
  have same: "t_udp_flows t1 = t_udp_flows t" "sess_ids t1 = sess_ids t" "t_next_flow_id t1 = t_next_flow_id t"
    using q by (simp_all add: quiet_def)
  show ?thesis
  proof (cases "\<not> lim \<or> size_of (cfg_udp_max_flows_per_tunnel (b_cfg b1)) \<le> flow_count t1")
    case True
    then have "flow_deliver now found (flow_new now fp ps sid src) payload (b, t) =
        (b1\<lparr>b_udp_dropped_rate_limit := b_udp_dropped_rate_limit b1 + 1\<rparr>, t1)"
      using None lim by (simp add: flow_deliver_def)
    moreover have "quiet (b, t) (b1\<lparr>b_udp_dropped_rate_limit := b_udp_dropped_rate_limit b1 + 1\<rparr>, t1)"
      by (rule quiet_trans [OF q]) simp
    ultimately show ?thesis using inv by (simp add: udp_inv_quiet quiet_next)
  next
    case False
    obtain fa f b2 t2 where new: "flow_new now fp ps sid src (b1, t1) = ((fa, f), b2, t2)"
      by (metis prod.collapse)
    note nf = flow_new_inv [OF i1 _ _ _ _ new]
    have room: "length (t_udp_flows t1) < size_of (cfg_udp_max_flows_per_tunnel (b_cfg b1))"
      using False by (simp add: flow_count_def)
    have keys: "\<forall>(_, f) \<in> set (t_udp_flows t1). flow_key f \<noteq> (fp, ps, sid, src)"
      using fresh None same by simp
    note nf = nf [OF room nx [folded same(3)] keys ok [folded same(2)]]
    have "next_by 1 (b, t) (forward_to_agent (fl_flow_id f) payload (flow_seen now fa f (length payload) (b2, t2)))"
      using forward_seen(2) [OF nf(1,2), of 0] nf(5) same(3) nx by (simp add: next_by_def unat_word_ariths)
    then show ?thesis
      using None lim False new forward_seen(1) [OF nf(1,2)] by (simp add: flow_deliver_def)
  qed
qed

lemma open_client_inv:
  assumes inv: "udp_inv (b, t)" and nx: "unat (t_next_flow_id t) + 1 < 2 ^ 64" and ad: "inet ad"
  shows "udp_inv (open_client_datagram now ad payload (b, t)) \<and>
    next_by 1 (b, t) (open_client_datagram now ad payload (b, t))"
proof -
  obtain lim b1 t1 where lim: "tunnel_pkt_limit now (b, t) = (lim, b1, t1)" by (cases "tunnel_pkt_limit now (b, t)")
  have q: "quiet (b, t) (b1, t1)" by (rule limits_quiet(1) [OF lim])
  have i1: "udp_inv (b1, t1)" by (rule udp_inv_quiet [OF inv q])
  have n1: "unat (t_next_flow_id t1) + 1 < 2 ^ 64" using q nx by (simp add: quiet_def)
  have drop: "quiet (b, t) (b1\<lparr>b_udp_dropped_rate_limit := n\<rparr>, t1)" for n
    by (rule quiet_trans [OF q]) simp
  have del: "udp_inv (flow_deliver now (flow_find_src t1 ad) (flow_new now False None 0 ad) payload (b1, t1)) \<and>
      next_by 1 (b1, t1) (flow_deliver now (flow_find_src t1 ad) (flow_new now False None 0 ad) payload (b1, t1))"
  proof (rule flow_deliver_inv [OF i1 n1])
    show "(fa, f) \<in> set (t_udp_flows t1)" if "flow_find_src t1 ad = Some (fa, f)" for fa f
      using that find_Some_in by (fastforce simp: flow_find_src_def)
    show "\<forall>(_, f) \<in> set (t_udp_flows t1). flow_key f \<noteq> (False, None, 0, ad)" if "flow_find_src t1 ad = None"
      using that ad by (auto simp: flow_find_src_def find_None_iff_all tm_addr_eq_inet flow_key_def)
  qed (use ad in simp)
  then show ?thesis
    using lim drop inv quiet_next_trans [OF q]
    by (auto simp: open_client_datagram_def intro: udp_inv_quiet quiet_next)
qed

lemma peer_session_env_inv:
  assumes inv: "udp_inv (b, t)" and nx: "unat (t_next_flow_id t) + 1 < 2 ^ 64"
  shows "udp_inv (peer_session_env now sa fid payload (b, t)) \<and>
    next_by 1 (b, t) (peer_session_env now sa fid payload (b, t))"
proof (cases "get_session sa t")
  case None
  then show ?thesis using inv by (simp add: peer_session_env_def next_by_def)
next
  case (Some s)
  obtain r1 ws wc where r1: "rate_check (cfg_udp_max_packets_per_source (b_cfg b)) now
      (s_pkt_win_start s, s_pkt_win_count s) = (r1, ws, wc)" by (metis prod.collapse)
  let ?t = "put_session sa (s\<lparr>s_pkt_win_start := ws, s_pkt_win_count := wc\<rparr>) t"
  have q0: "quiet (b, t) (b, ?t)"
    using Some by (simp add: quiet_def sess_ids_def map_put_same sess_id_def)
  obtain lim b1 t1 where lim: "tunnel_pkt_limit now (b, ?t) = (lim, b1, t1)" by (cases "tunnel_pkt_limit now (b, ?t)")
  have q: "quiet (b, t) (b1, t1)" by (rule quiet_trans [OF q0 limits_quiet(1) [OF lim]])
  have i1: "udp_inv (b1, t1)" by (rule udp_inv_quiet [OF inv q])
  have n1: "unat (t_next_flow_id t1) + 1 < 2 ^ 64" using q nx by (simp add: quiet_def)
  have drops: "quiet (b, t) (b1\<lparr>b_udp_dropped_rate_limit := n\<rparr>, t1)" "quiet (b, t) (b\<lparr>b_udp_dropped_rate_limit := n\<rparr>, ?t)" for n
    by (rule quiet_trans [OF q], simp, rule quiet_trans [OF q0], simp)
  have "sa \<in> fst ` set (sess_ids t)"
    using Some by (auto simp: fst_set_sess_ids dest: map_of_SomeD intro: rev_image_eqI)
  then have sa: "sa \<in> fst ` set (sess_ids t1)" using q by (simp add: quiet_def)
  have "udp_inv (flow_deliver now (flow_find_peer t1 sa fid) (flow_new now True (Some sa) fid SaUnspec) payload (b1, t1)) \<and>
      next_by 1 (b1, t1) (flow_deliver now (flow_find_peer t1 sa fid) (flow_new now True (Some sa) fid SaUnspec) payload (b1, t1))"
  proof (rule flow_deliver_inv [OF i1 n1])
    show "(fa, f) \<in> set (t_udp_flows t1)" if "flow_find_peer t1 sa fid = Some (fa, f)" for fa f
      using that find_Some_in by (fastforce simp: flow_find_peer_def)
    show "\<forall>(_, f) \<in> set (t_udp_flows t1). flow_key f \<noteq> (True, Some sa, fid, SaUnspec)" if "flow_find_peer t1 sa fid = None"
      using that by (auto simp: flow_find_peer_def find_None_iff_all flow_key_def)
  qed (use sa in simp)
  then show ?thesis
    using Some r1 lim drops inv i1 q quiet_next_trans [OF q]
    by (auto simp: peer_session_env_def Let_def intro: udp_inv_quiet quiet_next)
qed

lemma agent_session_env_inv:
  assumes "udp_inv (b, t)"
  shows "udp_inv (agent_session_env now fid payload (b, t)) \<and> next_by 1 (b, t) (agent_session_env now fid payload (b, t))"
proof (cases "fid = 0 \<or> flow_find t fid = None")
  case True
  then show ?thesis
    using assms by (auto simp: agent_session_env_def next_by_def intro: udp_inv_quiet)
next
  case False
  then obtain fa f where f: "flow_find t fid = Some (fa, f)" by auto
  then have "(fa, f) \<in> set (t_udp_flows t)" using find_Some_in by (fastforce simp: flow_find_def)
  then show ?thesis
    using forward_seen(3,4) [OF assms] False f by (simp add: agent_session_env_def)
qed

lemma session_create_inv:
  assumes "udp_inv (b, t)" "session_create sw bio now peer (b, t) = (sa, b', t')"
  shows "udp_inv (b', t')" "next_by 0 (b, t) (b', t')"
proof -
  have r: "b' = b\<lparr>b_heap := Suc (b_heap b)\<rparr>" "t_next_flow_id t' = t_next_flow_id t"
      "t_udp_flows t' = t_udp_flows t" "t_agent_session t' = t_agent_session t"
      "sess_ids t' = (b_heap b, False, False, False, peer) # sess_ids t"
    using assms(2) by (auto simp: session_create_def Let_def sess_ids_def sess_id_def)
  have mono: "flow_ok (insert k sas) nx f" if "flow_ok sas nx f" for k sas nx f
    using that by (auto simp: flow_ok_def)
  show "udp_inv (b', t')"
    using assms(1) mono by (fastforce simp: udp_inv_def Let_def r objs_ok_fresh intro: objs_ok_mono)
  show "next_by 0 (b, t) (b', t')" by (simp add: next_by_def r)
qed

text \<open>A session that authenticates keeps its place in the table.\<close>

lemma sess_ids_authed:
  assumes "get_session sa t = Some s"
  shows "sess_ids (put_session sa (s\<lparr>s_authenticated := x, s_is_agent := y\<rparr>) t) =
    put sa (s_closing s, x, y, s_peer s) (sess_ids t)"
proof -
  have "map (\<lambda>(a, s). (a, sess_id s)) (put sa s' xs) = put sa (sess_id s') (map (\<lambda>(a, s). (a, sess_id s)) xs)"
    for s' and xs :: "(addr \<times> tm_udp_session) list"
    by (induction xs) auto
  then show ?thesis by (simp add: sess_ids_def sess_id_def)
qed

lemma session_close_other:
  assumes "udp_inv (b, t)" "old \<noteq> sa" "tm_udp_session_close old (b, t) = (b', t')"
  shows "get_session sa t' = get_session sa t \<and> t_next_flow_id t' = t_next_flow_id t"
proof (cases "get_session old t")
  case None
  then show ?thesis using assms(3) by (simp add: tm_udp_session_close_def)
next
  case (Some s)
  from session_close_shape [OF assms(1) this] show ?thesis
    using assms(2,3) by (auto simp: map_of_unlink)
qed

lemma session_authed_inv:
  assumes inv: "udp_inv (b, t)" and s: "get_session sa t = Some s" and na: "\<not> s_authenticated s"
  shows "udp_inv (session_authed sa is_agent (b, t)) \<and> next_by 0 (b, t) (session_authed sa is_agent (b, t))"
proof -
  define t1 where "t1 = put_session sa (s\<lparr>s_authenticated := True, s_is_agent := is_agent\<rparr>) t"
  have open_s: "\<not> s_closing s"
    using inv map_of_SomeD [OF s] by (fastforce simp: udp_inv_def sess_ids_def sess_id_def Let_def)
  have ids: "sess_ids t1 = put sa (False, True, is_agent, s_peer s) (sess_ids t)"
    using sess_ids_authed [OF s] open_s by (simp add: t1_def)
  have not_agent: "t_agent_session t \<noteq> Some sa"
  proof
    assume "t_agent_session t = Some sa"
    then obtain p where "(sa, False, True, True, p) \<in> set (sess_ids t)"
      using inv by (auto simp: udp_inv_def Let_def)
    then obtain s' where "(sa, s') \<in> set (t_udp_sessions t)" "s_authenticated s'"
      by (auto simp: sess_ids_def sess_id_def)
    moreover have "distinct (map fst (t_udp_sessions t))"
      using inv by (simp add: udp_inv_def objs_ok_def Let_def)
    ultimately show False using s na by (metis map_of_is_SomeI option.inject)
  qed
  have keep: "(k, v) \<in> set (put sa w xs)" if "(k, v) \<in> set xs" "k \<noteq> sa" for k v w and xs :: "(addr \<times> 'a) list"
    using that by (induction xs) auto
  have flows: "t_udp_flows t1 = t_udp_flows t" "t_agent_session t1 = t_agent_session t"
      "t_next_flow_id t1 = t_next_flow_id t" by (simp_all add: t1_def)
  have "(\<forall>x \<in> set (put sa (False, True, is_agent, s_peer s) (sess_ids t)). case x of (_, c, _) \<Rightarrow> \<not> c)"
    using inv by (auto simp: udp_inv_def Let_def dest!: in_put)
  then have i1: "udp_inv (b, t1)"
    using inv ids flows not_agent keep by (fastforce simp: udp_inv_def Let_def)
  obtain b2 t2 where r2: "(if is_agent then replace_agent_session sa (b, t1) else (b, t1)) = (b2, t2)"
    by fastforce
  have "udp_inv (b2, t2) \<and> t_next_flow_id t2 = t_next_flow_id t"
  proof (cases is_agent)
    case False
    then show ?thesis using r2 i1 flows by simp
  next
    case True
    obtain b3 t3 where r3: "(case t_agent_session t1 of
        Some old \<Rightarrow> if old \<noteq> sa then tm_udp_session_close old (b, t1) else (b, t1) | None \<Rightarrow> (b, t1)) = (b3, t3)"
      by fastforce
    have i3: "udp_inv (b3, t3)"
      using r3 i1 session_close_inv [OF i1] by (auto split: option.splits if_splits) (metis)+
    have at: "map_of (t_udp_sessions t1) sa = Some (s\<lparr>s_authenticated := True, s_is_agent := True\<rparr>)"
      using s True by (simp add: t1_def)
    have "map_of (t_udp_sessions t3) sa = map_of (t_udp_sessions t1) sa \<and> t_next_flow_id t3 = t_next_flow_id t1"
      using r3 session_close_other [OF i1] by (auto split: option.splits if_splits)
    then have "(sa, False, True, True, s_peer s) \<in> set (sess_ids t3)" "t_next_flow_id t3 = t_next_flow_id t"
      using map_of_SomeD [of "t_udp_sessions t3" sa] at open_s flows by (force simp: sess_ids_def sess_id_def)+
    moreover have "b2 = b3" "t2 = t3\<lparr>t_agent_session := Some sa\<rparr>"
      using r2 r3 True by (auto simp: replace_agent_session_def)
    moreover have "sess_ids (t3\<lparr>t_agent_session := Some sa\<rparr>) = sess_ids t3" by (simp add: sess_ids_def)
    ultimately show ?thesis using i3 by (auto simp: udp_inv_def Let_def)
  qed
  moreover have "session_authed sa is_agent (b, t) =
      session_queue sa (tm_env_encode 0 TM_ENV_FLAG_AUTH_OK []) (b2, t2)"
    using s r2 by (simp only: session_authed_def Let_def t1_def [symmetric] prod.case option.case)
  ultimately show ?thesis
    using session_queue_quiet [of "(b2, t2)"] by (auto intro: udp_inv_quiet simp: next_by_def quiet_def)
qed

lemma failed_auth_quiet: "quiet bt (failed_auth bt)"
  by (cases bt) simp

lemma quiet_next_by:
  assumes "udp_inv bt" "quiet bt bt'"
  shows "udp_inv bt' \<and> next_by k bt bt'"
  using assms by (blast intro: udp_inv_quiet quiet_next)

lemma session_appdata_inv:
  assumes "udp_inv bt" "unat (t_next_flow_id (snd bt)) + 1 < 2 ^ 64"
  shows "udp_inv (session_appdata cr now sa data bt) \<and> next_by 1 bt (session_appdata cr now sa data bt)"
proof -
  obtain b t where bt: "bt = (b, t)" by (cases bt)
  note inv = assms [unfolded bt]
  show ?thesis
  proof (cases "get_session sa t")
    case None
    then show ?thesis using inv by (subst (1 2) session_appdata.simps) (simp add: bt next_by_def)
  next
    case (Some s)
    have fail: "udp_inv (failed_auth (b, t)) \<and> next_by 1 (b, t) (failed_auth (b, t))"
      using quiet_next_by [OF inv(1) failed_auth_quiet] .
    have err: "udp_inv (session_queue sa e (failed_auth (b, t))) \<and>
        next_by 1 (b, t) (session_queue sa e (failed_auth (b, t)))" for e
      using quiet_next_by [OF inv(1) quiet_trans [OF failed_auth_quiet session_queue_quiet]] .
    have proto: "udp_inv (b\<lparr>b_protocol_errors := n\<rparr>, t) \<and> next_by 1 (b, t) (b\<lparr>b_protocol_errors := n\<rparr>, t)" for n
      by (rule quiet_next_by [OF inv(1)]) simp
    show ?thesis
    proof (cases "s_authenticated s")
      case True
      have "udp_inv (agent_session_env now fid p (b, t)) \<and> next_by 1 (b, t) (agent_session_env now fid p (b, t))"
        "udp_inv (peer_session_env now sa fid p (b, t)) \<and> next_by 1 (b, t) (peer_session_env now sa fid p (b, t))"
        for fid p
        using agent_session_env_inv [OF inv(1)] peer_session_env_inv [OF inv(1)] inv(2) by auto
      then show ?thesis
        using True Some proto
        by (subst (1 2) session_appdata.simps) (auto simp: bt split: option.split)
    next
      case False
      have auth: "udp_inv (session_authed sa x (b, t)) \<and> next_by 1 (b, t) (session_authed sa x (b, t))" for x
        using session_authed_inv [OF inv(1) Some False, of x] by (auto simp: next_by_def)
      have whole: "TM_ENV_HDR_LEN + length p = length data" if "tm_env_decode data = Some (fid, fl, p)" for fid fl p
        using that by (auto simp: tm_env_decode_def TM_ENV_HDR_LEN_def split: if_splits)
      show ?thesis
        using False Some fail err auth
        by (subst (1 2) session_appdata.simps)
          (auto simp: bt Let_def whole split: option.split)
    qed
  qed
qed

lemma drain_ssl_inv:
  assumes "udp_inv bt" "unat (t_next_flow_id (snd bt)) + length msgs < 2 ^ 64"
  shows "udp_inv (drain_ssl cr now sa msgs bt) \<and> next_by (length msgs) bt (drain_ssl cr now sa msgs bt)"
  using assms
proof (induction msgs arbitrary: bt)
  case (Cons m ms)
  let ?bt = "session_appdata cr now sa m bt"
  show ?case
  proof (cases "unat (t_next_flow_id (snd bt)) + 1 < 2 ^ 64")
    case True
    then have "udp_inv ?bt" "next_by 1 bt ?bt" using session_appdata_inv [OF Cons.prems(1)] by auto
    moreover have "unat (t_next_flow_id (snd ?bt)) + length ms < 2 ^ 64"
      using Cons.prems(2) \<open>next_by 1 bt ?bt\<close> by (simp add: next_by_def)
    ultimately show ?thesis using Cons.IH [of ?bt] by (auto simp: next_by_def)
  next
    case False
    then show ?thesis using Cons.prems(2) by simp
  qed
qed (simp add: next_by_def)

lemma put_session_quiet:
  "get_session sa t = Some s \<Longrightarrow> sess_id s' = sess_id s \<Longrightarrow> quiet (b, t) (b, put_session sa s' t)"
  by (simp add: quiet_def sess_ids_def map_put_same)

lemma pump_in_inv:
  assumes inv: "udp_inv (b, t)" and nx: "unat (t_next_flow_id t) + length msgs < 2 ^ 64"
  shows "udp_inv (pump_in cr now sa hs msgs (b, t))"
proof (cases "get_session sa t")
  case None
  then show ?thesis using inv by (simp add: pump_in_def)
next
  case (Some s)
  let ?t = "put_session sa (s\<lparr>s_handshake_done := True\<rparr>) t"
  have q: "quiet (b, t) (b, ?t)" by (rule put_session_quiet [OF Some]) (simp add: sess_id_def)
  have "udp_inv (drain_ssl cr now sa msgs (b, t))" "udp_inv (drain_ssl cr now sa msgs (b, ?t))"
    using drain_ssl_inv [of "(b, t)" msgs] drain_ssl_inv [of "(b, ?t)" msgs] inv nx udp_inv_quiet [OF inv q] by auto
  then show ?thesis
    using Some inv udp_inv_quiet [OF _ pump_out_quiet] by (auto simp: pump_in_def split: accept_ans.split)
qed

lemma on_udp_packet_inv:
  assumes inv: "udp_inv (b, t)" and nx: "unat (t_next_flow_id t) + length (de_msgs env) + 1 < 2 ^ 64"
    and ad: "inet ad"
  shows "udp_inv (on_udp_packet cr env now ad data (b, t))"
proof -
  let ?found = "List.find (\<lambda>(_, s). tm_addr_eq (Some (s_peer s)) (Some ad)) (t_udp_sessions t)"
  have seen: "udp_inv (case get_session sa t' of None \<Rightarrow> (b', t')
      | Some s \<Rightarrow> pump_in cr now sa (de_accept env) (de_msgs env)
          (b', put_session sa (s\<lparr>s_last_rx_ms := now, s_pkts_rx := s_pkts_rx s + 1\<rparr>) t'))"
    if i: "udp_inv (b', t')" and n: "unat (t_next_flow_id t') \<le> unat (t_next_flow_id t)" for sa b' t'
  proof (cases "get_session sa t'")
    case (Some s)
    have "quiet (b', t') (b', put_session sa (s\<lparr>s_last_rx_ms := now, s_pkts_rx := s_pkts_rx s + 1\<rparr>) t')"
      by (rule put_session_quiet [OF Some]) (simp add: sess_id_def)
    then show ?thesis
      using pump_in_inv [of b'] udp_inv_quiet [OF i] nx n Some by simp
  qed (use i in simp)
  obtain lim b1 t1 where lim: "creation_limit now (b, t) = (lim, b1, t1)" by (cases "creation_limit now (b, t)")
  have q: "quiet (b, t) (b1, t1)" by (rule limits_quiet(2) [OF lim])
  have i1: "udp_inv (b1, t1)" by (rule udp_inv_quiet [OF inv q])
  obtain sa2 b2 t2 where cr2: "session_create (de_sw env) (de_bio env) now ad (b1, t1) = (sa2, b2, t2)"
    by (metis prod.collapse)
  note i2 = session_create_inv [OF i1 cr2]
  have n2: "unat (t_next_flow_id t2) \<le> unat (t_next_flow_id t)"
    using i2(2) q by (simp add: next_by_def quiet_def)
  have drop: "udp_inv (b1\<lparr>b_udp_dropped_rate_limit := n\<rparr>, t1)" "udp_inv (b\<lparr>b_udp_dropped_oversize := n\<rparr>, t)" for n
    using udp_inv_quiet [OF i1] udp_inv_quiet [OF inv] by auto
  have client: "udp_inv (open_client_datagram now ad data (b, t))"
    using open_client_inv [OF inv _ ad] nx by simp
  show ?thesis
  proof (cases "b_shutting_down b \<or> \<not> t_enabled t \<or> \<not> t_closed t \<and> \<not> looks_like_dtls data")
    case True
    then show ?thesis using inv client drop by (auto simp: on_udp_packet_def)
  next
    case dtls: False
    show ?thesis
    proof (cases ?found)
      case None
      then show ?thesis
        using dtls lim cr2 drop i1 seen [OF i2(1) n2] by (auto simp: on_udp_packet_def)
    next
      case (Some p)
      then show ?thesis
        using dtls seen [OF inv order_refl] by (cases p) (auto simp: on_udp_packet_def)
    qed
  qed
qed

lemma send_done_inv: "udp_inv bt \<Longrightarrow> udp_inv (send_done so bt)"
proof -
  assume inv: "udp_inv bt"
  obtain b t where bt: "bt = (b, t)" by (cases bt)
  have raw: "quiet (b, t) (b, raw_done t)" by (simp add: quiet_def raw_done_def sess_ids_def)
  have "quiet (b, t) (pump_out sa (b, put_session sa (s\<lparr>s_inflight := False\<rparr>) (raw_done t)))"
    if "get_session sa (raw_done t) = Some s" for sa s
    by (rule quiet_trans [OF quiet_trans [OF raw put_session_quiet [OF that]] pump_out_quiet])
      (simp add: sess_id_def)
  moreover have "quiet (b, t) (session_maybe_free sa (b\<lparr>b_zombies := z\<rparr>), raw_done t)" for sa z
    using raw by (auto simp: quiet_def session_maybe_free_def split: option.split)
  ultimately show ?thesis
    using inv raw by (auto simp: bt send_done_def Let_def intro: udp_inv_quiet split: option.split)
qed

lemma udp_stop_inv: "udp_inv bt \<Longrightarrow> udp_inv (tm_udp_stop bt)"
proof -
  assume inv: "udp_inv bt"
  obtain b t where bt: "bt = (b, t)" by (cases bt)
  let ?t = "if t_udp_open t then t\<lparr>t_close_refs := t_close_refs t + 1, t_handle := HClosing, t_udp_open := False\<rparr> else t"
  have "quiet (b, t) (b, ?t)" by (simp add: quiet_def sess_ids_def)
  then have i0: "udp_inv (b, ?t)" using inv bt by (auto intro: udp_inv_quiet)
  have close: "udp_inv (close_sessions sas bt)" if "udp_inv bt" for sas bt
    using that by (induction sas bt rule: close_sessions.induct) (simp_all add: session_close_inv)
  have expire: "udp_inv (expire_flows fas bt)" if "udp_inv bt" for fas bt
    using that by (induction fas bt rule: expire_flows.induct) (simp_all add: flow_expire_inv)
  obtain b1 t1 where c1: "close_sessions (map fst (t_udp_sessions ?t)) (b, ?t) = (b1, t1)"
    by (metis prod.collapse)
  obtain b2 t2 where c2: "expire_flows (map fst (t_udp_flows t1)) (b1, t1) = (b2, t2)" by (metis prod.collapse)
  have "udp_inv (b2, t2)" using expire [OF close [OF i0], of "map fst (t_udp_flows t1)"] c1 c2 by metis
  then have "udp_inv (b2, t2\<lparr>t_agent_session := None\<rparr>)" by (simp add: udp_inv_def Let_def sess_ids_def)
  then show ?thesis using c1 c2 by (simp add: bt tm_udp_stop_def Let_def)
qed

section \<open>Every state of a UDP tunnel\<close>

text \<open>
  The events of a UDP tunnel from its creation on. Datagrams come from IP addresses, and the 64-bit
  counter of flow ids does not run out.
\<close>

inductive udp_reach :: "crypto \<Rightarrow> ut \<Rightarrow> bool" for cr where
  created: "t_udp_sessions t = [] \<Longrightarrow> t_udp_flows t = [] \<Longrightarrow> t_agent_session t = None \<Longrightarrow>
    t_next_flow_id t = 1 \<Longrightarrow> udp_reach cr (b, t)"
| packet: "udp_reach cr (b, t) \<Longrightarrow> inet ad \<Longrightarrow>
    unat (t_next_flow_id t) + length (de_msgs env) + 1 < 2 ^ 64 \<Longrightarrow>
    udp_reach cr (on_udp_packet cr env now ad data (b, t))"
| sent: "udp_reach cr bt \<Longrightarrow> udp_reach cr (send_done so bt)"
| timer: "udp_reach cr bt \<Longrightarrow> udp_reach cr (session_timer_cb now sa bt)"
| freed: "udp_reach cr (b, t) \<Longrightarrow> udp_reach cr (session_timer_closed sa b, t)"
| idle: "udp_reach cr bt \<Longrightarrow> udp_reach cr (tm_udp_flow_expire fa bt)"
| stopped: "udp_reach cr bt \<Longrightarrow> udp_reach cr (tm_udp_stop bt)"

lemma udp_reach_inv: "udp_reach cr bt \<Longrightarrow> udp_inv bt"
proof (induction rule: udp_reach.induct)
  case (created t b)
  then show ?case by (simp add: udp_inv_def sess_ids_def Let_def)
next
  case (packet b t ad env now data)
  then show ?case by (blast intro: on_udp_packet_inv)
next
  case (timer bt now sa)
  obtain b t where bt: "bt = (b, t)" by (cases bt)
  show ?case
    using timer.IH session_close_inv udp_inv_quiet [OF _ pump_out_quiet]
    by (auto simp: bt session_timer_cb_def split: option.split)
next
  case (freed b t sa)
  then show ?case
    by (auto simp: session_timer_closed_def session_maybe_free_def quiet_def intro: udp_inv_quiet split: option.split)
qed (auto intro: send_done_inv flow_expire_inv udp_stop_inv)

lemma find_self:
  assumes "distinct (map (\<lambda>(_, f). g f) xs)" "(k, x) \<in> set xs"
    and "\<And>k' y. (k', y) \<in> set xs \<Longrightarrow> P y \<longleftrightarrow> g y = g x"
  shows "List.find (\<lambda>(_, y). P y) xs = Some (k, x)"
proof -
  have "List.find (\<lambda>(_, y). P y) xs = List.find (\<lambda>p. (\<lambda>(_, f). g f) p = (\<lambda>(_, f). g f) (k, x)) xs"
    using assms(3) by (intro find_cong) auto
  also have "\<dots> = Some (k, x)" by (rule find_map_unique [OF assms(1,2)])
  finally show ?thesis .
qed

text \<open>What the invariant says of one entry of the tables.\<close>

lemma udp_inv_session:
  assumes "udp_inv (b, t)" "(sa, i) \<in> set (sess_ids t)"
  shows "\<exists>s. get_session sa t = Some s \<and> sess_id s = i \<and> \<not> s_closing s"
proof -
  have "distinct (map fst (t_udp_sessions t))" using assms(1) by (simp add: udp_inv_def objs_ok_def Let_def)
  moreover have "\<not> fst i" using assms by (auto simp: udp_inv_def Let_def)
  ultimately show ?thesis using assms(2) by (auto simp: sess_ids_def sess_id_def map_of_eq_Some_iff)
qed

lemma udp_inv_flow_ok:
  "udp_inv (b, t) \<Longrightarrow> (k, g) \<in> set (t_udp_flows t) \<Longrightarrow> flow_ok (fst ` set (sess_ids t)) (t_next_flow_id t) g"
  by (auto simp: udp_inv_def Let_def)

lemma udp_inv_flow_id:
  assumes "udp_inv (b, t)" "(fa, f) \<in> set (t_udp_flows t)"
  shows "flow_find t (fl_flow_id f) = Some (fa, f)"
  unfolding flow_find_def
  by (rule find_self [where g = fl_flow_id]) (use assms in \<open>auto simp: udp_inv_def Let_def\<close>)

lemma udp_inv_flow_src:
  assumes inv: "udp_inv (b, t)" and f: "(fa, f) \<in> set (t_udp_flows t)" "\<not> fl_from_peer_session f"
  shows "flow_find_src t (fl_src f) = Some (fa, f)"
  unfolding flow_find_src_def
proof (rule find_self [where g = flow_key, OF _ f(1)])
  fix k g assume "(k, g) \<in> set (t_udp_flows t)"
  then show "(\<not> fl_from_peer_session g \<and> tm_addr_eq (Some (fl_src g)) (Some (fl_src f))) = (flow_key g = flow_key f)"
    using udp_inv_flow_ok [OF inv f(1)] udp_inv_flow_ok [OF inv, of k g] f(2)
    by (auto simp: flow_key_def flow_ok_def tm_addr_eq_inet split: if_splits)
qed (use inv in \<open>simp add: udp_inv_def Let_def\<close>)

lemma udp_inv_flow_peer:
  assumes inv: "udp_inv (b, t)" and f: "(fa, f) \<in> set (t_udp_flows t)" "fl_from_peer_session f"
  shows "\<exists>sa s. fl_peer_session f = Some sa \<and> get_session sa t = Some s \<and> \<not> s_closing s \<and>
    flow_find_peer t sa (fl_src_flow_id f) = Some (fa, f)"
proof -
  obtain sa i where sa: "fl_peer_session f = Some sa" "(sa, i) \<in> set (sess_ids t)"
    using udp_inv_flow_ok [OF inv f(1)] f(2) by (auto simp: flow_ok_def)
  have "flow_find_peer t sa (fl_src_flow_id f) = Some (fa, f)"
    unfolding flow_find_peer_def
  proof (rule find_self [where g = flow_key, OF _ f(1)])
    fix k g assume "(k, g) \<in> set (t_udp_flows t)"
    then show "(fl_from_peer_session g \<and> fl_peer_session g = Some sa \<and> fl_src_flow_id g = fl_src_flow_id f) =
        (flow_key g = flow_key f)"
      using udp_inv_flow_ok [OF inv f(1)] udp_inv_flow_ok [OF inv, of k g] f(2) sa(1)
      by (auto simp: flow_key_def flow_ok_def split: if_splits)
  qed (use inv in \<open>simp add: udp_inv_def Let_def\<close>)
  then show ?thesis using sa(1) udp_inv_session [OF inv sa(2)] by blast
qed

lemma udp_inv_agent:
  assumes "udp_inv (b, t)" "t_agent_session t = Some sa"
  shows "\<exists>s. get_session sa t = Some s \<and> s_authenticated s \<and> s_is_agent s \<and> \<not> s_closing s"
proof -
  obtain p where "(sa, False, True, True, p) \<in> set (sess_ids t)"
    using assms by (auto simp: udp_inv_def Let_def)
  from udp_inv_session [OF assms(1) this] show ?thesis by (auto simp: sess_id_def)
qed


text \<open>
  (C11) Replies reach the client they belong to, and nobody else: in every reachable state, an envelope
  from the agent for the flow of client \<open>ad\<close> makes the socket send at most one datagram more, the
  verbatim payload, to \<open>ad\<close>; and when the payload is within the size limit, a send slot is free and
  libuv accepts, it is sent.
\<close>
theorem udp_reply_to_client:
  assumes "udp_reach cr (b, t)" "flow_find_src t ad = Some (fa, f)" "inet ad"
    and "agent_session_env now (fl_flow_id f) reply (b, t) = (b', t')"
  shows "(t_out t' = t_out t \<or> t_out t' = t_out t @ [OutPlain ad reply]) \<and>
    (length reply \<le> u32_of (cfg_udp_max_datagram_size (b_cfg b)) \<longrightarrow>
     t_udp_raw_inflight t < size_of (cfg_udp_queue_packets (b_cfg b)) \<longrightarrow> t_uv t = [] \<longrightarrow>
     t_out t' = t_out t @ [OutPlain ad reply])"
proof -
  have inv: "udp_inv (b, t)" by (rule udp_reach_inv [OF assms(1)])
  have f: "(fa, f) \<in> set (t_udp_flows t)" "\<not> fl_from_peer_session f" "fl_src f = ad"
    using assms(2,3) find_snd [of _ "t_udp_flows t" fa f] by (auto simp: flow_find_src_def tm_addr_eq_inet)
  have "fl_flow_id f \<noteq> 0" using udp_inv_flow_ok [OF inv f(1)] by (simp add: flow_ok_def)
  then have "agent_session_env now (fl_flow_id f) reply (b, t) =
      forward_to_peer f reply (flow_seen now fa f (length reply) (b, t))"
    using udp_inv_flow_id [OF inv f(1)] by (simp add: agent_session_env_def)
  then show ?thesis
    using assms(4) f(2,3)
    by (auto simp: forward_to_peer_def flow_seen_def udp_send_raw_def Let_def split: if_splits)
qed

section \<open>A run\<close>

text \<open>A client's first datagram on an open tunnel without an agent.\<close>

definition demo_crypto :: crypto where
  "demo_crypto = \<lparr>hmac_sha256 = (\<lambda>k m. k @ m), sha256 = (\<lambda>m. m)\<rparr>"

definition demo_udp_broker :: tm_broker where
  "demo_udp_broker = broker_new (cfg_load []) []"

definition demo_udp_tunnel :: tm_tunnel where
  "demo_udp_tunnel = tunnel_zero\<lparr>t_proto := TM_PROTO_UDP, t_enabled := True, t_next_flow_id := 1\<rparr>"

definition demo_client :: sockaddr where
  "demo_client = SaInet 0x0A000001 4000"

definition demo_env :: dtls_env where
  "demo_env = \<lparr>de_create = True, de_sw = [], de_bio = [], de_accept = HsWant, de_msgs = []\<rparr>"

definition demo_udp :: ut where
  "demo_udp = on_udp_packet demo_crypto demo_env 5000 demo_client [1, 2] (demo_udp_broker, demo_udp_tunnel)"

lemma demo_udp_flow:
  "\<exists>f. t_udp_flows (snd demo_udp) = [(0, f)] \<and> fl_src f = demo_client \<and> \<not> fl_from_peer_session f"
  by (simp add: demo_udp_def on_udp_packet_def demo_udp_broker_def demo_udp_tunnel_def broker_new_def
      tunnel_zero_def looks_like_dtls_def cfg_load_def TM_DEFAULT_DATAGRAM_def size_of_def open_client_datagram_def
      tunnel_pkt_limit_def rate_check_def flow_deliver_def flow_find_src_def creation_limit_def flow_count_def
      flow_new_def flow_seen_def forward_to_agent_def Let_def)

lemma demo_udp_reach: "udp_reach demo_crypto demo_udp"
  unfolding demo_udp_def
  by (rule udp_reach.packet [OF udp_reach.created])
    (simp_all add: demo_udp_tunnel_def tunnel_zero_def demo_client_def inet_def demo_env_def)


theorem udp_reply_to_client_witness:
  "\<exists>f. t_udp_flows (snd demo_udp) = [(0, f)] \<and>
     (let out = t_out (snd (agent_session_env 5001 (fl_flow_id f) [9] demo_udp))
      in out = t_out (snd demo_udp) \<or> out = t_out (snd demo_udp) @ [OutPlain demo_client [9]])"
proof -
  obtain f where f: "t_udp_flows (snd demo_udp) = [(0, f)]" "fl_src f = demo_client" "\<not> fl_from_peer_session f"
    using demo_udp_flow by blast
  have r: "udp_reach demo_crypto (fst demo_udp, snd demo_udp)" using demo_udp_reach by simp
  have i: "inet demo_client" by (simp add: demo_client_def inet_def)
  have s: "flow_find_src (snd demo_udp) demo_client = Some (0, f)"
    using f tm_addr_eq_inet [OF i] by (simp add: flow_find_src_def)
  obtain b' t' where e: "agent_session_env 5001 (fl_flow_id f) [9] (fst demo_udp, snd demo_udp) = (b', t')" by fastforce
  then have e': "agent_session_env 5001 (fl_flow_id f) [9] demo_udp = (b', t')" by simp
  from udp_reply_to_client [OF r s i e] show ?thesis using f e' by (intro exI [of _ f]) (simp add: Let_def)
qed

definition demo_session :: tm_udp_session where
  "demo_session = snd (hd (t_udp_sessions (snd (snd (session_create [DwWhole] [True] 7 demo_client
     (demo_udp_broker, demo_udp_tunnel))))))"

theorem session_queue_fifo_witness:
  "\<exists>s' envs'. get_session 0 (snd (session_queue 0 [1, 2, 3]
      (demo_udp_broker, demo_udp_tunnel\<lparr>t_udp_sessions := [(0, demo_session)]\<rparr>))) = Some s' \<and>
    queue_ok s' envs' \<and> s_plain s' @ envs' = [[1, 2, 3]]"
proof -
  let ?t = "demo_udp_tunnel\<lparr>t_udp_sessions := [(0, demo_session)]\<rparr>"
  have q: "get_session 0 ?t = Some demo_session" "\<not> s_closing demo_session" "queue_ok demo_session []"
      "whole_writes demo_session" "s_plain demo_session = []"
      "s_outq_cap demo_session \<le> max 4096 (2 * queue_limit (b_cfg demo_udp_broker))"
    by (simp_all add: demo_session_def session_create_def queue_ok_def whole_writes_def)
  have a: "queue_admits (b_cfg demo_udp_broker) (Suc (Suc (Suc 0))) demo_session"
    by (simp add: queue_admits_def demo_udp_broker_def broker_new_def cfg_load_def queue_limit_def size_of_def
        TM_DEFAULT_DATAGRAM_def demo_session_def session_create_def)
  obtain b' t' where e: "session_queue 0 [1, 2, 3] (demo_udp_broker, ?t) = (b', t')" by fastforce
  from session_queue_fifo [OF q(1-4,6) e] show ?thesis using e a q(5) by auto
qed

end
