(* ===== verification/UdpAuth.thy ===== *)
theory UdpAuth
  imports UdpInv
begin

text \<open>
  What an unauthenticated sender can do to a UDP tunnel, and what a refused send does to a session.
\<close>

section \<open>Without the credential\<close>

definition carries_credential :: "crypto \<Rightarrow> tm_broker \<Rightarrow> tm_tunnel \<Rightarrow> bytes \<Rightarrow> bool" where
  "carries_credential cr b t m \<longleftrightarrow>
     (case tm_env_decode m of
        None \<Rightarrow> False
      | Some (_, flags, payload) \<Rightarrow>
          flags AND TM_ENV_FLAG_AUTH_REQ \<noteq> 0 \<and>
          (tm_ct_eq_hex (credential cr b payload) (t_agent_secret_hmac t) \<or>
           t_closed t \<and> t_shared_token_hmac t \<noteq> [] \<and>
           tm_ct_eq_hex (credential cr b payload) (t_shared_token_hmac t)))"

text \<open>A step on behalf of session \<open>sa\<close> that touches its own output queue only.\<close>

definition own_only :: "addr \<Rightarrow> ut \<Rightarrow> ut \<Rightarrow> bool" where
  "own_only sa bt bt' \<longleftrightarrow> quiet bt bt' \<and>
     (\<forall>k. k \<noteq> sa \<longrightarrow> get_session k (snd bt') = get_session k (snd bt)) \<and>
     (\<exists>os. t_out (snd bt') = t_out (snd bt) @ os \<and> set os \<subseteq> {OutRecord sa})"

lemma own_only_refl [simp]: "own_only sa bt bt"
  by (simp add: own_only_def)

lemma own_only_trans: "own_only sa x y \<Longrightarrow> own_only sa y z \<Longrightarrow> own_only sa x z"
proof -
  assume a: "own_only sa x y" "own_only sa y z"
  then obtain os os' where "t_out (snd y) = t_out (snd x) @ os" "t_out (snd z) = t_out (snd y) @ os'"
      "set os \<subseteq> {OutRecord sa}" "set os' \<subseteq> {OutRecord sa}" by (auto simp: own_only_def)
  then have "\<exists>os. t_out (snd z) = t_out (snd x) @ os \<and> set os \<subseteq> {OutRecord sa}"
    by (intro exI [of _ "os @ os'"]) auto
  then show ?thesis using a quiet_trans by (simp add: own_only_def) blast
qed

lemma own_only_put_session:
  "get_session sa t = Some s \<Longrightarrow> sess_id s' = sess_id s \<Longrightarrow> own_only sa (b, t) (b, put_session sa s' t)"
  using put_session_quiet [of t sa s s' b] by (auto simp: own_only_def map_of_put)

lemma own_only_pump_out: "own_only sa bt (pump_out sa bt)"
proof -
  obtain b t where bt: "bt = (b, t)" by (cases bt)
  have "t_out (snd (pump_out sa (b, t))) = t_out t \<or> t_out (snd (pump_out sa (b, t))) = t_out t @ [OutRecord sa]"
    by (auto simp: pump_out_def pump_emit_def udp_send_raw_def Let_def split: option.split prod.split if_splits)
  moreover have "get_session k (snd (pump_out sa (b, t))) = get_session k t" if "k \<noteq> sa" for k
    using that by (auto simp: pump_out_def pump_emit_def udp_send_raw_def map_of_put Let_def
        split: option.split prod.split if_splits)
  ultimately show ?thesis using pump_out_quiet [of bt sa] by (auto simp: own_only_def bt)
qed

lemma own_only_session_queue: "own_only sa bt (session_queue sa data bt)"
proof -
  obtain b t where bt: "bt = (b, t)" by (cases bt)
  have app: "own_only sa (b, t) (pump_out sa (b, put_session sa (queue_append data s) t))"
    if "get_session sa t = Some s" for s
    by (rule own_only_trans [OF own_only_put_session own_only_pump_out]) (use that in simp_all)
  show ?thesis
    using app by (auto simp: bt session_queue_def own_only_def split: option.split)
qed

lemma failed_auth_own: "own_only sa bt (failed_auth bt)"
  using failed_auth_quiet [of bt] by (auto simp: own_only_def split: prod.split)

lemma session_appdata_refused:
  assumes "\<forall>s. get_session sa (snd bt) = Some s \<longrightarrow> \<not> s_authenticated s"
      "\<not> carries_credential cr (fst bt) (snd bt) m"
  shows "own_only sa bt (session_appdata cr now sa m bt)"
proof (cases "get_session sa (snd bt)")
  case None
  then show ?thesis by (simp add: session_appdata.simps)
next
  case (Some s)
  then have s: "\<not> s_authenticated s" using assms(1) by simp
  note eqn = session_appdata.simps [of cr now sa m bt, unfolded Some option.case, simplified s if_True not_False_eq_True]
  consider (short) "length m < TM_ENV_HDR_LEN \<or> m ! 0 \<noteq> 0" | (bad) "tm_env_decode m = None"
    | (env) fid flags payload where "\<not> (length m < TM_ENV_HDR_LEN \<or> m ! 0 \<noteq> 0)"
        "tm_env_decode m = Some (fid, flags, payload)"
    by (cases "tm_env_decode m") auto
  then show ?thesis
  proof cases
    case short
    then have "session_appdata cr now sa m bt = failed_auth bt" by (subst eqn) (simp only: if_True)
    then show ?thesis using failed_auth_own by simp
  next
    case bad
    then have "session_appdata cr now sa m bt = failed_auth bt" by (subst eqn) (simp only: option.case if_cancel)
    then show ?thesis using failed_auth_own by simp
  next
    case env
    let ?hex = "credential cr (fst bt) payload"
    show ?thesis
    proof (cases "flags AND TM_ENV_FLAG_AUTH_REQ = 0 \<or> payload = [] \<or> TM_MAX_SECRET < length payload")
      case True
      then have "session_appdata cr now sa m bt = failed_auth bt"
        using env by (subst eqn) (simp only: option.case prod.case if_True if_False)
      then show ?thesis using failed_auth_own by simp
    next
      case False
      then have no: "tm_ct_eq_hex ?hex (t_agent_secret_hmac (snd bt)) = False"
          "(t_closed (snd bt) \<and> t_shared_token_hmac (snd bt) \<noteq> [] \<and>
            tm_ct_eq_hex ?hex (t_shared_token_hmac (snd bt))) = False"
        using env assms(2) by (auto simp: carries_credential_def)
      have "session_appdata cr now sa m bt = session_queue sa (tm_env_encode 0 TM_ENV_FLAG_AUTH_ERR []) (failed_auth bt)"
        using env False by (subst eqn) (simp only: option.case prod.case if_True if_False Let_def no simp_thms)
      then show ?thesis using own_only_trans [OF failed_auth_own own_only_session_queue] by simp
    qed
  qed
qed

lemma own_only_unauthenticated:
  assumes "own_only sa bt bt'" "\<forall>s. get_session sa (snd bt) = Some s \<longrightarrow> \<not> s_authenticated s"
  shows "\<forall>s. get_session sa (snd bt') = Some s \<longrightarrow> \<not> s_authenticated s"
proof (intro allI impI)
  fix s assume s: "get_session sa (snd bt') = Some s"
  have "map_of (sess_ids (snd bt')) sa = map_of (sess_ids (snd bt)) sa"
    using assms(1) by (simp add: own_only_def quiet_def)
  then have "map_option sess_id (get_session sa (snd bt')) = map_option sess_id (get_session sa (snd bt))"
    by (simp add: sess_ids_def map_of_map)
  then show "\<not> s_authenticated s"
    using s assms(2) by (cases "get_session sa (snd bt)") (auto simp: sess_id_def)
qed

lemma carries_credential_cong:
  "b_hmac_key b' = b_hmac_key b \<Longrightarrow> t_closed t' = t_closed t \<Longrightarrow> t_agent_secret_hmac t' = t_agent_secret_hmac t \<Longrightarrow>
   t_shared_token_hmac t' = t_shared_token_hmac t \<Longrightarrow> carries_credential cr b' t' m = carries_credential cr b t m"
  by (simp add: carries_credential_def credential_def split: option.split)

lemma own_only_credential:
  "own_only sa bt bt' \<Longrightarrow> carries_credential cr (fst bt') (snd bt') m = carries_credential cr (fst bt) (snd bt) m"
  by (rule carries_credential_cong) (simp_all add: own_only_def quiet_def)

lemma drain_ssl_refused:
  assumes "\<forall>s. get_session sa (snd bt) = Some s \<longrightarrow> \<not> s_authenticated s"
      "\<forall>m \<in> set ms. \<not> carries_credential cr (fst bt) (snd bt) m"
  shows "own_only sa bt (drain_ssl cr now sa ms bt)"
  using assms
proof (induction ms arbitrary: bt)
  case (Cons m ms)
  let ?bt = "session_appdata cr now sa m bt"
  have 1: "own_only sa bt ?bt" using Cons.prems by (intro session_appdata_refused) simp_all
  have "own_only sa ?bt (drain_ssl cr now sa ms ?bt)"
    using Cons.IH [OF own_only_unauthenticated [OF 1 Cons.prems(1)]] Cons.prems(2) own_only_credential [OF 1] by simp
  then show ?case using own_only_trans [OF 1] by simp
qed simp

lemma pump_in_refused:
  assumes "\<forall>s. get_session sa t = Some s \<longrightarrow> \<not> s_authenticated s" "\<forall>m \<in> set ms. \<not> carries_credential cr b t m"
  shows "own_only sa (b, t) (pump_in cr now sa hs ms (b, t))"
proof (cases "get_session sa t")
  case None
  then show ?thesis by (simp add: pump_in_def)
next
  case (Some s)
  let ?t = "put_session sa (s\<lparr>s_handshake_done := True\<rparr>) t"
  have 1: "own_only sa (b, t) (b, ?t)" by (rule own_only_put_session [OF Some]) (simp add: sess_id_def)
  have pumped: "own_only sa bt (pump_out sa (drain_ssl cr now sa ms bt))"
    if "\<forall>s. get_session sa (snd bt) = Some s \<longrightarrow> \<not> s_authenticated s"
       "\<forall>m \<in> set ms. \<not> carries_credential cr (fst bt) (snd bt) m" for bt
    using own_only_trans [OF drain_ssl_refused [OF that] own_only_pump_out] .
  have "\<forall>s. get_session sa (snd (b, ?t)) = Some s \<longrightarrow> \<not> s_authenticated s"
    by (rule own_only_unauthenticated [OF 1]) (simp add: assms(1))
  moreover have "\<forall>m \<in> set ms. \<not> carries_credential cr (fst (b, ?t)) (snd (b, ?t)) m"
    unfolding own_only_credential [OF 1] using assms(2) by simp
  ultimately have "own_only sa (b, ?t) (pump_out sa (drain_ssl cr now sa ms (b, ?t)))" by (rule pumped)
  note early = own_only_trans [OF 1 this]
  note late = pumped [of "(b, t)", unfolded fst_conv snd_conv, OF assms]
  show ?thesis
    using early late own_only_pump_out [of sa "(b, t)"] by (simp add: pump_in_def Some split: accept_ans.split)
qed

text \<open>What the sender of a packet can change without the credential: its own session, which it may create.\<close>

definition only_session :: "addr \<Rightarrow> ut \<Rightarrow> ut \<Rightarrow> bool" where
  "only_session sa bt bt' \<longleftrightarrow>
     t_udp_flows (snd bt') = t_udp_flows (snd bt) \<and> t_agent_session (snd bt') = t_agent_session (snd bt) \<and>
     (\<forall>k. k \<noteq> sa \<longrightarrow> get_session k (snd bt') = get_session k (snd bt)) \<and>
     (\<forall>s. get_session sa (snd bt') = Some s \<longrightarrow> \<not> s_authenticated s) \<and>
     (\<exists>os. t_out (snd bt') = t_out (snd bt) @ os \<and> set os \<subseteq> {OutRecord sa})"

lemma own_only_session:
  assumes "own_only sa bt bt'" "\<forall>s. get_session sa (snd bt) = Some s \<longrightarrow> \<not> s_authenticated s"
  shows "only_session sa bt bt'"
  using assms own_only_unauthenticated [OF assms] by (simp add: only_session_def own_only_def quiet_def)

lemma creation_limit_same:
  assumes "creation_limit now (b, t) = (ok, b1, t1)"
  shows "b1 = b" "t_udp_sessions t1 = t_udp_sessions t" "t_udp_flows t1 = t_udp_flows t"
      "t_agent_session t1 = t_agent_session t" "t_out t1 = t_out t" "t_closed t1 = t_closed t"
      "t_agent_secret_hmac t1 = t_agent_secret_hmac t" "t_shared_token_hmac t1 = t_shared_token_hmac t"
  using assms by (auto simp: creation_limit_def split: prod.splits)

text \<open>The part of \<open>on_udp_packet\<close> after the session is known.\<close>

lemma received_refused:
  assumes "\<forall>s. get_session sa t = Some s \<longrightarrow> \<not> s_authenticated s" "\<forall>m \<in> set ms. \<not> carries_credential cr b t m"
      "get_session sa t = Some s"
  shows "own_only sa (b, t) (pump_in cr now sa hs ms
    (b, put_session sa (s\<lparr>s_last_rx_ms := now, s_pkts_rx := s_pkts_rx s + 1\<rparr>) t))"
proof -
  let ?t = "put_session sa (s\<lparr>s_last_rx_ms := now, s_pkts_rx := s_pkts_rx s + 1\<rparr>) t"
  have 1: "own_only sa (b, t) (b, ?t)" by (rule own_only_put_session [OF assms(3)]) (simp add: sess_id_def)
  have "\<forall>s. get_session sa (snd (b, ?t)) = Some s \<longrightarrow> \<not> s_authenticated s"
    by (rule own_only_unauthenticated [OF 1]) (simp add: assms(1))
  moreover have "\<forall>m \<in> set ms. \<not> carries_credential cr (fst (b, ?t)) (snd (b, ?t)) m"
    unfolding own_only_credential [OF 1] using assms(2) by simp
  ultimately have "own_only sa (b, ?t) (pump_in cr now sa hs ms (b, ?t))"
    unfolding fst_conv snd_conv by (rule pump_in_refused)
  then show ?thesis by (rule own_only_trans [OF 1])
qed

lemma found_refused:
  assumes "b_shutting_down b = False" "t_enabled t" "t_closed t \<or> looks_like_dtls data"
      "List.find (\<lambda>(_, s). tm_addr_eq (Some (s_peer s)) (Some ad)) (t_udp_sessions t) = Some (sa, s0)"
      "distinct (map fst (t_udp_sessions t))" "\<not> s_authenticated s0"
      "\<forall>m \<in> set (de_msgs env). \<not> carries_credential cr b t m"
  shows "only_session sa (b, t) (on_udp_packet cr env now ad data (b, t))"
proof -
  have nd: "(\<not> t_closed t \<and> \<not> looks_like_dtls data) = False" using assms(3) by blast
  have "(sa, s0) \<in> set (t_udp_sessions t)" using assms(4) find_Some_in by fastforce
  then have s: "get_session sa t = Some s0" using assms(5) by simp
  have "on_udp_packet cr env now ad data (b, t) = pump_in cr now sa (de_accept env) (de_msgs env)
      (b, put_session sa (s0\<lparr>s_last_rx_ms := now, s_pkts_rx := s_pkts_rx s0 + 1\<rparr>) t)"
    using assms(1,2) unfolding on_udp_packet_def by (simp add: nd assms(4) s)
  then show ?thesis
    using received_refused [OF _ assms(7) s, of now "de_accept env"] s assms(6)
    by (intro own_only_session) simp_all
qed

lemma created_refused:
  assumes "b_shutting_down b = False" "t_enabled t" "t_closed t \<or> looks_like_dtls data"
      "List.find (\<lambda>(_, s). tm_addr_eq (Some (s_peer s)) (Some ad)) (t_udp_sessions t) = None"
      "b_heap b \<notin> fst ` set (t_udp_sessions t)" "\<forall>m \<in> set (de_msgs env). \<not> carries_credential cr b t m"
  shows "only_session (b_heap b) (b, t) (on_udp_packet cr env now ad data (b, t))"
proof -
  have nd: "(\<not> t_closed t \<and> \<not> looks_like_dtls data) = False" using assms(3) by blast
  obtain ok ws wc where "rate_check (cfg_udp_flow_creation_rate (b_cfg b)) now
      (t_udp_flow_created_win_start t, t_udp_flow_created_win_count t) = (ok, ws, wc)"
    by (rule prod_cases3)
  then obtain t1 where c: "creation_limit now (b, t) = (ok, b, t1)" by (simp add: creation_limit_def)
  note same = creation_limit_same [OF c]
  have fresh: "get_session (b_heap b) t = None" using assms(5) by (simp add: map_of_eq_None_iff)
  obtain b2 t2 where cr: "session_create (de_sw env) (de_bio env) now ad (b, t1) = (b_heap b, b2, t2)"
    by (simp add: session_create_def Let_def)
  then obtain s where s: "get_session (b_heap b) t2 = Some s" "\<not> s_authenticated s"
    by (auto simp: session_create_def Let_def)
  have t2: "t_udp_sessions t2 = (b_heap b, s) # t_udp_sessions t" "t_udp_flows t2 = t_udp_flows t"
      "t_agent_session t2 = t_agent_session t" "t_out t2 = t_out t"
    using cr s same by (auto simp: session_create_def Let_def)
  have cred: "carries_credential cr b2 t2 m = carries_credential cr b t m" for m
    by (rule carries_credential_cong) (use cr same in \<open>auto simp: session_create_def Let_def\<close>)
  let ?bt = "pump_in cr now (b_heap b) (de_accept env) (de_msgs env)
      (b2, put_session (b_heap b) (s\<lparr>s_last_rx_ms := now, s_pkts_rx := s_pkts_rx s + 1\<rparr>) t2)"
  have "on_udp_packet cr env now ad data (b, t) =
      (if \<not> ok then drop_rate_limit (b, t1) else if \<not> de_create env then (b, t1) else ?bt)"
    using assms(1,2) unfolding on_udp_packet_def by (simp add: nd assms(4) c cr s(1))
  moreover have "only_session (b_heap b) (b2, t2) ?bt"
    using received_refused [OF _ _ s(1), of "de_msgs env" cr b2 now "de_accept env"] s assms(6) cred
    by (intro own_only_session) simp_all
  then have "only_session (b_heap b) (b, t) ?bt" using t2 by (simp add: only_session_def)
  moreover have "only_session (b_heap b) (b, t) (b, t1)" "only_session (b_heap b) (b, t) (drop_rate_limit (b, t1))"
    using same fresh by (simp_all add: only_session_def)
  ultimately show ?thesis by simp
qed

lemma udp_reach_sessions:
  assumes "udp_reach cr (b, t)"
  shows "distinct (map fst (t_udp_sessions t))" "b_heap b \<notin> fst ` set (t_udp_sessions t)"
proof -
  have "objs_ok (b_heap b) (sess_ids t)" using udp_reach_inv [OF assms] by (simp add: udp_inv_def Let_def)
  then show "distinct (map fst (t_udp_sessions t))" "b_heap b \<notin> fst ` set (t_udp_sessions t)"
    by (auto simp: objs_ok_def fst_set_sess_ids)
qed



section \<open>A refused send\<close>

text \<open>
  (C37) A refused send wedges its session: when the tunnel's socket has no slot for the record that
  \<open>pump_out\<close> just took from OpenSSL, the record is lost but the session is marked as having a send
  in flight although no completion is due. From then on queueing sends nothing, whatever is queued.
\<close>

theorem refused_send_wedges:
  assumes "get_session sa t = Some s" "\<not> s_closing s" "\<not> s_inflight s" "s_outq s = []" "s_outq_off s = 0"
      "s_bio s = True # bio" "size_of (cfg_udp_queue_packets (b_cfg b)) \<le> t_udp_raw_inflight t"
      "pump_out sa (b, t) = (b1, t1)" "session_queue sa data (b1, t1) = (b2, t2)"
  shows "t_udp_raw_inflight t1 = t_udp_raw_inflight t \<and> t_out t1 = t_out t \<and> t_out t2 = t_out t1 \<and>
    (\<exists>s1 s2. get_session sa t1 = Some s1 \<and> s_inflight s1 \<and> get_session sa t2 = Some s2 \<and> s_inflight s2)"
proof -
  define s1 where "s1 = s\<lparr>s_bio := bio, s_inflight := True, s_pkts_tx := s_pkts_tx s + 1\<rparr>"
  have p: "pump_take s = (Some s, s)" "pump_wrap s = s"
    using assms(4,5) by (simp_all add: pump_take_def pump_wrap_def)
  have t1: "t1 = put_session sa s1 (t\<lparr>t_datagrams_tx := t_datagrams_tx t + 1\<rparr>)"
    using assms(1-3,6-8) p by (auto simp: pump_out_def pump_emit_def udp_send_raw_def s1_def)
  then have s1: "get_session sa t1 = Some s1" "\<not> s_closing s1" "s_inflight s1"
    using assms(1,2) by (simp_all add: s1_def)
  have "s_inflight (queue_append data s1)" "\<not> s_closing (queue_append data s1)"
    using s1(2,3) by (simp_all add: queue_append_def Let_def)
  then have "t2 = t1 \<or> t2 = put_session sa (queue_append data s1) t1"
    using assms(9) s1 by (auto simp: session_queue_def pump_out_def split: if_splits)
  then show ?thesis
    using s1 t1 \<open>s_inflight (queue_append data s1)\<close> by auto
qed

theorem refused_send_wedges_witness:
  "t_out (snd (session_queue 0 [5] (pump_out 0 (demo_udp_broker,
     demo_udp_tunnel\<lparr>t_udp_sessions := [(0, demo_session)], t_udp_raw_inflight := 1024\<rparr>)))) = []"
proof -
  let ?t = "demo_udp_tunnel\<lparr>t_udp_sessions := [(0, demo_session)], t_udp_raw_inflight := 1024\<rparr>"
  have s: "get_session 0 ?t = Some demo_session" "\<not> s_closing demo_session" "\<not> s_inflight demo_session"
      "s_outq demo_session = []" "s_outq_off demo_session = 0" "s_bio demo_session = True # []"
      "size_of (cfg_udp_queue_packets (b_cfg demo_udp_broker)) \<le> t_udp_raw_inflight ?t" "t_out ?t = []"
    by (simp_all add: demo_session_def session_create_def size_of_def demo_udp_broker_def broker_new_def cfg_load_def
        demo_udp_tunnel_def tunnel_zero_def)
  obtain b1 t1 where p: "pump_out 0 (demo_udp_broker, ?t) = (b1, t1)" by fastforce
  obtain b2 t2 where q: "session_queue 0 [5] (b1, t1) = (b2, t2)" by fastforce
  from refused_send_wedges [OF s(1-7) p q] show ?thesis using p q s(8) by simp
qed

end
