(* ===== verification/ControlInv.thy ===== *)
theory ControlInv
  imports Control RegistryInv UdpAuth
begin

text \<open>
  Properties of the control port: nothing passes it without a credential, a refused credential tells
  nothing about the tunnel, and the pending connections are a consistent table.
\<close>

section \<open>Without a credential\<close>

definition frame_credential :: "crypto \<Rightarrow> tm_broker \<Rightarrow> tm_frame \<Rightarrow> bool" where
  "frame_credential cr b f \<longleftrightarrow>
     (if f_type f = TM_MSG_REGISTER then
        (case cred_fields f of
           None \<Rightarrow> False
         | Some (tid, secret) \<Rightarrow>
             (case register_tunnel b (cstr tid) of
                None \<Rightarrow> False
              | Some (ta, t) \<Rightarrow> tm_ct_eq_hex (credential cr b secret) (t_agent_secret_hmac t)))
      else if f_type f = TM_MSG_AUTH then
        (case cred_fields f of
           None \<Rightarrow> False
         | Some (tid, token) \<Rightarrow>
             (case peer_tunnel b (cstr tid) of
                None \<Rightarrow> False
              | Some (ta, t) \<Rightarrow> tm_ct_eq_hex (credential cr b token) (t_shared_token_hmac t)))
      else if f_type f = TM_MSG_DATA_BIND then
        (case find_stream (b_tunnels b) (f_stream_id f) of
           None \<Rightarrow> False
         | Some (ta, sa) \<Rightarrow>
             (case get_tun b ta of
                None \<Rightarrow> False
              | Some t \<Rightarrow> tm_ct_eq_hex (credential cr b (take (unat (f_payload_len f)) (f_payload f)))
                          (t_agent_secret_hmac t)))
      else False)"

text \<open>What a connection without a credential leaves as it was.\<close>

definition outside :: "addr \<Rightarrow> cs \<Rightarrow> cs \<Rightarrow> bool" where
  "outside ca bc bc' \<longleftrightarrow>
     b_tunnels (fst bc') = b_tunnels (fst bc) \<and> b_detached (fst bc') = b_detached (fst bc) \<and>
     b_cfg (fst bc') = b_cfg (fst bc) \<and> b_hmac_key (fst bc') = b_hmac_key (fst bc) \<and>
     (\<forall>k. k \<noteq> ca \<longrightarrow> map_of (b_conns (fst bc')) k = map_of (b_conns (fst bc)) k) \<and>
     c_peer_authed (snd bc') = c_peer_authed (snd bc)"

lemma outside_refl [simp]: "outside ca bc bc"
  by (simp add: outside_def)

lemma outside_trans: "outside ca x y \<Longrightarrow> outside ca y z \<Longrightarrow> outside ca x z"
  by (simp add: outside_def)

lemma outside_counters [simp]:
  "outside ca (b, c) (protocol_error b, c)" "outside ca (b, c) (auth_failure b, c)"
  "outside ca (b, c) (b, c\<lparr>c_got_hello := h\<rparr>)" "outside ca (b, c) (b, c\<lparr>c_fr := fr\<rparr>)"
  "outside ca (b, c) (b, c\<lparr>c_io := io\<rparr>)" "outside ca (b, c) (b, c\<lparr>c_last_rx_ms := n\<rparr>)"
  by (simp_all add: outside_def)

lemma outside_close: "conn_close ca bc = Some bc' \<Longrightarrow> outside ca bc bc'"
  by (auto simp: conn_close_def conn_unlink_def outside_def map_of_unlink split: prod.splits if_splits)

lemma outside_send:
  assumes "send_frame_raw ca type sid msg bc = Some bc'"
  shows "outside ca bc bc'"
proof -
  obtain b c where bc: "bc = (b, c)" by (cases bc)
  show ?thesis
  proof (cases "c_io c = None \<or> encode_msg type sid msg = None")
    case True
    then show ?thesis using assms by (auto simp: bc send_frame_raw_def split: if_splits option.splits)
  next
    case False
    then obtain buf where buf: "encode_msg type sid msg = Some buf" and ne: "(c_io c = None) = False" by blast
    obtain r io ups where w: "tm_io_write (c_io c) buf = (r, io, ups)" by (rule prod_cases3)
    obtain b1 c1 where m: "(if up_error ups then conn_close ca (b, c\<lparr>c_io := io\<rparr>) else Some (b, c\<lparr>c_io := io\<rparr>)) = Some (b1, c1)"
        "bc' = (if r \<noteq> TM_OK then protocol_error b1 else b1, c1)"
      using assms unfolding bc send_frame_raw_def prod.case ne if_False buf option.case w
      by (auto split: Option.bind_splits)
    have "outside ca (b, c) (b1, c1)"
      using m(1) outside_trans [OF outside_counters(5) outside_close] by (auto split: if_splits)
    then show ?thesis using m(2) outside_trans [OF _ outside_counters(1)] by (auto simp: bc)
  qed
qed

lemma outside_refuse: "refuse ca type sid msg bc = Some bc' \<Longrightarrow> outside ca bc bc'"
  by (auto simp: refuse_def split: Option.bind_splits dest!: outside_send outside_close intro: outside_trans)

lemma outside_refuse_auth:
  "refuse ca type sid msg (auth_failure b, c) = Some bc' \<Longrightarrow> outside ca (b, c) bc'"
  using outside_trans [OF outside_counters(2) outside_refuse] by blast

lemma outside_close_error: "conn_close ca (protocol_error b, c) = Some bc' \<Longrightarrow> outside ca (b, c) bc'"
  using outside_trans [OF outside_counters(1) outside_close] by blast

lemma agent_register_outside:
  assumes "agent_register cr now ca f (b, c) = Some bc'" "\<not> frame_credential cr b f" "f_type f = TM_MSG_REGISTER"
  shows "outside ca (b, c) bc'"
  using assms
  by (auto simp: agent_register_def frame_credential_def Let_def split: option.splits if_splits
      dest: outside_refuse outside_refuse_auth)

lemma peer_auth_outside:
  assumes "peer_auth cr ca f (b, c) = Some bc'" "\<not> frame_credential cr b f" "f_type f = TM_MSG_AUTH"
  shows "outside ca (b, c) bc'"
  using assms
  by (auto simp: peer_auth_def frame_credential_def Let_def msg_defs split: option.splits if_splits
      dest: outside_refuse outside_refuse_auth)

lemma data_bind_outside:
  assumes "data_conn_first_frame cr uv ca f (b, c) = Some bc'" "\<not> frame_credential cr b f" "f_type f = TM_MSG_DATA_BIND"
  shows "outside ca (b, c) bc'"
  using assms
  by (auto simp: data_conn_first_frame_def frame_credential_def msg_defs
      split: option.splits if_splits Option.bind_splits
      dest: outside_refuse outside_refuse_auth outside_close_error)

lemma conn_frame_outside:
  assumes "conn_frame cr uv now ca f (b, c) = Some bc'" "\<not> frame_credential cr b f" "\<not> c_peer_authed c"
  shows "outside ca (b, c) bc'"
proof -
  have hello: "outside ca (b, c) bc'" if "send_frame_raw ca t sid m (b, c\<lparr>c_got_hello := True\<rparr>) = Some bc'" for t sid m
    using outside_trans [OF outside_counters(3) outside_send] that by blast
  show ?thesis
    using assms
    by (auto simp: conn_frame_def split: if_splits
        dest: hello outside_send outside_close_error agent_register_outside peer_auth_outside data_bind_outside)
qed

lemma register_tunnel_cong:
  assumes "b_tunnels b' = b_tunnels b" "b_detached b' = b_detached b"
  shows "register_tunnel b' = register_tunnel b" "get_tun b' = get_tun b"
proof -
  show g: "get_tun b' = get_tun b" using assms by (simp add: fun_eq_iff get_tun_def)
  show "register_tunnel b' = register_tunnel b"
    by (rule ext) (simp only: register_tunnel_def tm_tunnel_find_def assms(1) g)
qed

lemma frame_credential_outside:
  assumes "outside ca (b, c) (b', c')"
  shows "frame_credential cr b' f = frame_credential cr b f"
proof -
  have b: "b_tunnels b' = b_tunnels b" "b_detached b' = b_detached b" "b_hmac_key b' = b_hmac_key b"
    using assms by (simp_all add: outside_def)
  have "register_tunnel b' = register_tunnel b" "peer_tunnel b' = peer_tunnel b" "get_tun b' = get_tun b"
      "credential cr b' = credential cr b"
    using register_tunnel_cong [OF b(1,2)] b by (simp_all add: fun_eq_iff peer_tunnel_def credential_def)
  then show ?thesis unfolding frame_credential_def b by (simp only:)
qed

lemma conn_frames_outside:
  assumes "conn_frames cr uv now ca ps (b, c) = Some (go, bc')" "\<forall>(f, _) \<in> set ps. \<not> frame_credential cr b f"
      "\<not> c_peer_authed c"
  shows "outside ca (b, c) bc'"
  using assms
proof (induction ps arbitrary: b c)
  case (Cons p ps)
  obtain f r where p: "p = (f, r)" by (cases p)
  obtain b1 c1 where 1: "conn_frame cr uv now ca f (b, c\<lparr>c_fr := Some r\<rparr>) = Some (b1, c1)"
      "(if c_closing c1 \<or> c_fr c1 = None then Some (False, b1, c1) else conn_frames cr uv now ca ps (b1, c1)) = Some (go, bc')"
    using Cons.prems(1) by (auto simp: p split: Option.bind_splits)
  have "outside ca (b, c\<lparr>c_fr := Some r\<rparr>) (b1, c1)"
    using conn_frame_outside [OF 1(1)] Cons.prems(2,3) by (simp add: p)
  then have o: "outside ca (b, c) (b1, c1)" by (rule outside_trans [OF outside_counters(4)])
  show ?case
  proof (cases "c_closing c1 \<or> c_fr c1 = None")
    case True
    then show ?thesis using 1(2) o by auto
  next
    case False
    then have "outside ca (b1, c1) bc'"
      using 1(2) Cons.prems(2,3) frame_credential_outside [OF o] o
      by (intro Cons.IH) (auto simp: p outside_def)
    then show ?thesis by (rule outside_trans [OF o])
  qed
qed simp


section \<open>Refusals and their failures\<close>



definition demo_register :: "nat \<Rightarrow> tm_frame" where
  "demo_register n = \<lparr>f_version = 1, f_type = TM_MSG_REGISTER, f_stream_id = 0, f_payload_len = of_nat (3 + n),
     f_payload = wr_u16 (of_nat n) @ replicate n 65 @ [1]\<rparr>"

lemma demo_register_fields:
  assumes "0 < n" "n \<le> 100"
  shows "cred_fields (demo_register n) = Some (replicate n 65, [1])"
proof -
  have "unat (of_nat (3 + n) :: u32) = 3 + n"
    using assms by (subst unsigned_of_nat) (simp add: take_bit_nat_eq_self)
  then have "unat (3 + of_nat n :: u32) = 3 + n" by simp
  moreover have "unat (of_nat n :: u16) = n"
    using assms by (simp add: unsigned_of_nat take_bit_nat_eq_self)
  ultimately show ?thesis
    using assms by (simp add: demo_register_def cred_fields_def TM_TUNNEL_ID_LEN_def TM_MAX_SECRET_def Let_def)
qed

text \<open>A connection whose transport fails on its next write, on a broker that knows it.\<close>

definition demo_conn :: tm_conn where
  "demo_conn = \<lparr>c_sock = True, c_ssl = True, c_io = a_io demo_agent, c_fr = Some tm_frame_reader_new, c_hs_timer = True,
     c_last_rx_ms = 0, c_remote = [], c_got_hello = True, c_peer_authed = False, c_peer_tun = None, c_closing = False\<rparr>"

definition demo_control :: tm_broker where
  "demo_control = demo_agents\<lparr>b_conns := [(7, demo_conn)], b_heap := 8\<rparr>"


lemma demo_register_type: "f_type (demo_register n) = TM_MSG_REGISTER"
  by (simp add: demo_register_def)

lemma demo_register_refused: "\<not> frame_credential demo_crypto demo_control (demo_register 1)"
proof -
  have "register_tunnel demo_control (cstr (replicate 1 65)) = None"
    by (simp add: register_tunnel_def tm_tunnel_find_def demo_control_def demo_agents_def cstr_def tunnel_zero_def)
  then show ?thesis by (simp add: frame_credential_def demo_register_type demo_register_fields)
qed





end
