(* ===== verification/RelayInv.thy ===== *)
theory RelayInv
  imports Streams
begin

text \<open>
  The relay keeps the byte streams intact. \<open>h l\<close> is what leg \<open>l\<close> has delivered to the relay and
  \<open>base l\<close> what leg \<open>l\<close> had accepted before it became a leg (the control frames of its connection).
\<close>

lemma maybe_close_bound [simp]: "st_bound (stream_maybe_close st) = st_bound st"
  by (simp add: stream_maybe_close_def tm_stream_close_def)

section \<open>The invariant\<close>

text \<open>The direction from \<open>l\<close> to the other leg.\<close>

definition dir_ok :: "(leg \<Rightarrow> bytes) \<Rightarrow> (leg \<Rightarrow> bytes) \<Rightarrow> tm_stream \<Rightarrow> leg \<Rightarrow> bool" where
  "dir_ok base h st l \<longleftrightarrow>
     (case st_io st (other l) of
        Some io \<Rightarrow>
          io_live io \<and> io_accepted io @ st_pend st (other l) = base (other l) @ h l \<and>
          (io_shut io \<longrightarrow> st_fin st l) \<and> (l = LegA \<longrightarrow> st_preq st = []) \<and>
          (st_fin st l \<longrightarrow> st_pend st (other l) = [])
      | None \<Rightarrow>
          st_eof st (other l) \<or>
          st_pend st (other l) = [] \<and> (if l = LegA then st_preq st = h l else h l = [])) \<and>
     (st_fin st l \<longrightarrow> st_eof st l)"

definition calm :: "tm_stream \<Rightarrow> leg \<Rightarrow> bool" where
  "calm st l \<longleftrightarrow> (st_io st l \<noteq> None \<longrightarrow> \<not> st_flushing st l)"

text \<open>\<open>low_inv\<close> holds when the low-water callback of a leg is called, \<open>err_inv k\<close> when leg \<open>k\<close> fails.\<close>

definition low_inv :: "(leg \<Rightarrow> bytes) \<Rightarrow> (leg \<Rightarrow> bytes) \<Rightarrow> tm_stream \<Rightarrow> bool" where
  "low_inv base h st \<longleftrightarrow>
     st_closing st \<or> (\<forall>l. dir_ok base h st l \<and> calm st l)"

definition err_inv :: "(leg \<Rightarrow> bytes) \<Rightarrow> (leg \<Rightarrow> bytes) \<Rightarrow> leg \<Rightarrow> tm_stream \<Rightarrow> bool" where
  "err_inv base h k st \<longleftrightarrow>
     st_closing st \<or>
     dir_ok base h st k \<and> (st_fin st (other k) \<longrightarrow> st_eof st (other k)) \<and> calm st (other k)"

text \<open>What a callback leaves behind.\<close>

definition err_post :: "(leg \<Rightarrow> bytes) \<Rightarrow> (leg \<Rightarrow> bytes) \<Rightarrow> leg \<Rightarrow> tm_stream \<Rightarrow> tm_stream \<Rightarrow> bool" where
  "err_post base h k st st' \<longleftrightarrow>
     low_inv base h st' \<and> st_flushing st' = st_flushing st \<and> st_bound st' = st_bound st \<and>
     (st_closing st' \<or> st_io st' k = None \<and> st_eof st' k)"

definition up_ok ::
    "(leg \<Rightarrow> bytes) \<Rightarrow> (leg \<Rightarrow> bytes) \<Rightarrow> (leg \<Rightarrow> upcall \<Rightarrow> tm_stream \<Rightarrow> tm_stream option) \<Rightarrow> bool" where
  "up_ok base h up \<longleftrightarrow>
     (\<forall>k e st st'. err_inv base h k st \<longrightarrow> up k (UpError e) st = Some st' \<longrightarrow> err_post base h k st st') \<and>
     (\<forall>k st st'. low_inv base h st \<longrightarrow> up k UpLow st = Some st' \<longrightarrow>
        low_inv base h st' \<and> st_flushing st' = st_flushing st \<and> st_bound st' = st_bound st)"

lemma leg_all: "(\<forall>l. P l) \<longleftrightarrow> P k \<and> P (other k)"
  by (cases k) (metis leg.exhaust other.simps)+

lemma low_inv_alt:
  "low_inv base h st \<longleftrightarrow>
     st_closing st \<or> dir_ok base h st k \<and> calm st k \<and> dir_ok base h st (other k) \<and> calm st (other k)"
  unfolding low_inv_def leg_all [of _ k] by auto

lemma dir_ok_fin: "dir_ok base h st l \<Longrightarrow> st_fin st l \<Longrightarrow> st_eof st l"
  by (simp add: dir_ok_def)

lemma dir_ok_Some: "st_io st (other l) = Some io \<Longrightarrow> dir_ok base h st l \<longleftrightarrow>
     io_live io \<and> io_accepted io @ st_pend st (other l) = base (other l) @ h l \<and>
     (io_shut io \<longrightarrow> st_fin st l) \<and> (l = LegA \<longrightarrow> st_preq st = []) \<and>
     (st_fin st l \<longrightarrow> st_pend st (other l) = [] \<and> st_eof st l)"
  by (auto simp: dir_ok_def)

lemma dir_ok_None: "st_io st (other l) = None \<Longrightarrow> dir_ok base h st l \<longleftrightarrow>
     (st_eof st (other l) \<or>
      st_pend st (other l) = [] \<and> (if l = LegA then st_preq st = h l else h l = [])) \<and>
     (st_fin st l \<longrightarrow> st_eof st l)"
  by (simp add: dir_ok_def)

lemma dir_ok_cong:
  assumes "st_io st' (other l) = st_io st (other l)" "st_pend st' (other l) = st_pend st (other l)"
    "st_fin st' l = st_fin st l" "st_eof st' = st_eof st" "st_preq st' = st_preq st"
  shows "dir_ok base h st' l = dir_ok base h st l"
  by (simp only: dir_ok_def assms)

lemma dir_ok_hist: "h' l = h l \<Longrightarrow> dir_ok base h' st l = dir_ok base h st l"
  by (simp only: dir_ok_def)

lemma low_inv_err: "low_inv base h st \<Longrightarrow> err_inv base h k st"
  unfolding low_inv_alt [of _ _ _ k] err_inv_def using dir_ok_fin by auto

lemma dead_dir: "st_io st k = None \<Longrightarrow> st_eof st k \<Longrightarrow> (st_fin st (other k) \<longrightarrow> st_eof st (other k)) \<Longrightarrow>
    dir_ok base h st (other k)"
  by (simp add: dir_ok_def)

lemma low_inv_maybe_close [simp]: "low_inv base h st \<Longrightarrow> low_inv base h (stream_maybe_close st)"
  by (auto simp: stream_maybe_close_def tm_stream_close_def low_inv_def)

lemma low_inv_closing: "st_closing st \<Longrightarrow> low_inv base h st"
  by (simp add: low_inv_def)

section \<open>Flushing\<close>

lemma flush_pend_ok:
  assumes inv: "st_closing st = False" "dir_ok base h st (other l)" "calm st l"
    and oth: "dir_ok base h st l" "calm st (other l)"
    and err: "\<And>s s'. err_inv base h l s \<Longrightarrow> err s = Some s' \<Longrightarrow> err_post base h l s s'"
    and f: "flush_pend err l st = Some st'"
  shows "low_inv base h st' \<and> st_flushing st' = st_flushing st \<and> st_bound st' = st_bound st"
proof -
  consider (same) "st' = st" | (gone) "st_io st l = None" "st' = set_pend l [] 0 st"
    | (io) io where "st_io st l = Some io" "st_pend st l \<noteq> []" "\<not> st_flushing st l"
  proof (cases "st_flushing st l \<or> st_pend st l = []")
    case True
    then show ?thesis using f same by (cases "st_flushing st l") (simp_all add: flush_pend_def)
  next
    case False
    then show ?thesis using f gone io by (cases "st_io st l") (simp_all add: flush_pend_def)
  qed
  then show ?thesis
  proof cases
    case same
    then show ?thesis using assms(1-5) by (simp add: low_inv_alt [of _ _ _ l])
  next
    case gone
    then have "dir_ok base h st' (other l)" "dir_ok base h st' l"
      using inv(2) oth(1) dir_ok_cong [of st' l st] by (auto simp: dir_ok_None)
    then show ?thesis using gone assms(3,5) by (simp add: low_inv_alt [of _ _ _ l] calm_def)
  next
    case (io io)
    then have live: "io_live io" "\<not> io_shut io" "\<not> st_fin st (other l)"
      using inv(2) by (auto simp: dir_ok_Some [of st "other l" io])
    show ?thesis
    proof (cases "flush_loop io_write io (st_pend st l)")
      case (FlDone io' rest d)
      note * = io_half.flush_loop_open [OF FlDone live(1,2)]
      have st': "st' = set_io l (Some io') (set_pend l rest (if rest = [] then 0 else st_pend_cap st l) st)"
        using f io FlDone by (simp add: flush_pend_def)
      have "dir_ok base h st' (other l)"
        using * inv(2) io(1) live(3) by (simp add: st' dir_ok_Some)
      moreover have "dir_ok base h st' l" using oth(1) dir_ok_cong [of st' l st] by (simp add: st')
      ultimately show ?thesis using assms(1,3,5) io by (simp add: st' low_inv_alt [of _ _ _ l] calm_def)
    next
      case (FlError io' piece rest)
      let ?s = "set_io l (Some io') (set_pend l (piece @ rest) (st_pend_cap st l)
          (st\<lparr>st_flushing := (st_flushing st)(l := True)\<rparr>))"
      obtain s' where s': "err ?s = Some s'"
          "st' = set_pend l [] 0 (s'\<lparr>st_flushing := (st_flushing s')(l := False)\<rparr>)"
        using f io FlError by (auto simp: flush_pend_def split: option.splits if_splits)
      have "err_inv base h l ?s"
        using assms(1-5) dir_ok_cong [of ?s l st] dir_ok_fin [OF inv(2)] by (simp add: err_inv_def calm_def)
      from err [OF this s'(1)] have post: "err_post base h l ?s s'" .
      then have fl: "st_flushing st' = st_flushing st" "st_bound st' = st_bound st"
        using s'(2) io(3) by (auto simp: err_post_def fun_eq_iff)
      show ?thesis
      proof (cases "st_closing s'")
        case True
        then show ?thesis using fl s'(2) by (simp add: low_inv_def)
      next
        case False
        then have s: "dir_ok base h s' l" "dir_ok base h s' (other l)" "calm s' (other l)"
            "st_io s' l = None" "st_eof s' l"
          using post by (auto simp: err_post_def low_inv_alt [of _ _ _ l])
        then have "dir_ok base h st' l" "dir_ok base h st' (other l)"
          using dir_ok_cong [of st' l s'] by (simp_all add: s'(2) dir_ok_None)
        then have "low_inv base h st'"
          using s by (simp add: s'(2) low_inv_alt [of _ _ _ l] calm_def)
        then show ?thesis using fl by simp
      qed
    qed
  qed
qed

section \<open>What callbacks never undo\<close>

text \<open>A property of streams that no step of a handler can end, however the callbacks nest.\<close>

locale relay_stable =
  fixes P :: "tm_stream \<Rightarrow> bool"
  assumes closed: "P st \<Longrightarrow> P (tm_stream_close st)"
    and ended: "P st \<Longrightarrow> P (st\<lparr>st_eof := (st_eof st)(l := True)\<rparr>)"
    and io: "P st \<Longrightarrow> st_io st l \<noteq> None \<or> io = None \<Longrightarrow> P (set_io l io st)"
    and frame: "P st \<Longrightarrow> P (st\<lparr>st_fin := f\<rparr>)" "P st \<Longrightarrow> P (st\<lparr>st_paused := f\<rparr>)"
      "P st \<Longrightarrow> P (st\<lparr>st_flushing := f\<rparr>)" "P st \<Longrightarrow> P (st\<lparr>st_pend := q\<rparr>)"
      "P st \<Longrightarrow> P (st\<lparr>st_pend_cap := c\<rparr>)"
begin

lemma maybe_close: "P st \<Longrightarrow> P (stream_maybe_close st)"
  by (simp add: stream_maybe_close_def closed)

lemma set_pend: "P st \<Longrightarrow> P (set_pend l q c st)"
  by (simp add: frame)

lemma resume: "P st \<Longrightarrow> P (leg_resume l st)"
  using io [of "st\<lparr>st_paused := (st_paused st)(l := False)\<rparr>" l] by (simp add: leg_resume_def frame)

lemma flush:
  assumes "flush_pend err l st = Some st'" "P st" "\<And>s s'. err s = Some s' \<Longrightarrow> P s \<Longrightarrow> P s'"
  shows "P st'"
proof (cases "st_flushing st l \<or> st_pend st l = [] \<or> st_io st l = None")
  case True
  then show ?thesis using assms(1,2) set_pend [of st l] by (auto simp: flush_pend_def split: if_splits)
next
  case False
  then obtain i where i: "st_io st l = Some i" by auto
  show ?thesis
  proof (cases "flush_loop io_write i (st_pend st l)")
    case (FlDone i' rest d)
    have "P (set_pend l rest (if rest = [] then 0 else st_pend_cap st l) st)" by (rule set_pend [OF assms(2)])
    from io [OF this, of l "Some i'"] show ?thesis using assms(1) False i FlDone by (simp add: flush_pend_def)
  next
    case (FlError i' piece rest)
    let ?s = "set_pend l (piece @ rest) (st_pend_cap st l) (st\<lparr>st_flushing := (st_flushing st)(l := True)\<rparr>)"
    obtain s' where s': "err (set_io l (Some i') ?s) = Some s'"
        "st' = set_pend l [] 0 (s'\<lparr>st_flushing := (st_flushing s')(l := False)\<rparr>)"
      using assms(1) False i FlError by (auto simp: flush_pend_def split: option.splits if_splits)
    have "P (set_io l (Some i') ?s)" using i by (intro io set_pend frame assms(2)) simp
    from assms(3) [OF s'(1) this] show ?thesis unfolding s'(2) by (intro set_pend frame)
  qed
qed

lemma ups: "run_ups f us st = Some st' \<Longrightarrow> P st \<Longrightarrow> (\<And>u s s'. f u s = Some s' \<Longrightarrow> P s \<Longrightarrow> P s') \<Longrightarrow> P st'"
  by (induction us arbitrary: st) (auto split: option.splits)

lemma shutdown:
  assumes "leg_shutdown up l st = Some st'" "P st" "\<And>m u s s'. up m u s = Some s' \<Longrightarrow> P s \<Longrightarrow> P s'"
  shows "P st'"
proof -
  obtain i us where s: "tm_io_shutdown_send (st_io st l) = (i, us)" by (cases "tm_io_shutdown_send (st_io st l)")
  have "st_io st l \<noteq> None \<or> i = None" using s by (auto simp: tm_io_shutdown_send_def split: option.splits)
  from io [OF assms(2) this] show ?thesis using ups [OF _ _ assms(3)] assms(1) s by (simp add: leg_shutdown_def)
qed

lemma relay_end:
  assumes "relay_ended up l st = Some st'" "P st" "\<And>m u s s'. up m u s = Some s' \<Longrightarrow> P s \<Longrightarrow> P s'"
  shows "P st'"
  using assms(1)
proof (cases rule: relay_ended_cases)
  case gone
  then show ?thesis using assms(2) maybe_close by simp
next
  case (queued s1)
  then show ?thesis using flush [OF queued(2) assms(2,3)] maybe_close by simp
next
  case (passed s1 s2)
  have "P s1" by (rule flush [OF passed(2) assms(2,3)])
  then have "P s2" by (intro shutdown [OF passed(4) _ assms(3)] frame(1))
  then show ?thesis unfolding passed(5) by (rule maybe_close)
qed

lemma relay_low:
  assumes "relay_low_body up l st = Some st'" "P st" "\<And>m u s s'. up m u s = Some s' \<Longrightarrow> P s \<Longrightarrow> P s'"
  shows "P st'"
  using assms(1)
proof (cases rule: relay_low_cases)
  case (queued s1)
  show ?thesis unfolding queued(5) by (rule maybe_close [OF flush [OF queued(3) assms(2,3)]])
next
  case (fin s1 s2)
  have "P s1" by (rule flush [OF fin(3) assms(2,3)])
  then have "P s2" by (intro shutdown [OF fin(7) _ assms(3)] frame(1))
  then show ?thesis unfolding fin(8) by (intro maybe_close resume)
next
  case (drained s1)
  show ?thesis unfolding drained(5) by (rule maybe_close [OF resume [OF flush [OF drained(3) assms(2,3)]]])
qed (use assms(2) maybe_close in simp_all)

lemma relay_callback: "relay_up n l u st = Some st' \<Longrightarrow> P st \<Longrightarrow> P st'"
proof (induction n arbitrary: l u st st')
  case (Suc n)
  show ?case
  proof (cases u)
    case (UpError e)
    have "P (set_io l None (st\<lparr>st_eof := (st_eof st)(l := True)\<rparr>))" using Suc.prems(2) by (intro io ended) simp_all
    note p = this
    show ?thesis
    proof (cases "st_closing st")
      case True
      then show ?thesis using Suc.prems UpError by (simp add: relay_error_body_def)
    next
      case False
      then have "relay_ended (relay_up n) l (set_io l None (st\<lparr>st_eof := (st_eof st)(l := True)\<rparr>)) = Some st'"
        using Suc.prems(1) UpError by (simp add: relay_error_body_def)
      then show ?thesis using p Suc.IH by (rule relay_end)
    qed
  next
    case UpLow
    then have "relay_low_body (relay_up n) l st = Some st'" using Suc.prems(1) by simp
    then show ?thesis using Suc.prems(2) Suc.IH by (rule relay_low)
  qed
qed simp

end

definition dead :: "leg \<Rightarrow> tm_stream \<Rightarrow> bool" where
  "dead k st \<longleftrightarrow> st_io st k = None \<and> st_eof st k"

interpretation dead_leg: relay_stable "dead k" for k
  by unfold_locales (auto simp: dead_def tm_stream_close_def)

interpretation eof_leg: relay_stable "\<lambda>st. st_eof st k" for k
  by unfold_locales (auto simp: tm_stream_close_def)

interpretation bound_stream: relay_stable "\<lambda>st. st_bound st = x" for x
  by unfold_locales (auto simp: tm_stream_close_def)

section \<open>Callbacks\<close>

definition keeps_flags :: "tm_stream \<Rightarrow> tm_stream \<Rightarrow> bool" where
  "keeps_flags st st' \<longleftrightarrow> st_flushing st' = st_flushing st \<and> st_bound st' = st_bound st"

lemma keeps_flags_maybe_close [simp]: "keeps_flags st (stream_maybe_close st') = keeps_flags st st'"
  by (simp add: keeps_flags_def stream_maybe_close_def tm_stream_close_def)

lemma up_okD:
  assumes "up_ok base h up"
  shows "err_inv base h k st \<Longrightarrow> up k (UpError e) st = Some st' \<Longrightarrow> err_post base h k st st'"
    "low_inv base h st \<Longrightarrow> up k UpLow st = Some st' \<Longrightarrow> low_inv base h st' \<and> keeps_flags st st'"
  using assms by (auto simp: up_ok_def keeps_flags_def)

lemma run_one:
  assumes "up_ok base h up" "ups = [] \<or> (\<exists>u. ups = [u])" "run_ups (up k) ups st = Some st'"
    "\<not> up_error ups \<Longrightarrow> low_inv base h st" "up_error ups \<Longrightarrow> err_inv base h k st"
  shows "low_inv base h st' \<and> keeps_flags st st'"
  using assms(2)
proof
  assume "\<exists>u. ups = [u]"
  then obtain u where u: "ups = [u]" by blast
  show ?thesis
  proof (cases u)
    case UpLow
    then show ?thesis using up_okD(2) [OF assms(1), of st k st'] assms(3,4) u by (auto split: option.splits)
  next
    case (UpError e)
    then have "err_post base h k st st'"
      using up_okD(1) [OF assms(1), of k st e st'] assms(3,5) u by (auto split: option.splits)
    then show ?thesis by (simp add: err_post_def keeps_flags_def)
  qed
qed (use assms(3,4) in \<open>simp add: keeps_flags_def\<close>)

lemma leg_shutdown_ok:
  assumes up: "up_ok base h up" and inv: "low_inv base h st"
    and pre: "st_closing st \<or> st_pend st k = [] \<and> st_eof st (other k)"
    and sh: "leg_shutdown up k (st\<lparr>st_fin := (st_fin st)(other k := True)\<rparr>) = Some st'"
  shows "low_inv base h st' \<and> keeps_flags st st'"
proof -
  let ?f = "st\<lparr>st_fin := (st_fin st)(other k := True)\<rparr>"
  obtain io ups where s: "tm_io_shutdown_send (st_io st k) = (io, ups)" by (cases "tm_io_shutdown_send (st_io st k)")
  let ?s = "set_io k io ?f"
  have r: "run_ups (up k) ups ?s = Some st'" using sh s by (simp add: leg_shutdown_def)
  have "low_inv base h ?s" if ne: "\<not> up_error ups"
  proof (cases "st_closing st")
    case False
    then have d: "dir_ok base h st k" "dir_ok base h st (other k)" "calm st k" "calm st (other k)"
        "st_pend st k = []" "st_eof st (other k)"
      using inv pre by (auto simp: low_inv_alt [of _ _ _ k])
    have "dir_ok base h ?s k" using d(1) dir_ok_cong [of ?s k st] by simp
    moreover have "dir_ok base h ?s (other k) \<and> calm ?s k"
    proof (cases "st_io st k")
      case None
      then show ?thesis using d s by (auto simp: dir_ok_None tm_io_shutdown_send_def calm_def)
    next
      case (Some i)
      then obtain i' where i': "io = Some i'" "io_shutdown_send i = (i', ups)"
        using s by (auto simp: tm_io_shutdown_send_def split: prod.splits)
      have "io_live i" using d(2) Some by (simp add: dir_ok_Some)
      from io_half.shutdown_keeps [OF this i'(2) ne] show ?thesis
        using d Some i' by (auto simp: dir_ok_Some calm_def)
    qed
    ultimately show ?thesis using d(4) by (simp add: low_inv_alt [of _ _ _ k] calm_def)
  qed (simp add: low_inv_def)
  moreover have "err_inv base h k ?s"
  proof (cases "st_closing st")
    case False
    then have "dir_ok base h st k" "calm st (other k)" "st_eof st (other k)"
      using inv pre by (auto simp: low_inv_alt [of _ _ _ k])
    then show ?thesis using dir_ok_cong [of ?s k st] by (simp add: err_inv_def calm_def)
  qed (simp add: err_inv_def)
  ultimately have "low_inv base h st' \<and> keeps_flags ?s st'"
    using run_one [OF up shutdown_one [OF s] r] by blast
  then show ?thesis by (simp add: keeps_flags_def)
qed

lemma flush_ok:
  assumes "up_ok base h up" "low_inv base h st" "flush_pend (up l (UpError e)) l st = Some st'" "\<not> st_closing st"
  shows "low_inv base h st' \<and> keeps_flags st st'"
proof -
  have "dir_ok base h st (other l)" "calm st l" "dir_ok base h st l" "calm st (other l)"
    using assms(2,4) by (auto simp: low_inv_alt [of _ _ _ l])
  from flush_pend_ok [OF _ this up_okD(1) [OF assms(1)] assms(3)] show ?thesis
    using assms(4) by (simp add: keeps_flags_def)
qed

section \<open>The handlers keep the invariant\<close>

lemma relay_ended_ok:
  assumes up: "up_ok base h (relay_up n)" and inv: "low_inv base h st" "\<not> st_closing st" "st_eof st l"
    and r: "relay_ended (relay_up n) l st = Some st'"
  shows "low_inv base h st' \<and> keeps_flags st st'"
  using r
proof (cases rule: relay_ended_cases)
  case gone
  then show ?thesis using inv by (simp add: keeps_flags_def)
next
  case (queued s1)
  then show ?thesis using flush_ok [OF up inv(1) queued(2) inv(2)] by simp
next
  case (passed s1 s2)
  have f: "low_inv base h s1" "keeps_flags st s1" using flush_ok [OF up inv(1) passed(2) inv(2)] by simp_all
  have "st_eof s1 l" by (rule eof_leg.flush [OF passed(2) inv(3) eof_leg.relay_callback])
  then have "low_inv base h s2 \<and> keeps_flags s1 s2"
    using leg_shutdown_ok [OF up f(1), of "other l" s2] passed(3,4) by simp
  then show ?thesis using f(2) passed(5) by (simp add: keeps_flags_def)
qed

text \<open>Pausing, resuming and starting a leg only concern its read side.\<close>

definition read_op :: "tm_io option \<Rightarrow> tm_io option \<Rightarrow> bool" where
  "read_op io io' \<longleftrightarrow> (io = None \<longrightarrow> io' = None) \<and> (\<forall>i. io = Some i \<longrightarrow> (\<exists>i'. io' = Some i' \<and> io_write_same i i'))"

lemma read_ops: "read_op io (tm_io_pause_read io)" "read_op io (tm_io_resume_read io)" "read_op io (tm_io_start io)"
proof -
  have *: "read_op io (f io)"
    if "f None = None" "\<And>i. f (Some i) = Some (the (f (Some i)))" "\<And>i. io_write_same i (the (f (Some i)))" for f
  proof (cases io)
    case None
    then show ?thesis using that(1) by (simp add: read_op_def)
  next
    case (Some i)
    then show ?thesis unfolding read_op_def using that(2,3) [of i] by (metis option.inject option.distinct(1))
  qed
  show "read_op io (tm_io_pause_read io)"
    by (rule *, simp add: tm_io_pause_read_def, rule io_read_ops_Some, rule io_read_ops_same)
  show "read_op io (tm_io_resume_read io)"
    by (rule *, simp add: tm_io_resume_read_def, rule io_read_ops_Some, rule io_read_ops_same)
  show "read_op io (tm_io_start io)"
    by (rule *, simp add: tm_io_start_def, rule io_read_ops_Some, rule io_read_ops_same)
qed

lemma read_op_ok:
  assumes inv: "low_inv base h st" and op: "read_op (st_io st l) io"
  shows "low_inv base h (set_io l io (st\<lparr>st_paused := p\<rparr>))"
proof (cases "st_closing st")
  case False
  let ?s = "set_io l io (st\<lparr>st_paused := p\<rparr>)"
  have d: "dir_ok base h st l" "dir_ok base h st (other l)" "calm st l" "calm st (other l)"
    using inv False by (auto simp: low_inv_alt [of _ _ _ l])
  have "dir_ok base h ?s (other l) \<and> calm ?s l"
  proof (cases "st_io st l")
    case None
    then have "io = None" using op by (simp add: read_op_def)
    then show ?thesis using None d dir_ok_cong [of ?s "other l" st] by (simp add: calm_def)
  next
    case (Some i)
    then obtain i' where "io = Some i'" "io_write_same i i'" using op by (auto simp: read_op_def)
    then show ?thesis using Some d by (auto simp: dir_ok_Some calm_def io_write_same_def)
  qed
  moreover have "dir_ok base h ?s l" using d(1) dir_ok_cong [of ?s l st] by simp
  ultimately show ?thesis using d(4) by (simp add: low_inv_alt [of _ _ _ l] calm_def)
qed (simp add: low_inv_def)

lemma leg_resume_ok: "low_inv base h st \<Longrightarrow> low_inv base h (leg_resume l st) \<and> keeps_flags st (leg_resume l st)"
  using read_op_ok [OF _ read_ops(2)] by (auto simp: leg_resume_def keeps_flags_def)

lemma relay_low_ok:
  assumes up: "up_ok base h (relay_up n)" and inv: "low_inv base h st"
    and r: "relay_low_body (relay_up n) l st = Some st'"
  shows "low_inv base h st' \<and> keeps_flags st st'"
  using r
proof (cases rule: relay_low_cases)
  case (queued s1)
  then show ?thesis using flush_ok [OF up inv queued(3,1)] by simp
next
  case (fin s1 s2)
  have f: "low_inv base h s1" "keeps_flags st s1" using flush_ok [OF up inv fin(3,1)] by simp_all
  have "low_inv base h s2 \<and> keeps_flags s1 s2"
    using leg_shutdown_ok [OF up f(1) _ fin(7)] fin(4,5) by simp
  then show ?thesis using f(2) fin(8) leg_resume_ok [of base h s2 "other l"] by (simp add: keeps_flags_def)
next
  case (drained s1)
  then show ?thesis
    using flush_ok [OF up inv drained(3,1)] leg_resume_ok [of base h s1 "other l"] by (simp add: keeps_flags_def)
qed (use inv in \<open>simp_all add: keeps_flags_def\<close>)

lemma relay_error_ok:
  assumes up: "up_ok base h (relay_up n)" and inv: "err_inv base h l st"
    and r: "relay_error_body (relay_up n) l st = Some st'"
  shows "err_post base h l st st'"
proof (cases "st_closing st")
  case True
  then show ?thesis using r by (auto simp: relay_error_body_def err_post_def low_inv_def)
next
  case False
  let ?s = "set_io l None (st\<lparr>st_eof := (st_eof st)(l := True)\<rparr>)"
  have d: "dir_ok base h st l" "calm st (other l)" "st_fin st (other l) \<Longrightarrow> st_eof st (other l)"
    using inv False by (auto simp: err_inv_def)
  have "dir_ok base h ?s l" using d(1) by (cases "st_io st (other l)") (auto simp: dir_ok_Some dir_ok_None)
  moreover have "dir_ok base h ?s (other l)" using d(3) by (intro dead_dir) simp_all
  ultimately have low: "low_inv base h ?s" using d(2) by (simp add: low_inv_alt [of _ _ _ l] calm_def)
  have r': "relay_ended (relay_up n) l ?s = Some st'" using r False by (simp add: relay_error_body_def)
  have "dead l st'" by (rule dead_leg.relay_end [OF r' _ dead_leg.relay_callback]) (simp_all add: dead_def)
  then show ?thesis
    using relay_ended_ok [OF up low _ _ r'] False by (simp add: err_post_def keeps_flags_def dead_def)
qed

lemma relay_up_ok: "up_ok base h (relay_up n)"
proof (induction n)
  case 0
  show ?case by (simp add: up_ok_def)
next
  case (Suc n)
  show ?case
    using relay_error_ok [OF Suc] relay_low_ok [OF Suc] by (auto simp: up_ok_def keeps_flags_def)
qed

section \<open>Reading\<close>

lemma low_inv_cong:
  assumes "st_closing st' = st_closing st" "st_io st' = st_io st" "st_pend st' = st_pend st" "st_fin st' = st_fin st"
    "st_eof st' = st_eof st" "st_preq st' = st_preq st" "st_flushing st' = st_flushing st"
  shows "low_inv base h st' = low_inv base h st"
  by (simp only: low_inv_def dir_ok_def calm_def assms)

lemma low_inv_frame [simp]:
  "low_inv base h (st\<lparr>st_bytes := x\<rparr>) = low_inv base h st" "low_inv base h (st\<lparr>st_preq_cap := c\<rparr>) = low_inv base h st"
  "low_inv base h (st\<lparr>st_bind_timer := t\<rparr>) = low_inv base h st" "low_inv base h (st\<lparr>st_bound := t\<rparr>) = low_inv base h st"
  "low_inv base h (st\<lparr>st_sock := k\<rparr>) = low_inv base h st" "low_inv base h (st\<lparr>st_paused := p\<rparr>) = low_inv base h st"
  by (rule low_inv_cong; simp)+

lemma low_inv_close: "low_inv base h (tm_stream_close st)"
  by (simp add: low_inv_def tm_stream_close_def)

lemma write_one: "io_write io d = (r, io', ups) \<Longrightarrow> ups = [] \<or> (\<exists>u. ups = [u])"
proof -
  have tcp: "length (snd (tcp_pump t)) \<le> 1" for t
    by (simp add: tcp_pump_def tcp_maybe_low_def tcp_error_up_def Let_def)
  have "length (snd (snd (io_write io d))) \<le> 1"
  proof (cases io)
    case (IoTcp t)
    then show ?thesis
      using tcp [of "tcp_enqueue t d"] by (auto simp: io_write_def tcp_write_def split: prod.split)
  next
    case (IoSsl t)
    then show ?thesis
      using pump_write_one [of "ssl_enqueue (is_ssl t) d"]
      by (auto simp: io_write_def ssl_write_def tm_ssl_stream_write_def ssl_ups_def split: prod.split
          intro: order_trans [OF length_filter_le])
  qed
  then show "io_write io d = (r, io', ups) \<Longrightarrow> ?thesis" by (cases ups; cases "tl ups") auto
qed

lemma relay_forward_ok:
  assumes inv: "low_inv base h st" "\<not> st_closing st" and io: "st_io st (other l) = Some io" and e: "\<not> st_eof st l"
    and f: "relay_forward l d st = Some st'"
  shows "low_inv base (h(l := h l @ d)) st'"
proof -
  let ?h = "h(l := h l @ d)" and ?o = "other l"
  have d: "dir_ok base h st l" "dir_ok base h st ?o" "calm st l" "calm st ?o"
    using inv by (auto simp: low_inv_alt [of _ _ _ l])
  then have live: "io_live io" "\<not> io_shut io" "\<not> st_fin st l" using io e by (auto simp: dir_ok_Some)
  have o: "dir_ok base ?h st ?o" using d(2) dir_ok_hist [of ?h ?o h] by simp
  have queue: "low_inv base ?h (set_io l (tm_io_pause_read (st_io s l)) (s\<lparr>st_paused := (st_paused s)(l := True)\<rparr>))"
    if s: "s = pend_append ?o d (set_io ?o (Some i) st)" and i: "io_live i" "io_accepted i = io_accepted io" "io_shut i = io_shut io" for s i
  proof (rule read_op_ok [OF _ read_ops(1)])
    have "dir_ok base ?h s l" using d(1) io i live by (simp add: s dir_ok_Some pend_append_def)
    moreover have "dir_ok base ?h s ?o" using o dir_ok_cong [of s ?o st] by (simp add: s pend_append_def)
    ultimately show "low_inv base ?h s" using d(3,4) io by (simp add: s low_inv_alt [of _ _ _ l] calm_def pend_append_def)
  qed
  show ?thesis
  proof (cases "st_pend st ?o = []")
    case False
    then show ?thesis
      using f queue [of _ io] live io by (auto simp: relay_forward_def Let_def fun_upd_idem)
  next
    case True
    obtain r i ups where w: "io_write io d = (r, i, ups)" by (rule prod_cases3)
    have shut: "io_shut i = io_shut io" by (rule io_half.put_shut [OF live(1) w])
    have eq: "tm_io_write (st_io st ?o) d = (r, Some i, ups)" using io w by (simp add: tm_io_write_def)
    show ?thesis
    proof (cases "r = TM_OK")
      case ok: True
      let ?s = "set_io ?o (Some i) st"
      have r: "run_ups (up3 ?o) ups ?s = Some st'"
        using f True eq ok by (auto simp: relay_forward_def Let_def split: option.splits)
      have "low_inv base ?h ?s" if ne: "\<not> up_error ups"
      proof -
        have "io_live i \<and> io_accepted i = io_accepted io @ d" using io_disp.write_ok [OF live(1)] w ok ne by simp
        then have "dir_ok base ?h ?s l" using d(1) io live True shut by (simp add: dir_ok_Some)
        moreover have "dir_ok base ?h ?s ?o" using o dir_ok_cong [of ?s ?o st] by simp
        ultimately show ?thesis using d(3,4) io by (simp add: low_inv_alt [of _ _ _ l] calm_def)
      qed
      moreover have "err_inv base ?h ?o ?s"
        using o dir_ok_cong [of ?s ?o st] d(3) live(3) by (simp add: err_inv_def calm_def)
      ultimately show ?thesis using run_one [OF relay_up_ok write_one [OF w] r] by blast
    next
      case no: False
      then have i: "io_live i" "io_accepted i = io_accepted io" "ups = []" "r = TM_ERR_BUSY"
        using io_disp.write_refused [OF live(1) w] io_half.put_open [OF live(1,2) w] by auto
      then show ?thesis
        using f True eq queue [OF refl i(1,2) shut] by (simp add: relay_forward_def Let_def)
    qed
  qed
qed

lemma forward_bound:
  assumes "relay_forward l d st = Some st'" "st_bound st"
  shows "st_bound st'"
proof -
  obtain r io us where w: "(if st_pend st (other l) \<noteq> [] then (TM_ERR_BUSY, st_io st (other l), [])
      else tm_io_write (st_io st (other l)) d) = (r, io, us)" by (rule prod_cases3)
  obtain s where s: "run_ups (up3 (other l)) us (set_io (other l) io st) = Some s"
    using assms(1) w by (auto simp: relay_forward_def Let_def split: option.splits)
  have "st_bound s = True"
    by (rule bound_stream.ups [OF s]) (use assms(2) bound_stream.relay_callback in auto)
  then show ?thesis
    using assms(1) w s by (auto simp: relay_forward_def Let_def pend_append_def tm_stream_close_def split: if_splits)
qed

section \<open>Pending streams\<close>

text \<open>A stream whose agent leg is not attached yet.\<close>

definition unbound :: "tm_stream \<Rightarrow> bool" where
  "unbound st \<longleftrightarrow> \<not> st_closing st \<and> st_io st LegB = None \<and> \<not> st_eof st LegB \<and> st_pend st = (\<lambda>_. []) \<and>
     st_fin st = (\<lambda>_. False) \<and> st_flushing st = (\<lambda>_. False)"

definition relay_ok :: "(leg \<Rightarrow> bytes) \<Rightarrow> (leg \<Rightarrow> bytes) \<Rightarrow> tm_stream \<Rightarrow> bool" where
  "relay_ok base h st \<longleftrightarrow>
     low_inv base h st \<and> (st_closing st \<or> st_bound st \<or> unbound st \<and> h LegB = [])"

lemma unbound_set_a: "unbound st \<Longrightarrow> unbound (set_io LegA io st)"
  by (simp add: unbound_def)

lemma unbound_maybe_close: "unbound st \<Longrightarrow> stream_maybe_close st = st"
  by (simp add: unbound_def stream_maybe_close_def)

lemma unbound_ended: "unbound st \<Longrightarrow> unbound (st\<lparr>st_eof := (st_eof st)(LegA := True)\<rparr>)"
  by (simp add: unbound_def)

lemma unbound_callback:
  assumes "relay_up n LegA u st = Some st'" "unbound st"
  shows "unbound st'"
proof (cases n)
  case (Suc m)
  have u: "\<not> st_closing st" "st_io st LegB = None" "st_pend st LegA = []" "\<not> st_eof st LegB"
    using assms(2) by (simp_all add: unbound_def)
  show ?thesis
  proof (cases u)
    case UpLow
    then have "st' = st"
      using assms Suc u unbound_maybe_close
      by (auto simp: relay_low_body_def flush_pend_def leg_resume_def split: if_splits)
    then show ?thesis using assms(2) by simp
  next
    case (UpError e)
    let ?s = "set_io LegA None (st\<lparr>st_eof := (st_eof st)(LegA := True)\<rparr>)"
    have "unbound ?s" using assms(2) by (intro unbound_set_a unbound_ended)
    moreover have "st' = stream_maybe_close ?s"
      using assms(1) Suc UpError u by (simp add: relay_error_lonely_eq)
    ultimately show ?thesis by (simp add: unbound_maybe_close)
  qed
qed (use assms in simp)

lemma unbound_ups: "run_ups (relay_up n LegA) us st = Some st' \<Longrightarrow> unbound st \<Longrightarrow> unbound st'"
  by (induction us arbitrary: st) (auto split: option.splits dest: unbound_callback)

section \<open>Completed writes\<close>

definition write_in_flight :: "tm_io \<Rightarrow> bool" where
  "write_in_flight io = (case io of IoTcp t \<Rightarrow> tc_wreq_pending t | IoSsl t \<Rightarrow> ss_inflight (is_ssl t))"

text \<open>Replacing a leg by one with the same write side, or by a failed one.\<close>

definition leg_as :: "tm_io \<Rightarrow> tm_io \<Rightarrow> bool" where
  "leg_as i i' \<longleftrightarrow> io_live i' \<and> io_accepted i' = io_accepted i \<and> io_shut i' = io_shut i"

lemma low_inv_leg:
  assumes "low_inv base h st" "st_io st l = Some i" "leg_as i i'"
  shows "low_inv base h (set_io l (Some i') st)"
proof (cases "st_closing st")
  case False
  let ?s = "set_io l (Some i') st"
  have d: "dir_ok base h st l" "dir_ok base h st (other l)" "calm st l" "calm st (other l)"
    using assms(1) False by (auto simp: low_inv_alt [of _ _ _ l])
  have "dir_ok base h ?s (other l)" using d(2) assms(2,3) by (simp add: dir_ok_Some leg_as_def)
  moreover have "dir_ok base h ?s l" using d(1) dir_ok_cong [of ?s l st] by simp
  ultimately show ?thesis using d(3,4) assms(2) by (simp add: low_inv_alt [of _ _ _ l] calm_def)
qed (simp add: low_inv_def)

lemma err_inv_leg: "low_inv base h st \<Longrightarrow> err_inv base h l (set_io l io st)"
proof (cases "st_closing st")
  case False
  assume "low_inv base h st"
  then have d: "dir_ok base h st l" "dir_ok base h st (other l)" "calm st (other l)"
    using False by (auto simp: low_inv_alt [of _ _ _ l])
  then show ?thesis
    using dir_ok_cong [of "set_io l io st" l st] dir_ok_fin [OF d(2)] by (simp add: err_inv_def calm_def)
qed (simp add: err_inv_def)

lemma run_leg:
  assumes "low_inv base h st" "st_io st l = Some i" "run_ups (up3 l) ups (set_io l (Some i') st) = Some st'"
    "ups = [] \<or> (\<exists>u. ups = [u])" "\<not> up_error ups \<Longrightarrow> leg_as i i'"
  shows "low_inv base h st' \<and> st_bound st' = st_bound st"
  using run_one [OF relay_up_ok assms(4,3), of base h] low_inv_leg [OF assms(1,2), of i'] err_inv_leg [OF assms(1)] assms(5)
  by (simp add: keeps_flags_def)

lemma live_leg: "low_inv base h st \<Longrightarrow> \<not> st_closing st \<Longrightarrow> st_io st l = Some i \<Longrightarrow> io_live i"
  by (auto simp: low_inv_alt [of _ _ _ l] dir_ok_Some)

interpretation closing_stream: relay_stable st_closing
  by unfold_locales (auto simp: tm_stream_close_def)

text \<open>The end of \<open>tcp_write_done\<close>, after its low-water callback.\<close>

definition tcp_done_tail :: "leg \<Rightarrow> tm_io_tcp \<Rightarrow> tm_stream \<Rightarrow> tm_stream option" where
  "tcp_done_tail l t2 st =
     (case tcp_write_done_tail t2 of (t3, ups3) \<Rightarrow>
        (case run_ups (up3 l) ups3 (set_io l (Some (IoTcp t3)) st) of
           None \<Rightarrow> None
         | Some st \<Rightarrow>
             if tc_wreq_pending t3 \<or> up_error ups3 then Some st
             else (case st_io st l of
                 Some (IoTcp t4) \<Rightarrow> Some (set_io l (Some (IoTcp (tcp_pump_tail t4))) st)
               | _ \<Rightarrow> None)))"

context relay_stable
begin

lemma done_tail:
  assumes "tcp_done_tail l t st = Some st'" "P st" "st_io st l \<noteq> None"
  shows "P st'"
proof -
  obtain t3 us where t3: "tcp_write_done_tail t = (t3, us)" by (cases "tcp_write_done_tail t")
  obtain s where s: "run_ups (up3 l) us (set_io l (Some (IoTcp t3)) st) = Some s"
    using assms(1) t3 by (auto simp: tcp_done_tail_def split: option.splits)
  have "P (set_io l (Some (IoTcp t3)) st)" using assms(3) by (intro io assms(2)) simp
  then have "P s" by (rule ups [OF s]) (erule (1) relay_callback)
  then show ?thesis
    using assms(1) t3 s io [of s l] by (auto simp: tcp_done_tail_def split: option.splits if_splits tm_io.splits)
qed

end

lemma tcp_pump_one: "tcp_pump t = (t', ups) \<Longrightarrow> ups = [] \<or> (\<exists>u. ups = [u])"
  by (auto simp: tcp_pump_def tcp_maybe_low_def tcp_error_up_def Let_def split: if_splits)

lemma tcp_done_tail_ok:
  assumes inv: "low_inv base h st" and io: "st_io st l = Some i"
    and t: "tcp_inv t2" "\<not> tc_closed t2" "tc_low_cb t2" "tc_error_cb t2"
      "tcp_accepted t2 = io_accepted i" "tc_write_closed t2 = io_shut i"
    and r: "tcp_done_tail l t2 st = Some st'"
  shows "low_inv base h st' \<and> st_bound st' = st_bound st"
proof -
  obtain t3 ups where p: "tcp_pump t2 = (t3, ups)" by (cases "tcp_pump t2")
  obtain s where s: "run_ups (up3 l) ups (set_io l (Some (IoTcp t3)) st) = Some s"
    using r p by (auto simp: tcp_done_tail_def tcp_write_done_tail_def split: option.splits)
  have "leg_as i (IoTcp t3)" if "\<not> up_error ups"
    using tcp_pump_ok [OF t(1-4) p that] tcp_pump_write_closed [OF p] t(5,6) by (simp add: leg_as_def)
  from run_leg [OF inv io s tcp_pump_one [OF p] this] have low: "low_inv base h s" "st_bound s = st_bound st" by simp_all
  show ?thesis
  proof (cases "tc_wreq_pending t3 \<or> up_error ups")
    case True
    then show ?thesis using r p s low by (simp add: tcp_done_tail_def tcp_write_done_tail_def)
  next
    case False
    then obtain t4 where t4: "st_io s l = Some (IoTcp t4)" "st' = set_io l (Some (IoTcp (tcp_pump_tail t4))) s"
      using r p s by (auto simp: tcp_done_tail_def tcp_write_done_tail_def split: option.splits tm_io.splits)
    show ?thesis
    proof (cases "st_closing s")
      case True
      then show ?thesis using t4(2) low(2) by (simp add: low_inv_def)
    next
      case no: False
      have "tcp_live t4" using live_leg [OF low(1) no t4(1)] by simp
      then have "leg_as (IoTcp t4) (IoTcp (tcp_pump_tail t4))"
        using tcp_pump_tail_live [of t4] by (simp add: leg_as_def tcp_pump_tail_def tcp_fin_def)
      from low_inv_leg [OF low(1) t4(1) this] show ?thesis using t4(2) low(2) by simp
    qed
  qed
qed

lemma tcp_done_ok:
  assumes inv: "low_inv base h st" "\<not> st_closing st" and io: "st_io st l = Some (IoTcp t)" and p: "tc_wreq_pending t"
    and r: "relay_write_done l status st = Some st'"
  shows "low_inv base h st' \<and> st_bound st' = st_bound st"
proof -
  have live: "tcp_live t" using live_leg [OF inv io] by simp
  then have nf: "\<not> tc_fin_sent t" using p by (auto simp: tcp_live_def tcp_inv_def)
  let ?t = "tcp_write_acked t"
  have a: "tcp_inv ?t" "tcp_accepted ?t = tcp_accepted t" "tc_write_closed ?t = tc_write_closed t" "\<not> tc_wreq_pending ?t"
    using tcp_acked_inv [OF _ nf] live by (simp_all add: tcp_live_def tcp_write_acked_def Let_def)
  consider "st' = st" | (err) "run_ups (up3 l) [UpError TM_ERR_IO] (set_io l (Some (IoTcp ?t)) st) = Some st'"
    | (empty) s t2 where "tc_wb ?t = []" "run_ups (up3 l) [UpLow] (set_io l (Some (IoTcp ?t)) st) = Some s"
        "st_io s l = Some (IoTcp t2)" "tcp_done_tail l t2 s = Some st'"
    | (more) "tcp_done_tail l ?t (set_io l (Some (IoTcp ?t)) st) = Some st'"
    using r io live
    by (auto simp: relay_write_done_def tcp_write_done_def tcp_error_up_def tcp_maybe_low_def tcp_live_def tcp_done_tail_def Let_def
        split: if_splits option.splits tm_io.splits)
  then show ?thesis
  proof cases
    case err
    show ?thesis by (rule run_leg [OF inv(1) io err]) simp_all
  next
    case empty
    have "leg_as (IoTcp t) (IoTcp ?t)" using a live empty(1) by (simp add: leg_as_def tcp_live_def)
    then have low: "low_inv base h s" "st_bound s = st_bound st" using run_leg [OF inv(1) io empty(2)] by simp_all
    show ?thesis
    proof (cases "st_closing s")
      case True
      have "st_closing st'" using closing_stream.done_tail [OF empty(4) True] empty(3) by simp
      moreover have "st_bound st' = st_bound s" using bound_stream.done_tail [OF empty(4) refl] empty(3) by simp
      ultimately show ?thesis using low(2) by (simp add: low_inv_def)
    next
      case False
      have "tcp_live t2" using live_leg [OF low(1) False empty(3)] by simp
      then show ?thesis
        using tcp_done_tail_ok [OF low(1) empty(3) _ _ _ _ _ _ empty(4)] low(2) by (simp add: tcp_live_def)
    qed
  next
    case more
    have "tcp_done_tail l ?t (set_io l (Some (IoTcp ?t)) st) = tcp_done_tail l ?t st" by (simp add: tcp_done_tail_def)
    then show ?thesis using tcp_done_tail_ok [OF inv(1) io _ _ _ _ _ _ , of ?t st'] more a live by (simp add: tcp_live_def)
  qed (use inv in simp)
qed

lemma on_write_done_one: "on_write_done s status = Some (s1, ups, cont) \<Longrightarrow> length ups \<le> 1"
  using finish_close_one [of "s\<lparr>ss_inflight := False, ss_last_err := Some TM_ERR_IO\<rparr>"]
    pump_write_one [of "s\<lparr>ss_inflight := False\<rparr>"]
  by (auto simp: on_write_done_def Let_def split: if_splits prod.splits)

lemma on_write_done_tail_one: "length (snd (on_write_done_tail s)) \<le> 1"
  using tls_try_shutdown_one [of s] by (simp add: on_write_done_tail_def)

lemma filter_one: "length us \<le> 1 \<Longrightarrow> filter p us = [] \<or> (\<exists>u. filter p us = [u])"
  using order_trans [OF length_filter_le, of us 1 p] by (cases "filter p us"; cases "tl (filter p us)") auto

lemma ssl_done_shut:
  assumes "ssl_live s"
  shows "on_write_done s status = Some (s1, ups, True) \<Longrightarrow> ss_close_sent s1 = ss_close_sent s"
    "on_write_done_tail s = (s1, ups) \<Longrightarrow> ss_close_sent s1 = ss_close_sent s"
proof -
  assume "on_write_done s status = Some (s1, ups, True)"
  then have "pump_write (s\<lparr>ss_inflight := False\<rparr>) = (s1, ups)"
    by (auto simp: on_write_done_def Let_def split: if_splits prod.splits)
  moreover have "ssl_inv (s\<lparr>ss_inflight := False\<rparr>)" using assms by (simp add: ssl_live_def ssl_inv_def)
  ultimately have "ssl_step (s\<lparr>ss_inflight := False\<rparr>) s1" using pump_write_step by blast
  then show "ss_close_sent s1 = ss_close_sent s" by (simp add: ssl_step_def)
next
  assume t: "on_write_done_tail s = (s1, ups)"
  have i: "ssl_inv s" "ss_shutdown_pending s \<Longrightarrow> ss_close_sent s" using assms by (simp_all add: ssl_live_def ssl_inv_def)
  show "ss_close_sent s1 = ss_close_sent s"
  proof (cases "ss_shutdown_pending s \<and> ss_state s = TM_SS_STATE_OPEN")
    case True
    then have "tls_try_shutdown s = (s1, ups)" using t by (simp add: on_write_done_tail_def)
    from tls_try_shutdown_step [OF i(1) _ this] show ?thesis using i(2) True by (simp add: ssl_step_def)
  next
    case False
    then have "s1 = s" using t unfolding on_write_done_tail_def by (simp only: if_False) simp
    then show ?thesis by simp
  qed
qed

text \<open>The end of \<open>on_write_done\<close>.\<close>

definition ssl_done_tail :: "leg \<Rightarrow> bool \<Rightarrow> tm_stream \<Rightarrow> tm_stream option" where
  "ssl_done_tail l failed st =
     (case st_io st l of
        Some (IoSsl t2) \<Rightarrow>
          (case ssl_ups t2 (on_write_done_tail (is_ssl t2)) of (t3, ups3) \<Rightarrow>
             run_ups (up3 l) ups3 (set_io l (Some (IoSsl t3)) st))
      | _ \<Rightarrow> if failed then Some st else None)"

context relay_stable
begin

lemma ssl_tail:
  assumes "ssl_done_tail l failed st = Some st'" "P st"
  shows "P st'"
proof (cases "\<exists>t. st_io st l = Some (IoSsl t)")
  case True
  then obtain t where t: "st_io st l = Some (IoSsl t)" by blast
  obtain t3 us where t3: "ssl_ups t (on_write_done_tail (is_ssl t)) = (t3, us)"
    by (cases "ssl_ups t (on_write_done_tail (is_ssl t))")
  have s: "run_ups (up3 l) us (set_io l (Some (IoSsl t3)) st) = Some st'"
    using assms(1) t t3 by (simp add: ssl_done_tail_def)
  have "P (set_io l (Some (IoSsl t3)) st)" using t by (intro io assms(2)) simp
  then show ?thesis by (rule ups [OF s]) (erule (1) relay_callback)
next
  case False
  then show ?thesis using assms by (auto simp: ssl_done_tail_def split: option.splits tm_io.splits if_splits)
qed

end

lemma ssl_done_tail_ok:
  assumes inv: "low_inv base h st" and r: "ssl_done_tail l failed st = Some st'"
  shows "low_inv base h st'"
proof (cases "st_closing st \<or> (\<nexists>t. st_io st l = Some (IoSsl t))")
  case True
  then show ?thesis
    using inv r closing_stream.ssl_tail [OF r]
    by (auto simp: ssl_done_tail_def low_inv_def split: option.splits tm_io.splits if_splits)
next
  case False
  then obtain t where t: "st_io st l = Some (IoSsl t)" "\<not> st_closing st" by blast
  have live: "ssl_live (is_ssl t)" "\<not> is_closed t" "is_error_cb t" using live_leg [OF inv t(2,1)] by simp_all
  obtain s3 us where s3: "on_write_done_tail (is_ssl t) = (s3, us)" by (cases "on_write_done_tail (is_ssl t)")
  have run: "run_ups (up3 l) (filter (ssl_up t) us) (set_io l (Some (IoSsl (t\<lparr>is_ssl := s3\<rparr>))) st) = Some st'"
    using r t s3 by (simp add: ssl_done_tail_def ssl_ups_def)
  have "leg_as (IoSsl t) (IoSsl (t\<lparr>is_ssl := s3\<rparr>))" if "\<not> up_error (filter (ssl_up t) us)"
    using on_write_done_tail_live [OF live(1) s3] ssl_done_shut(2) [OF live(1) s3] that live
    by (simp add: leg_as_def up_error_filter)
  moreover have "length us \<le> 1" using on_write_done_tail_one [of "is_ssl t"] s3 by simp
  ultimately show ?thesis using run_leg [OF inv t(1) run filter_one] by simp
qed

lemma ssl_done_ok:
  assumes inv: "low_inv base h st" "\<not> st_closing st" and io: "st_io st l = Some (IoSsl t)"
    and r: "relay_write_done l status st = Some st'"
  shows "low_inv base h st' \<and> st_bound st' = st_bound st"
proof -
  have live: "ssl_live (is_ssl t)" "\<not> is_closed t" "is_error_cb t" using live_leg [OF inv io] by simp_all
  show ?thesis
  proof (cases "on_write_done (is_ssl t) status")
    case None
    then show ?thesis using r io inv by (simp add: relay_write_done_def)
  next
    case (Some x)
    then obtain s1 us cont where d: "on_write_done (is_ssl t) status = Some (s1, us, cont)" by (cases x) auto
    let ?t = "t\<lparr>is_ssl := s1\<rparr>" and ?us = "filter (ssl_up t) us"
    obtain s where s: "run_ups (up3 l) ?us (set_io l (Some (IoSsl ?t)) st) = Some s"
        "(if \<not> cont then Some s else ssl_done_tail l (up_error ?us) s) = Some st'"
    proof -
      have "relay_write_done l status st =
          (case run_ups (up3 l) ?us (set_io l (Some (IoSsl ?t)) st) of
             None \<Rightarrow> None
           | Some s \<Rightarrow> if \<not> cont then Some s else ssl_done_tail l (up_error ?us) s)"
        unfolding relay_write_done_def io option.case tm_io.case d prod.case ssl_done_tail_def by (simp add: ssl_ups_def)
      then show thesis using r that by (auto split: option.splits)
    qed
    have "leg_as (IoSsl t) (IoSsl ?t)" if "\<not> up_error ?us"
    proof -
      have ne: "\<not> up_error us" using that live by (simp add: up_error_filter)
      then have cont using d live by (auto simp: on_write_done_def finish_close_def ssl_live_def Let_def split: if_splits prod.splits)
      then show ?thesis
        using on_write_done_live [OF live(1) _ ne] ssl_done_shut(1) [OF live(1)] d live by (simp add: leg_as_def)
    qed
    then have low: "low_inv base h s" "st_bound s = st_bound st"
      using run_leg [OF inv(1) io s(1) filter_one [OF on_write_done_one [OF d]]] by simp_all
    show ?thesis
      using s(2) low ssl_done_tail_ok [OF low(1), of l "up_error ?us" st'] bound_stream.ssl_tail [of l "up_error ?us" s st']
      by (auto split: if_splits)
  qed
qed

lemma relay_write_done_ok:
  assumes "low_inv base h st" "\<not> st_closing st" "st_io st l = Some i" "write_in_flight i"
    "relay_write_done l status st = Some st'"
  shows "low_inv base h st' \<and> st_bound st' = st_bound st"
proof (cases i)
  case (IoTcp t)
  then show ?thesis using tcp_done_ok [OF assms(1,2) _ _ assms(5)] assms(3,4) by (simp add: write_in_flight_def)
next
  case (IoSsl t)
  then show ?thesis using ssl_done_ok [OF assms(1,2) _ assms(5)] assms(3) by simp
qed

section \<open>Every life of a stream\<close>

text \<open>
  The events of a stream in the order they may occur. It is created for a public connection or for
  a peer whose connection has accepted some frames before; the agent's connection is attached,
  which creates the raw leg of the public client; legs deliver data, end or fail and complete writes; the bind
  timer fires. A leg delivers nothing after its end. \<open>base l\<close> is what leg \<open>l\<close> had accepted before it
  became a leg, \<open>h l\<close> what it has delivered to the relay.
\<close>

inductive relay_reach :: "(leg \<Rightarrow> bytes) \<Rightarrow> (leg \<Rightarrow> bytes) \<Rightarrow> tm_stream \<Rightarrow> bool" where
  opened: "relay_reach (\<lambda>_. []) (\<lambda>_. []) (stream_new sid None now)"
| peer_opened: "io_live io \<Longrightarrow> \<not> io_shut io \<Longrightarrow>
    relay_reach ((\<lambda>_. [])(LegA := io_accepted io)) (\<lambda>_. []) (stream_new sid (tm_io_set_cbs (Some io) True True) now)"
| attached: "relay_reach base h st \<Longrightarrow> io_live io \<Longrightarrow> \<not> io_shut io \<Longrightarrow> \<not> st_bound st \<Longrightarrow>
    tm_stream_relay_attach_agent uv io st = Some st' \<Longrightarrow>
    relay_reach (base(LegA := if st_io st LegA = None then [] else base LegA, LegB := io_accepted io)) h st'"
| a_read: "relay_reach base h st \<Longrightarrow> st_io st LegA \<noteq> None \<Longrightarrow> \<not> st_eof st LegA \<Longrightarrow> relay_a_read d st = Some st' \<Longrightarrow>
    relay_reach base (h(LegA := h LegA @ d)) st'"
| b_read: "relay_reach base h st \<Longrightarrow> st_io st LegB \<noteq> None \<Longrightarrow> \<not> st_eof st LegB \<Longrightarrow> relay_b_read d st = Some st' \<Longrightarrow>
    relay_reach base (h(LegB := h LegB @ d)) st'"
| a_eof: "relay_reach base h st \<Longrightarrow> st_io st LegA \<noteq> None \<Longrightarrow> relay_a_eof st = Some st' \<Longrightarrow> relay_reach base h st'"
| b_eof: "relay_reach base h st \<Longrightarrow> st_io st LegB \<noteq> None \<Longrightarrow> relay_b_eof st = Some st' \<Longrightarrow> relay_reach base h st'"
| a_error: "relay_reach base h st \<Longrightarrow> st_io st LegA \<noteq> None \<Longrightarrow> relay_a_error st = Some st' \<Longrightarrow> relay_reach base h st'"
| b_error: "relay_reach base h st \<Longrightarrow> st_io st LegB \<noteq> None \<Longrightarrow> relay_b_error st = Some st' \<Longrightarrow> relay_reach base h st'"
| written: "relay_reach base h st \<Longrightarrow> st_io st l = Some io \<Longrightarrow> write_in_flight io \<Longrightarrow>
    relay_write_done l status st = Some st' \<Longrightarrow> relay_reach base h st'"
| timeout: "relay_reach base h st \<Longrightarrow> relay_reach base h (stream_bind_timer_cb st)"

lemma low_inv_eof: "low_inv base h st \<Longrightarrow> low_inv base h (st\<lparr>st_eof := (st_eof st)(l := True)\<rparr>)"
proof -
  let ?s = "st\<lparr>st_eof := (st_eof st)(l := True)\<rparr>"
  have "dir_ok base h ?s k" if "dir_ok base h st k" for k
    using that by (cases "st_io st (other k)") (auto simp: dir_ok_Some dir_ok_None)
  then show "low_inv base h st \<Longrightarrow> low_inv base h ?s" by (auto simp: low_inv_def calm_def)
qed

lemma relay_eof_ok:
  assumes "relay_ok base h st" "st_io st l \<noteq> None" "relay_eof_body up3 l st = Some st'"
  shows "relay_ok base h st'"
proof (cases "st_closing st")
  case True
  then show ?thesis using assms by (simp add: relay_eof_body_def)
next
  case False
  let ?s = "st\<lparr>st_eof := (st_eof st)(l := True)\<rparr>"
  have r: "relay_ended up3 l ?s = Some st'" using assms(3) False by (simp add: relay_eof_body_def)
  have low: "low_inv base h ?s" using assms(1) low_inv_eof by (simp add: relay_ok_def)
  have *: "low_inv base h st'" "st_bound st' = st_bound st"
    using relay_ended_ok [OF relay_up_ok low _ _ r] False by (simp_all add: keeps_flags_def)
  show ?thesis
  proof (cases "st_bound st")
    case True
    then show ?thesis using * by (simp add: relay_ok_def)
  next
    case no: False
    then have u: "unbound st" "h LegB = []" using assms(1) False by (auto simp: relay_ok_def)
    then have "l = LegA" using assms(2) by (cases l) (simp_all add: unbound_def)
    then have "unbound ?s" "st' = stream_maybe_close ?s"
      using u(1) r unbound_ended by (simp_all add: relay_ended_def unbound_def)
    then show ?thesis using * u(2) by (simp add: relay_ok_def unbound_maybe_close)
  qed
qed

lemma relay_error_body_ok:
  assumes "relay_ok base h st" "st_io st l \<noteq> None" "relay_error_body up3 l st = Some st'"
  shows "relay_ok base h st'"
proof -
  have e: "relay_up (Suc 3) l (UpError TM_ERR_IO) st = Some st'" using assms(3) by (simp only: relay_up.simps)
  have *: "low_inv base h st'" "st_bound st' = st_bound st"
    using relay_error_ok [OF relay_up_ok low_inv_err assms(3), of base h] assms(1) by (simp_all add: relay_ok_def err_post_def)
  show ?thesis
  proof (cases "st_closing st \<or> st_bound st")
    case True
    then show ?thesis using * assms by (auto simp: relay_ok_def relay_error_body_def)
  next
    case False
    then have u: "unbound st" "h LegB = []" using assms(1) by (auto simp: relay_ok_def)
    then have "l = LegA" using assms(2) by (cases l) (simp_all add: unbound_def)
    then show ?thesis using * u e unbound_callback by (simp add: relay_ok_def)
  qed
qed

lemma unbound_run_a: "run_ups (up3 LegA) us (set_io LegA io st) = Some st' \<Longrightarrow> unbound st \<Longrightarrow> unbound st'"
  by (rule unbound_ups [OF _ unbound_set_a])

lemma unbound_done:
  assumes "relay_write_done LegA status st = Some st'" "unbound st"
  shows "unbound st'"
  using assms unbound_set_a
  by (auto simp: relay_write_done_def split: option.splits tm_io.splits prod.splits if_splits dest!: unbound_run_a)

lemma written_ok:
  assumes "relay_ok base h st" "st_io st l = Some i" "write_in_flight i" "relay_write_done l status st = Some st'"
  shows "relay_ok base h st'"
proof (cases "st_closing st")
  case True
  have "st_closing st'"
    using assms(4) True assms(2)
    by (auto simp: relay_write_done_def split: option.splits tm_io.splits prod.splits if_splits
        dest!: closing_stream.ups [OF _ _ closing_stream.relay_callback])
  then show ?thesis by (simp add: relay_ok_def low_inv_def)
next
  case False
  then have *: "low_inv base h st'" "st_bound st' = st_bound st"
    using relay_write_done_ok [OF _ _ assms(2,3,4), of base h] assms(1) by (simp_all add: relay_ok_def)
  show ?thesis
  proof (cases "st_bound st")
    case no: False
    then have u: "unbound st" "h LegB = []" using assms(1) False by (auto simp: relay_ok_def)
    then have "l = LegA" using assms(2) by (cases l) (simp_all add: unbound_def)
    then show ?thesis using * u unbound_done assms(4) by (simp add: relay_ok_def)
  qed (use * in \<open>simp add: relay_ok_def\<close>)
qed

lemma a_read_ok:
  assumes "relay_ok base h st" "\<not> st_eof st LegA" "relay_a_read d st = Some st'"
  shows "relay_ok base (h(LegA := h LegA @ d)) st'"
proof (cases "st_closing st")
  case True
  then show ?thesis using assms by (simp add: relay_a_read_def relay_ok_def low_inv_def)
next
  case False
  let ?s = "st\<lparr>st_bytes := (st_bytes st)(LegA := st_bytes st LegA + of_nat (length d))\<rparr>"
  show ?thesis
  proof (cases "st_io st LegB")
    case (Some i)
    then have b: "st_bound st" using assms(1) False by (auto simp: relay_ok_def unbound_def)
    have f: "relay_forward LegA d ?s = Some st'" using assms(3) False Some by (simp add: relay_a_read_def)
    have "low_inv base (h(LegA := h LegA @ d)) st'"
      using relay_forward_ok [OF _ _ _ _ f, of base h i] assms(1,2) False Some by (simp add: relay_ok_def)
    moreover have "st_bound st'" by (rule forward_bound [OF f]) (simp add: b)
    ultimately show ?thesis by (simp add: relay_ok_def)
  next
    case None
    show ?thesis
    proof (cases "st_closing st'")
      case True
      then show ?thesis by (simp add: relay_ok_def low_inv_def)
    next
      case no: False
      let ?q = "?s\<lparr>st_preq_cap := next_cap 16384 (st_preq_cap st) (length (st_preq st) + length d), st_preq := st_preq st @ d\<rparr>"
      have st': "st' = (if TM_IO_HIGH_WATER \<le> length (st_preq st @ d)
          then set_io LegA (tm_io_pause_read (st_io st LegA)) (?q\<lparr>st_paused := (st_paused st)(LegA := True)\<rparr>) else ?q)"
        and ne: "\<not> st_eof st LegB"
        using assms(3) False None no by (auto simp: relay_a_read_def tm_stream_close_def Let_def split: if_splits)
      have d: "dir_ok base h st LegA" "dir_ok base h st LegB" "calm st LegA"
        using assms(1) False by (auto simp: relay_ok_def low_inv_def)
      have "dir_ok base (h(LegA := h LegA @ d)) ?q LegA" using d(1) None ne by (simp add: dir_ok_def)
      moreover have "dir_ok base (h(LegA := h LegA @ d)) ?q LegB"
        using d(2) by (cases "st_io st LegA") (simp_all add: dir_ok_def)
      ultimately have "low_inv base (h(LegA := h LegA @ d)) ?q"
        using None d(3) by (simp add: low_inv_alt [of _ _ _ LegA] calm_def)
      then have "low_inv base (h(LegA := h LegA @ d)) st'"
        using read_op_ok [OF _ read_ops(1), where st = ?q and l = LegA] by (simp add: st')
      moreover have "st_bound st' = st_bound st" "unbound st \<Longrightarrow> unbound st'" by (simp_all add: st' unbound_def)
      ultimately show ?thesis using assms(1) no False by (auto simp: relay_ok_def)
    qed
  qed
qed

lemma b_read_ok:
  assumes "relay_ok base h st" "st_io st LegB \<noteq> None" "\<not> st_eof st LegB" "relay_b_read d st = Some st'"
  shows "relay_ok base (h(LegB := h LegB @ d)) st'"
proof (cases "st_closing st \<or> st_io st LegA = None")
  case True
  then have "st_closing st'" using assms(4) by (auto simp: relay_b_read_def tm_stream_close_def split: if_splits)
  then show ?thesis by (simp add: relay_ok_def low_inv_def)
next
  case False
  then obtain i where i: "st_io st LegA = Some i" by auto
  let ?s = "st\<lparr>st_bytes := (st_bytes st)(LegB := st_bytes st LegB + of_nat (length d))\<rparr>"
  have b: "st_bound st" using assms(1,2) False by (auto simp: relay_ok_def unbound_def)
  have f: "relay_forward LegB d ?s = Some st'" using assms(4) False i by (simp add: relay_b_read_def)
  have "low_inv base (h(LegB := h LegB @ d)) st'"
    using relay_forward_ok [OF _ _ _ _ f, of base h i] assms(1,3) False i by (simp add: relay_ok_def)
  moreover have "st_bound st'" by (rule forward_bound [OF f]) (simp add: b)
  ultimately show ?thesis by (simp add: relay_ok_def)
qed

text \<open>Attaching the agent leg: both legs are in place and the early bytes of leg A are queued for leg B.\<close>

lemma started_leg: "io_live i \<Longrightarrow> \<exists>i'. tm_io_start (Some i) = Some i' \<and> leg_as i i'"
  using read_ops(3) [of "Some i"] by (auto simp: read_op_def io_write_same_def leg_as_def)

lemma attach_legs:
  assumes ok: "relay_ok base h st" "\<not> st_closing st" "\<not> st_bound st" and io: "io_live io" "\<not> io_shut io"
    and s: "st_closing s = False" "st_io s LegB = Some iob" "leg_as io iob" "st_eof s = st_eof st" "st_fin s = st_fin st"
      "st_pend s LegA = []" "st_pend s LegB = st_preq st" "st_preq s = []" "st_flushing s = st_flushing st"
      "st_io st LegA = None \<Longrightarrow> \<exists>i. st_io s LegA = Some i \<and> leg_as (IoTcp (tm_io_tcp_new True True uv)) i"
      "st_io st LegA \<noteq> None \<Longrightarrow> st_io s LegA = st_io st LegA"
  shows "low_inv (base(LegA := if st_io st LegA = None then [] else base LegA, LegB := io_accepted io)) h s"
proof -
  let ?b = "base(LegA := if st_io st LegA = None then [] else base LegA, LegB := io_accepted io)"
  have u: "unbound st" "h LegB = []" and d: "dir_ok base h st LegA" "dir_ok base h st LegB"
    using ok by (auto simp: relay_ok_def low_inv_def)
  then have q: "st_preq st = h LegA" by (simp add: unbound_def dir_ok_def)
  have f: "\<not> st_fin s LegA" "\<not> st_fin s LegB" "\<not> st_flushing s LegA" "\<not> st_flushing s LegB"
    using u(1) s by (simp_all add: unbound_def)
  have "dir_ok ?b h s LegA" using s(2,3,7,8) io f q by (simp add: dir_ok_Some leg_as_def)
  moreover have "dir_ok ?b h s LegB"
  proof (cases "st_io st LegA")
    case None
    then obtain i where i: "st_io s LegA = Some i" "leg_as (IoTcp (tm_io_tcp_new True True uv)) i" using s(10) by blast
    then show ?thesis
      using None u(2) s(6) f by (simp add: dir_ok_Some leg_as_def tm_io_tcp_new_def tcp_accepted_def)
  next
    case (Some i)
    then show ?thesis using d(2) u s(6,11) f by (simp add: dir_ok_Some unbound_def)
  qed
  ultimately show ?thesis using f by (simp add: low_inv_alt [of _ _ _ LegA] calm_def)
qed

lemma attach_ok:
  assumes ok: "relay_ok base h st" "\<not> st_bound st" and io: "io_live io" "\<not> io_shut io"
    and r: "tm_stream_relay_attach_agent uv io st = Some st'"
  shows "relay_ok (base(LegA := if st_io st LegA = None then [] else base LegA, LegB := io_accepted io)) h st'"
    (is "relay_ok ?b h st'")
proof (cases "st_closing st")
  case True
  then show ?thesis using r by (simp add: tm_stream_relay_attach_agent_def relay_ok_def low_inv_def)
next
  case False
  obtain io' where io': "tm_io_set_cbs (Some io) True True = Some io'" "leg_as io io'"
    using io_set_cbs_live [OF io(1)] by (metis leg_as_def)
  obtain iob where iob: "tm_io_start (Some io') = Some iob" "leg_as io iob"
    using started_leg [of io'] io'(2) by (auto simp: leg_as_def)
  obtain ioa where ioa: "tm_io_start (Some (IoTcp (tm_io_tcp_new True True uv))) = Some ioa"
      "leg_as (IoTcp (tm_io_tcp_new True True uv)) ioa"
    using started_leg [of "IoTcp (tm_io_tcp_new True True uv)"] tcp_live_new by auto
  define s where "s = (let st1 = st\<lparr>st_sock := (st_sock st)(LegB := True), st_bound := True, st_bind_timer := False\<rparr> in
      set_io LegB (Some iob) (if st_io st LegA = None then set_io LegA (Some ioa) st1 else st1))"
  define m where "m = set_pend LegB (st_preq st) (st_preq_cap st) (s\<lparr>st_preq := [], st_preq_cap := 0\<rparr>)"
  have u: "unbound st" using ok False by (auto simp: relay_ok_def)
  have m: "low_inv ?b h m"
    using u by (intro attach_legs [OF ok(1) False ok(2) io, where iob = iob and uv = uv])
      (auto simp: m_def s_def Let_def unbound_def iob ioa)
  have s_simps: "st_preq s = st_preq st" "st_preq_cap s = st_preq_cap st" "st_bound s"
    by (simp_all add: s_def Let_def)
  have start: "tm_stream_relay_attach_agent uv io st =
      (case (if st_preq st \<noteq> [] then flush_pend (up3 LegB (UpError TM_ERR_IO)) LegB m else Some s) of
         None \<Rightarrow> None
       | Some st \<Rightarrow> Some (if st_pend st LegB \<noteq> []
           then set_io LegA (tm_io_pause_read (st_io st LegA)) (st\<lparr>st_paused := (st_paused st)(LegA := True)\<rparr>)
           else if st_paused st LegA
           then set_io LegA (tm_io_resume_read (st_io st LegA)) (st\<lparr>st_paused := (st_paused st)(LegA := False)\<rparr>)
           else st))"
    using False ok(2) io'(1) iob(1) ioa(1)
    by (cases "st_io st LegA"; cases "st_preq st = []")
      (simp_all add: tm_stream_relay_attach_agent_def tm_stream_relay_start_def m_def s_def Let_def)
  then obtain s5 where s5: "(if st_preq st \<noteq> [] then flush_pend (up3 LegB (UpError TM_ERR_IO)) LegB m else Some s) = Some s5"
    using r by (auto split: option.splits)
  have low: "low_inv ?b h s5 \<and> st_bound s5"
  proof (cases "st_preq st = []")
    case True
    have "st_pend s LegB = [] \<and> st_closing m = st_closing s" using u by (simp add: s_def m_def Let_def unbound_def)
    then have "low_inv ?b h s"
      using m True s_simps by (subst low_inv_cong [of s m]) (auto simp: m_def fun_upd_idem)
    then show ?thesis using s5 True s_simps by simp
  next
    case no: False
    have "\<not> st_closing m" using False by (simp add: m_def s_def Let_def)
    then show ?thesis
      using flush_ok [OF relay_up_ok m, of 3 LegB TM_ERR_IO s5] s5 no s_simps by (simp add: keeps_flags_def m_def)
  qed
  then show ?thesis
    using r start s5 read_op_ok [OF _ read_ops(1), where st = s5 and l = LegA]
      read_op_ok [OF _ read_ops(2), where st = s5 and l = LegA]
    by (auto simp: relay_ok_def split: if_splits)
qed

lemma stream_new_ok:
  "relay_ok (\<lambda>_. []) (\<lambda>_. []) (stream_new sid None now)"
  "io_live io \<Longrightarrow> \<not> io_shut io \<Longrightarrow> relay_ok ((\<lambda>_. [])(LegA := io_accepted io)) (\<lambda>_. [])
     (stream_new sid (tm_io_set_cbs (Some io) True True) now)"
proof -
  show "relay_ok (\<lambda>_. []) (\<lambda>_. []) (stream_new sid None now)"
    by (simp add: relay_ok_def low_inv_alt [of _ _ _ LegA] dir_ok_def calm_def unbound_def stream_new_def)
  assume "io_live io" "\<not> io_shut io"
  then obtain io' where "tm_io_set_cbs (Some io) True True = Some io'" "io_live io'" "io_accepted io' = io_accepted io" "\<not> io_shut io'"
    using io_set_cbs_live by metis
  then show "relay_ok ((\<lambda>_. [])(LegA := io_accepted io)) (\<lambda>_. []) (stream_new sid (tm_io_set_cbs (Some io) True True) now)"
    by (simp add: relay_ok_def low_inv_alt [of _ _ _ LegA] dir_ok_def calm_def unbound_def stream_new_def)
qed

lemma timeout_ok: "relay_ok base h st \<Longrightarrow> relay_ok base h (stream_bind_timer_cb st)"
  by (simp add: stream_bind_timer_cb_def tm_stream_close_def relay_ok_def low_inv_def)

lemma relay_reach_ok: "relay_reach base h st \<Longrightarrow> relay_ok base h st"
proof (induction rule: relay_reach.induct)
  case (peer_opened io sid now)
  then show ?case by (rule stream_new_ok(2))
next
  case (attached base h st io uv st')
  show ?case by (rule attach_ok [OF attached.IH attached.hyps(4,2,3,5)])
next
  case (a_read base h st d st')
  show ?case by (rule a_read_ok [OF a_read.IH a_read.hyps(3,4)])
next
  case (b_read base h st d st')
  show ?case by (rule b_read_ok [OF b_read.IH b_read.hyps(2,3,4)])
next
  case (a_eof base h st st')
  show ?case by (rule relay_eof_ok [OF a_eof.IH a_eof.hyps(2)]) (use a_eof.hyps(3) in \<open>simp add: relay_a_eof_def\<close>)
next
  case (b_eof base h st st')
  show ?case by (rule relay_eof_ok [OF b_eof.IH b_eof.hyps(2)]) (use b_eof.hyps(3) in \<open>simp add: relay_b_eof_def\<close>)
next
  case (a_error base h st st')
  show ?case by (rule relay_error_body_ok [OF a_error.IH a_error.hyps(2)]) (use a_error.hyps(3) in \<open>simp add: relay_a_error_def\<close>)
next
  case (b_error base h st st')
  show ?case by (rule relay_error_body_ok [OF b_error.IH b_error.hyps(2)]) (use b_error.hyps(3) in \<open>simp add: relay_b_error_def\<close>)
next
  case (written base h st l io status st')
  show ?case by (rule written_ok [OF written.IH written.hyps(2,3,4)])
qed (simp_all add: stream_new_ok timeout_ok)

lemma relay_ok_leg:
  assumes "relay_ok base h st" "\<not> st_closing st" "st_io st (other l) = Some io"
  shows "io_live io \<and> io_accepted io @ st_pend st (other l) = base (other l) @ h l \<and>
    (io_shut io \<longrightarrow> st_eof st l \<and> st_pend st (other l) = [])"
proof -
  have "dir_ok base h st l" using assms(1,2) by (simp add: relay_ok_def low_inv_def)
  then show ?thesis using assms(3) by (auto simp: dir_ok_Some)
qed

text \<open>
  (C1) The relay keeps both byte streams intact: in every life of a stream, whatever the transports,
  libuv and OpenSSL do and however their callbacks nest, what an open leg has accepted followed by what is
  queued for it is exactly what the other leg has delivered, in order, without loss, duplication
  or insertion; what it has put on the wire is a prefix of that; and it is half-closed only after the
  other side has ended and every byte of it has been accepted.
\<close>

theorem relay_integrity:
  assumes "relay_reach base h st" "\<not> st_closing st" "st_io st (other l) = Some io"
  shows "io_accepted io @ st_pend st (other l) = base (other l) @ h l \<and>
    (\<exists>q. base (other l) @ h l = io_sent io @ q) \<and>
    (io_shut io \<longrightarrow> st_eof st l \<and> io_accepted io = base (other l) @ h l)"
proof -
  from relay_ok_leg [OF relay_reach_ok [OF assms(1)] assms(2,3)]
  have 1: "io_live io" and 2: "io_accepted io @ st_pend st (other l) = base (other l) @ h l"
    and 3: "io_shut io \<Longrightarrow> st_eof st l \<and> st_pend st (other l) = []" by blast+
  obtain q where "io_accepted io = io_sent io @ q" using io_disp.sent_prefix [OF 1] by blast
  then have "base (other l) @ h l = io_sent io @ (q @ st_pend st (other l))" using 2 by simp
  then show ?thesis using 2 3 by force
qed


section \<open>Examples\<close>

definition demo_leg :: tm_io where
  "demo_leg = IoSsl \<lparr>is_low_cb = True, is_error_cb = True, is_closed = False, is_ssl = demo_ssl\<rparr>"

definition demo_bound :: tm_stream where
  "demo_bound = the (tm_stream_relay_attach_agent [] demo_leg (stream_new 1 None 0))"

lemma demo_bound: "tm_stream_relay_attach_agent [] demo_leg (stream_new 1 None 0) = Some demo_bound"
  by (simp add: demo_bound_def tm_stream_relay_attach_agent_def tm_stream_relay_start_def stream_new_def Let_def)

lemma demo_bound_read: "\<exists>st. relay_a_read [7, 8, 9] demo_bound = Some st \<and> \<not> st_closing st \<and> st_io st LegB \<noteq> None"
  by (simp add: demo_bound_def tm_stream_relay_attach_agent_def tm_stream_relay_start_def stream_new_def Let_def
      demo_leg_def tm_io_set_cbs_def tm_io_start_def relay_a_read_def relay_forward_def tm_io_write_def io_write_def
      ssl_write_def ssl_ups_def tm_ssl_stream_start_def
      tm_ssl_stream_write_def ssl_enqueue_def pump_write_def pump_write_loop.simps bio_read_def
      ssl_write_call_def ssl_take_def ssl_wrap_def ssl_write_len_def demo_ssl_def
      promote_open_def tm_ssl_stream_new_def TM_PQ_HIGH_def TM_PQ_LOW_def grow_cap.simps)

theorem relay_integrity_witness:
  "\<exists>st io. relay_reach (\<lambda>_. []) ((\<lambda>_. [])(LegA := [7, 8, 9])) st \<and> st_io st LegB = Some io \<and>
     io_accepted io @ st_pend st LegB = [7, 8, 9]"
proof -
  have leg: "io_live demo_leg" "\<not> io_shut demo_leg" "io_accepted demo_leg = []"
    by (simp_all add: demo_leg_def demo_ssl_def promote_open_def tm_ssl_stream_new_def ssl_live_def ssl_inv_def ssl_accepted_def)
  have "relay_reach ((\<lambda>_. [])(LegA := [], LegB := [])) (\<lambda>_. []) demo_bound"
    using relay_reach.attached [OF relay_reach.opened leg(1,2) _ demo_bound] leg(3) by (simp add: stream_new_def)
  moreover have "st_io demo_bound LegA \<noteq> None" "\<not> st_eof demo_bound LegA"
    by (simp_all add: demo_bound_def tm_stream_relay_attach_agent_def tm_stream_relay_start_def stream_new_def Let_def
        tm_io_start_def)
  moreover obtain st io where st: "relay_a_read [7, 8, 9] demo_bound = Some st" "\<not> st_closing st" "st_io st LegB = Some io"
    using demo_bound_read by auto
  ultimately have r: "relay_reach (\<lambda>_. []) ((\<lambda>_. [])(LegA := [7, 8, 9])) st"
    using relay_reach.a_read [of "\<lambda>_. []" "\<lambda>_. []" demo_bound "[7, 8, 9]" st] by (simp add: fun_upd_idem)
  then show ?thesis using relay_integrity [OF r st(2), of LegA io] st(3) by auto
qed

definition demo_ended :: tm_stream where
  "demo_ended = (stream_new 1 None 0)\<lparr>st_bound := True, st_eof := \<lambda>_. True,
     st_io := [LegA \<mapsto> IoTcp ((tm_io_tcp_new True True [])\<lparr>tc_sent := [7, 8]\<rparr>)]\<rparr>"


end
