(* ===== verification/CliRelay.thy ===== *)
theory CliRelay
  imports RelayInv Frame
begin

text \<open>
  The relay of the client programs: \<open>agent/src/tcp.c\<close> pairs a data connection with the local service,
  \<open>peer/src/tcp.c\<close> a broker connection with a local consumer. The two files share their relay code
  word for word, so it is modelled once, on a record that \<open>tm_astream\<close> and \<open>tm_psess\<close> extend. Fields the C
  structs have once per side are functions of the side: \<open>cs_io Local\<close> is \<open>local_io\<close>, \<open>cs_fin Local\<close> is
  \<open>local_fin\<close> (a FIN has been sent to the local side), \<open>cs_queue Local\<close> is \<open>pending_buf\<close> and
  \<open>cs_queue Broker\<close> is \<open>pend_buf\<close>.

  Unlike the broker, a client closes the whole stream on any transport error. Closing frees both
  queues but leaves the pointers; the result \<open>None\<close> is the access to freed memory that follows.
\<close>

section \<open>State\<close>

datatype side = Local | Broker

fun opp :: "side \<Rightarrow> side" where
  "opp Local = Broker"
| "opp Broker = Local"

record cstream =
  cs_io :: "side \<Rightarrow> tm_io option"
  cs_fr :: "tm_frame_reader option"
  cs_bound :: bool
  cs_eof :: "side \<Rightarrow> bool"
  cs_paused :: "side \<Rightarrow> bool"
  cs_fin :: "side \<Rightarrow> bool"
  cs_flushing :: "side \<Rightarrow> bool"
  cs_closing :: bool
  cs_connecting :: bool
  cs_closing_refs :: nat
  cs_queue :: "side \<Rightarrow> bytes"
  cs_cap :: "side \<Rightarrow> nat"
  cs_timer :: bool

record tm_astream = cstream +
  as_sid :: u32
  as_created_ms :: u64
  as_up_bytes :: u64
  as_down_bytes :: u64

record tm_psess = cstream +
  ps_got_hello :: bool

abbreviation cs_set_io :: "side \<Rightarrow> tm_io option \<Rightarrow> 'a cstream_scheme \<Rightarrow> 'a cstream_scheme" where
  "cs_set_io l io st \<equiv> st\<lparr>cs_io := (cs_io st)(l := io)\<rparr>"

abbreviation cs_set_queue :: "side \<Rightarrow> bytes \<Rightarrow> nat \<Rightarrow> 'a cstream_scheme \<Rightarrow> 'a cstream_scheme" where
  "cs_set_queue l q c st \<equiv> st\<lparr>cs_queue := (cs_queue st)(l := q), cs_cap := (cs_cap st)(l := c)\<rparr>"

section \<open>Closing\<close>

text \<open>\<open>tm_astream_close\<close> and \<open>tm_psess_close\<close>, without the unlinking from the owner's list.\<close>

definition cs_close :: "'a cstream_scheme \<Rightarrow> 'a cstream_scheme" where
  "cs_close st =
     (if cs_closing st then st
      else st\<lparr>cs_closing := True, cs_timer := False, cs_io := (\<lambda>_. None), cs_fr := None,
              cs_closing_refs := 3\<rparr>)"

definition cs_maybe_close :: "'a cstream_scheme \<Rightarrow> 'a cstream_scheme" where
  "cs_maybe_close st =
     (if cs_closing st \<or> \<not> cs_eof st Local \<or> \<not> cs_eof st Broker then st
      else if cs_io st Local \<noteq> None \<and> \<not> tm_io_drained (cs_io st Local) then st
      else if cs_io st Broker \<noteq> None \<and> \<not> tm_io_drained (cs_io st Broker) then st
      else if cs_queue st Local \<noteq> [] \<or> cs_queue st Broker \<noteq> [] then st
      else cs_close st)"

text \<open>The close callback of one of the three handles; \<open>None\<close> once the last one has freed the stream.\<close>

definition cs_sock_closed :: "'a cstream_scheme \<Rightarrow> 'a cstream_scheme option" where
  "cs_sock_closed st =
     (let st = st\<lparr>cs_closing_refs := cs_closing_refs st - 1\<rparr>
      in if cs_closing_refs st = 0 then None else Some st)"

section \<open>Queues and callbacks\<close>

definition cs_append :: "side \<Rightarrow> bytes \<Rightarrow> 'a cstream_scheme \<Rightarrow> 'a cstream_scheme" where
  "cs_append l data st =
     cs_set_queue l (cs_queue st l @ data)
       (next_cap 16384 (cs_cap st l) (length (cs_queue st l) + length data)) st"

text \<open>
  \<open>flush_pend\<close> on the queue of side \<open>l\<close>. An error callback from inside a write closes the stream and
  frees the queue, which the loop then moves and frees again.
\<close>

definition cs_flush :: "side \<Rightarrow> 'a cstream_scheme \<Rightarrow> 'a cstream_scheme option" where
  "cs_flush l st =
     (if cs_flushing st l \<or> cs_queue st l = [] then Some st
      else case cs_io st l of
        None \<Rightarrow> Some (cs_set_queue l [] 0 st)
      | Some io \<Rightarrow>
          (case flush_loop io_write io (cs_queue st l) of
             FlDone io' rest _ \<Rightarrow>
               Some (cs_set_io l (Some io') (cs_set_queue l rest (if rest = [] then 0 else cs_cap st l) st))
           | FlError _ _ _ \<Rightarrow> None))"

fun cs_ups :: "(upcall \<Rightarrow> 'a cstream_scheme \<Rightarrow> 'a cstream_scheme option) \<Rightarrow> upcall list \<Rightarrow>
    'a cstream_scheme \<Rightarrow> 'a cstream_scheme option" where
  "cs_ups up [] st = Some st"
| "cs_ups up (u # us) st = (case up u st of None \<Rightarrow> None | Some st' \<Rightarrow> cs_ups up us st')"

definition cs_shutdown ::
    "(side \<Rightarrow> upcall \<Rightarrow> 'a cstream_scheme \<Rightarrow> 'a cstream_scheme option) \<Rightarrow> side \<Rightarrow> 'a cstream_scheme \<Rightarrow>
     'a cstream_scheme option" where
  "cs_shutdown up l st =
     (case tm_io_shutdown_send (cs_io st l) of (io, ups) \<Rightarrow> cs_ups (up l) ups (cs_set_io l io st))"

text \<open>\<open>relay_broker_low\<close> and \<open>relay_local_low\<close>.\<close>

definition cs_low ::
    "(side \<Rightarrow> upcall \<Rightarrow> 'a cstream_scheme \<Rightarrow> 'a cstream_scheme option) \<Rightarrow> side \<Rightarrow> 'a cstream_scheme \<Rightarrow>
     'a cstream_scheme option" where
  "cs_low up l st =
     (if cs_closing st then Some st
      else case cs_flush l st of
        None \<Rightarrow> None
      | Some st \<Rightarrow>
          if cs_queue st l \<noteq> [] then Some (cs_maybe_close st)
          else
            (case (if cs_eof st (opp l) \<and> \<not> cs_fin st l
                   then cs_shutdown up l (st\<lparr>cs_fin := (cs_fin st)(l := True)\<rparr>)
                   else Some st) of
               None \<Rightarrow> None
             | Some st \<Rightarrow>
                 Some (cs_maybe_close
                   (if cs_paused st (opp l)
                    then cs_set_io (opp l) (tm_io_resume_read (cs_io st (opp l)))
                           (st\<lparr>cs_paused := (cs_paused st)(opp l := False)\<rparr>)
                    else st))))"

text \<open>
  The callbacks of a leg: \<open>relay_broker_low\<close>, \<open>relay_local_low\<close>, and the error callbacks, which close the
  stream. The depth of nested callbacks is at most 2 (\<open>cs_up_depth\<close>).
\<close>

fun cs_up :: "nat \<Rightarrow> side \<Rightarrow> upcall \<Rightarrow> 'a cstream_scheme \<Rightarrow> 'a cstream_scheme option" where
  "cs_up 0 l u st = None"
| "cs_up (Suc n) l UpLow st = cs_low (cs_up n) l st"
| "cs_up (Suc n) l (UpError e) st = Some (cs_close st)"

abbreviation cs_up2 :: "side \<Rightarrow> upcall \<Rightarrow> 'a cstream_scheme \<Rightarrow> 'a cstream_scheme option" where
  "cs_up2 \<equiv> cs_up 2"

section \<open>Handlers\<close>

text \<open>The common end of the two end-of-file handlers: the other side's stream towards \<open>l\<close> has ended.\<close>

definition cs_pass_end :: "side \<Rightarrow> 'a cstream_scheme \<Rightarrow> 'a cstream_scheme option" where
  "cs_pass_end l st =
     (if cs_queue st l \<noteq> [] then Some (cs_maybe_close st)
      else map_option cs_maybe_close (cs_shutdown cs_up2 l (st\<lparr>cs_fin := (cs_fin st)(l := True)\<rparr>)))"

definition relay_broker_eof :: "'a cstream_scheme \<Rightarrow> 'a cstream_scheme option" where
  "relay_broker_eof st =
     (if cs_closing st then Some st
      else
        let st = st\<lparr>cs_eof := (cs_eof st)(Broker := True)\<rparr> in
        if cs_io st Local = None then Some st
        else do { st \<leftarrow> cs_flush Local st; st \<leftarrow> cs_flush Broker st; cs_pass_end Local st })"

definition relay_local_eof :: "'a cstream_scheme \<Rightarrow> 'a cstream_scheme option" where
  "relay_local_eof st =
     (if cs_closing st then Some st
      else
        let st = st\<lparr>cs_eof := (cs_eof st)(Local := True)\<rparr> in
        do { st \<leftarrow> cs_flush Broker st; cs_pass_end Broker st })"

text \<open>A chunk from side \<open>l\<close>, behind whatever is already queued for the other side.\<close>

definition cs_forward :: "side \<Rightarrow> bytes \<Rightarrow> 'a cstream_scheme \<Rightarrow> 'a cstream_scheme option" where
  "cs_forward l data st =
     (let o' = opp l;
          (r, io, ups) = (if cs_queue st o' \<noteq> [] then (TM_ERR_BUSY, cs_io st o', [])
                          else tm_io_write (cs_io st o') data)
      in case cs_ups (cs_up2 o') ups (cs_set_io o' io st) of
           None \<Rightarrow> None
         | Some st \<Rightarrow>
             if r = TM_ERR_BUSY then
               let st = cs_append o' data st
               in Some (cs_set_io l (tm_io_pause_read (cs_io st l))
                          (st\<lparr>cs_paused := (cs_paused st)(l := True)\<rparr>))
             else if r \<noteq> TM_OK then Some (cs_close st)
             else Some st)"

text \<open>The agent's \<open>relay_broker_read\<close> and \<open>relay_local_read\<close>.\<close>

definition agent_broker_read :: "bytes \<Rightarrow> tm_astream \<Rightarrow> tm_astream option" where
  "agent_broker_read data st =
     (if cs_closing st then Some st
      else
        let st = st\<lparr>as_up_bytes := as_up_bytes st + of_nat (length data)\<rparr> in
        if cs_io st Local = None then
          if TM_IO_HIGH_WATER + 65536 < length (cs_queue st Local) + length data then Some (cs_close st)
          else
            let st = cs_append Local data st
            in Some (if TM_IO_HIGH_WATER \<le> length (cs_queue st Local)
                     then cs_set_io Broker (tm_io_pause_read (cs_io st Broker))
                            (st\<lparr>cs_paused := (cs_paused st)(Broker := True)\<rparr>)
                     else st)
        else cs_forward Broker data st)"

definition agent_local_read :: "bytes \<Rightarrow> tm_astream \<Rightarrow> tm_astream option" where
  "agent_local_read data st =
     (if cs_closing st then Some st
      else cs_forward Local data (st\<lparr>as_down_bytes := as_down_bytes st + of_nat (length data)\<rparr>))"

text \<open>The peer's \<open>relay_broker_read\<close> and \<open>relay_local_read\<close>.\<close>

definition peer_broker_read :: "bytes \<Rightarrow> tm_psess \<Rightarrow> tm_psess option" where
  "peer_broker_read data st =
     (if cs_closing st then Some st
      else if cs_io st Local = None then
        Some (if TM_IO_HIGH_WATER < length (cs_queue st Local) + length data then cs_close st
              else cs_append Local data st)
      else cs_forward Broker data st)"

definition peer_local_read :: "bytes \<Rightarrow> tm_psess \<Rightarrow> tm_psess option" where
  "peer_local_read data st = (if cs_closing st then Some st else cs_forward Local data st)"

text \<open>
  \<open>local_connected\<close> of the agent with a working connection: the local leg is created and what has arrived
  meanwhile is delivered. \<open>uv\<close> are the answers libuv will give the new leg.
\<close>

definition agent_local_connected :: "bool list \<Rightarrow> tm_astream \<Rightarrow> tm_astream option" where
  "agent_local_connected uv st =
     (let st = st\<lparr>cs_connecting := False\<rparr> in
      if cs_closing st then Some st
      else
        let st = st\<lparr>cs_timer := False, cs_bound := True\<rparr>;
            st = cs_set_io Local (tm_io_start (Some (IoTcp (tm_io_tcp_new True True uv)))) st;
            st = cs_set_io Broker (tm_io_start (cs_io st Broker)) st
        in do {
          st \<leftarrow> cs_flush Local st;
          let st = (if cs_queue st Local \<noteq> []
                    then cs_set_io Broker (tm_io_pause_read (cs_io st Broker))
                           (st\<lparr>cs_paused := (cs_paused st)(Broker := True)\<rparr>)
                    else if cs_paused st Broker
                    then cs_set_io Broker (tm_io_resume_read (cs_io st Broker))
                           (st\<lparr>cs_paused := (cs_paused st)(Broker := False)\<rparr>)
                    else st);
          if cs_eof st Broker
          then do { st \<leftarrow> cs_shutdown cs_up2 Local st;
                    Some (if cs_eof st Local then cs_close st else st) }
          else Some st })"

section \<open>The start of a relay\<close>

definition cstream_new :: cstream where
  "cstream_new =
     \<lparr>cs_io = (\<lambda>_. None), cs_fr = Some tm_frame_reader_new, cs_bound = False, cs_eof = (\<lambda>_. False),
      cs_paused = (\<lambda>_. False), cs_fin = (\<lambda>_. False), cs_flushing = (\<lambda>_. False), cs_closing = False,
      cs_connecting = False, cs_closing_refs = 0, cs_queue = (\<lambda>_. []), cs_cap = (\<lambda>_. 0), cs_timer = False\<rparr>"

definition astream_new :: "u32 \<Rightarrow> u64 \<Rightarrow> tm_astream" where
  "astream_new sid now =
     cstream.extend cstream_new
       (tm_astream.fields sid now 0 0)"

definition psess_new :: tm_psess where
  "psess_new = cstream.extend cstream_new (tm_psess.fields False)"

text \<open>
  \<open>DATA_BIND_OK\<close> on the agent's data connection: the bytes behind the frame are kept and the connection
  to the local service is started.
\<close>

definition agent_bind_ok :: "bytes \<Rightarrow> tm_astream \<Rightarrow> tm_astream" where
  "agent_bind_ok lo st =
     cs_set_io Broker (tm_io_set_cbs (cs_io st Broker) True True)
       (st\<lparr>cs_queue := (cs_queue st)(Local := lo), cs_connecting := True\<rparr>)"

text \<open>
  \<open>DATA_BIND_OK\<close> on the peer's connection. The result of the write is ignored; if the write fails at
  once, the error callback has closed the session and freed the buffer that is freed again here.
\<close>

definition peer_bind_ok :: "bool list \<Rightarrow> bytes \<Rightarrow> tm_psess \<Rightarrow> tm_psess option" where
  "peer_bind_ok uv lo st =
     (let st = st\<lparr>cs_queue := (cs_queue st)(Local := lo), cs_bound := True, cs_timer := False\<rparr>;
          st = cs_set_io Broker (tm_io_set_cbs (cs_io st Broker) True True) st;
          st = cs_set_io Local (tm_io_start (Some (IoTcp (tm_io_tcp_new True True uv)))) st
      in if lo = [] then Some st
         else
           let (r, io, ups) = tm_io_write (cs_io st Local) lo
           in if up_error ups then None
              else Some (cs_set_io Local io (st\<lparr>cs_queue := (cs_queue st)(Local := [])\<rparr>)))"

section \<open>Completed writes\<close>

text \<open>A completed write on side \<open>l\<close>, as in the broker's relay.\<close>

definition cs_tcp_done_tail :: "side \<Rightarrow> tm_io_tcp \<Rightarrow> 'a cstream_scheme \<Rightarrow> 'a cstream_scheme option" where
  "cs_tcp_done_tail l t2 st =
     (case tcp_write_done_tail t2 of (t3, ups3) \<Rightarrow>
        (case cs_ups (cs_up2 l) ups3 (cs_set_io l (Some (IoTcp t3)) st) of
           None \<Rightarrow> None
         | Some st \<Rightarrow>
             if tc_wreq_pending t3 \<or> up_error ups3 then Some st
             else (case cs_io st l of
                 Some (IoTcp t4) \<Rightarrow> Some (cs_set_io l (Some (IoTcp (tcp_pump_tail t4))) st)
               | _ \<Rightarrow> None)))"

definition cs_ssl_done_tail :: "side \<Rightarrow> bool \<Rightarrow> 'a cstream_scheme \<Rightarrow> 'a cstream_scheme option" where
  "cs_ssl_done_tail l failed st =
     (case cs_io st l of
        Some (IoSsl t2) \<Rightarrow>
          (case ssl_ups t2 (on_write_done_tail (is_ssl t2)) of (t3, ups3) \<Rightarrow>
             cs_ups (cs_up2 l) ups3 (cs_set_io l (Some (IoSsl t3)) st))
      | _ \<Rightarrow> if failed then Some st else None)"

definition cs_write_done :: "side \<Rightarrow> uv_status \<Rightarrow> 'a cstream_scheme \<Rightarrow> 'a cstream_scheme option" where
  "cs_write_done l status st =
     (case cs_io st l of
        None \<Rightarrow> Some st
      | Some (IoTcp t) \<Rightarrow>
          (case tcp_write_done t status of
             None \<Rightarrow> Some st
           | Some (t1, ups, cont) \<Rightarrow>
               (case cs_ups (cs_up2 l) ups (cs_set_io l (Some (IoTcp t1)) st) of
                  None \<Rightarrow> None
                | Some st \<Rightarrow>
                    if \<not> cont then Some st
                    else (case cs_io st l of Some (IoTcp t2) \<Rightarrow> cs_tcp_done_tail l t2 st | _ \<Rightarrow> None)))
      | Some (IoSsl t) \<Rightarrow>
          (case on_write_done (is_ssl t) status of
             None \<Rightarrow> Some st
           | Some (s1, ups, cont) \<Rightarrow>
               (case ssl_ups t (s1, ups) of (t1, ups1) \<Rightarrow>
                 (case cs_ups (cs_up2 l) ups1 (cs_set_io l (Some (IoSsl t1)) st) of
                    None \<Rightarrow> None
                  | Some st \<Rightarrow> if \<not> cont then Some st else cs_ssl_done_tail l (up_error ups1) st))))"

end
