(* ===== verification/CliRelayInv.thy ===== *)
theory CliRelayInv
  imports CliRelay
begin

text \<open>
  The clients' relay keeps the byte streams intact. \<open>h l\<close> is what side \<open>l\<close> has delivered to the relay
  and \<open>base l\<close> what the leg of side \<open>l\<close> had accepted before (the frames of the handshake). The leg lemmas of
  theory \<open>RelayInv\<close> are used as they are; since an error closes the whole stream, the callbacks need
  only one invariant.
\<close>

lemma opp_opp [simp]: "opp (opp l) = l"
  by (cases l) simp_all

lemma opp_neq [simp]: "opp l \<noteq> l" "l \<noteq> opp l"
  by (cases l; simp)+

lemma side_all: "(\<forall>l. P l) \<longleftrightarrow> P k \<and> P (opp k)"
  by (cases k) (metis side.exhaust opp.simps)+

section \<open>Callbacks inside a flush, and their depth\<close>

lemma cs_maybe_close_queued: "cs_queue st l \<noteq> [] \<Longrightarrow> cs_maybe_close st = st"
  by (cases l) (auto simp: cs_maybe_close_def)

text \<open>A low-water callback made from inside \<open>flush_pend\<close> has no effect.\<close>

lemma cs_low_nested: "cs_flushing st l \<Longrightarrow> cs_queue st l \<noteq> [] \<Longrightarrow> cs_low up l st = Some st"
  by (simp add: cs_low_def cs_flush_def cs_maybe_close_queued)

lemma cs_low_after_fin: "cs_queue st l = [] \<Longrightarrow> cs_fin st l \<Longrightarrow> cs_low up l st = cs_low up' l st"
  by (simp add: cs_low_def cs_flush_def)

lemma cs_shutdown_cong:
  assumes "\<And>u st'. cs_queue st' = cs_queue st \<Longrightarrow> cs_fin st' = cs_fin st \<Longrightarrow> up l u st' = up' l u st'"
  shows "cs_shutdown up l st = cs_shutdown up' l st"
proof -
  obtain io ups where s: "tm_io_shutdown_send (cs_io st l) = (io, ups)"
    by (cases "tm_io_shutdown_send (cs_io st l)")
  from shutdown_one [OF s] show ?thesis
    using assms [of "cs_set_io l io st"] by (auto simp: cs_shutdown_def s split: option.split)
qed

lemma cs_up_depth:
  fixes st :: "'a cstream_scheme"
  shows "cs_up (Suc (Suc n)) l u st = cs_up2 l u st"
proof (cases u)
  case UpLow
  have "cs_shutdown (cs_up (Suc n)) l (s\<lparr>cs_fin := (cs_fin s)(l := True)\<rparr>) =
      cs_shutdown (cs_up (Suc 0)) l (s\<lparr>cs_fin := (cs_fin s)(l := True)\<rparr>)" if "cs_queue s l = []" for s :: "'a cstream_scheme"
  proof (rule cs_shutdown_cong)
    fix u st'
    assume "cs_queue st' = cs_queue (s\<lparr>cs_fin := (cs_fin s)(l := True)\<rparr>)"
      "cs_fin st' = cs_fin (s\<lparr>cs_fin := (cs_fin s)(l := True)\<rparr>)"
    with that show "cs_up (Suc n) l u st' = cs_up (Suc 0) l u st'"
      by (cases u) (simp_all add: cs_low_after_fin [of st' l "cs_up n" "cs_up 0"])
  qed
  then show ?thesis
    using UpLow by (auto simp: numeral_2_eq_2 cs_low_def split: option.split)
qed (simp add: numeral_2_eq_2)

section \<open>The invariant\<close>

text \<open>The direction from \<open>l\<close> to the other side.\<close>

definition cdir :: "(side \<Rightarrow> bytes) \<Rightarrow> (side \<Rightarrow> bytes) \<Rightarrow> 'a cstream_scheme \<Rightarrow> side \<Rightarrow> bool" where
  "cdir base h st l \<longleftrightarrow>
     (case cs_io st (opp l) of
        Some io \<Rightarrow>
          io_live io \<and> io_accepted io @ cs_queue st (opp l) = base (opp l) @ h l \<and>
          (io_shut io \<longrightarrow> cs_eof st l \<and> cs_queue st (opp l) = [])
      | None \<Rightarrow> l = Broker \<and> base (opp l) = [] \<and> cs_queue st (opp l) = h l) \<and>
     (cs_fin st (opp l) \<longrightarrow> cs_eof st l \<and> cs_queue st (opp l) = [])"

definition cs_inv :: "(side \<Rightarrow> bytes) \<Rightarrow> (side \<Rightarrow> bytes) \<Rightarrow> 'a cstream_scheme \<Rightarrow> bool" where
  "cs_inv base h st \<longleftrightarrow>
     (if cs_closing st then cs_io st = (\<lambda>_. None)
      else \<forall>l. cdir base h st l \<and> \<not> cs_flushing st l)"

lemma cs_inv_alt:
  "\<not> cs_closing st \<Longrightarrow> cs_inv base h st \<longleftrightarrow>
     cdir base h st k \<and> \<not> cs_flushing st k \<and> cdir base h st (opp k) \<and> \<not> cs_flushing st (opp k)"
  unfolding cs_inv_def side_all [of _ k] by auto

lemma cdir_Some: "cs_io st (opp l) = Some io \<Longrightarrow> cdir base h st l \<longleftrightarrow>
    io_live io \<and> io_accepted io @ cs_queue st (opp l) = base (opp l) @ h l \<and>
    (io_shut io \<or> cs_fin st (opp l) \<longrightarrow> cs_eof st l \<and> cs_queue st (opp l) = [])"
  by (auto simp: cdir_def)

lemma cdir_cong:
  assumes "cs_io st' (opp l) = cs_io st (opp l)" "cs_queue st' (opp l) = cs_queue st (opp l)"
    "cs_fin st' (opp l) = cs_fin st (opp l)" "cs_eof st' l = cs_eof st l"
  shows "cdir base h st' l = cdir base h st l"
  by (simp only: cdir_def assms)

lemma cdir_hist: "h' l = h l \<Longrightarrow> cdir base h' st l = cdir base h st l"
  by (simp only: cdir_def)

lemma cs_inv_close [simp]: "cs_inv base h st \<Longrightarrow> cs_inv base h (cs_close st)" "\<not> cs_closing st \<Longrightarrow> cs_inv base h (cs_close st)"
  by (simp_all add: cs_inv_def cs_close_def)

lemma cs_inv_maybe_close [simp]: "cs_inv base h st \<Longrightarrow> cs_inv base h (cs_maybe_close st)"
  by (simp add: cs_maybe_close_def)

lemma cs_live_leg: "cs_inv base h st \<Longrightarrow> cs_io st l = Some i \<Longrightarrow> io_live i \<and> \<not> cs_closing st"
  using cdir_Some [of st "opp l" i base h] by (cases "cs_closing st") (auto simp: cs_inv_def)

lemma cs_inv_cong:
  assumes "cs_closing st' = cs_closing st" "cs_io st' = cs_io st" "cs_queue st' = cs_queue st" "cs_fin st' = cs_fin st"
    "cs_eof st' = cs_eof st" "cs_flushing st' = cs_flushing st"
  shows "cs_inv base h st' = cs_inv base h st"
  by (simp only: cs_inv_def cdir_def assms)

lemma cs_inv_frame [simp]:
  "cs_inv base h (st\<lparr>cs_paused := p\<rparr>) = cs_inv base h st" "cs_inv base h (st\<lparr>cs_timer := t\<rparr>) = cs_inv base h st"
  "cs_inv base h (st\<lparr>cs_bound := t\<rparr>) = cs_inv base h st" "cs_inv base h (st\<lparr>cs_connecting := t\<rparr>) = cs_inv base h st"
  "cs_inv base h (st\<lparr>cs_fr := r\<rparr>) = cs_inv base h st"
  by (rule cs_inv_cong; simp)+

text \<open>A leg may be replaced by one with the same write side.\<close>

lemma cs_inv_leg:
  assumes "cs_inv base h st" "cs_io st l = Some i" "leg_as i i'"
  shows "cs_inv base h (cs_set_io l (Some i') st)"
proof -
  let ?s = "cs_set_io l (Some i') st"
  have c: "\<not> cs_closing st" using cs_live_leg [OF assms(1,2)] by simp
  have d: "cdir base h st l" "cdir base h st (opp l)" "\<not> cs_flushing st l" "\<not> cs_flushing st (opp l)"
    using assms(1) c by (simp_all add: cs_inv_alt [of st _ _ l])
  have "cdir base h ?s (opp l)" using d(2) assms(2,3) by (simp add: cdir_Some leg_as_def)
  moreover have "cdir base h ?s l" using d(1) cdir_cong [of ?s l st] by simp
  ultimately show ?thesis using c d(3,4) by (simp add: cs_inv_alt [of _ _ _ l])
qed

lemma cs_read_op_ok:
  assumes "cs_inv base h st" "read_op (cs_io st l) io"
  shows "cs_inv base h (cs_set_io l io (st\<lparr>cs_paused := p\<rparr>))"
proof (cases "cs_io st l")
  case None
  then have "io = None" using assms(2) by (simp add: read_op_def)
  then have "cs_set_io l io st = st" using None by (simp add: fun_upd_idem)
  then show ?thesis using assms(1) by (subst cs_inv_cong [of _ st]) (use None in \<open>auto simp: \<open>io = None\<close>\<close>)
next
  case (Some i)
  then obtain i' where i': "io = Some i'" "leg_as i i'"
    using assms cs_live_leg [OF assms(1) Some] by (auto simp: read_op_def io_write_same_def leg_as_def)
  from cs_inv_leg [OF assms(1) Some i'(2)] show ?thesis
    unfolding i'(1) by (subst cs_inv_cong [of _ "cs_set_io l (Some i') st"]) simp_all
qed

section \<open>The handlers keep the invariant\<close>

lemma cs_flush_ok:
  assumes inv: "cs_inv base h st" and io: "cs_io st l \<noteq> None \<or> cs_queue st l = []" and f: "cs_flush l st = Some st'"
  shows "cs_inv base h st' \<and> cs_closing st' = cs_closing st \<and> cs_eof st' = cs_eof st \<and> cs_fin st' = cs_fin st \<and>
    (\<forall>k. cs_io st' k = None \<longleftrightarrow> cs_io st k = None)"
proof (cases "cs_flushing st l \<or> cs_queue st l = []")
  case True
  then show ?thesis using f inv by (auto simp: cs_flush_def)
next
  case False
  then obtain i where i: "cs_io st l = Some i" using io by auto
  have c: "\<not> cs_closing st" using cs_live_leg [OF inv i] by simp
  have d: "cdir base h st l" "cdir base h st (opp l)" "\<not> cs_flushing st l" "\<not> cs_flushing st (opp l)"
    using inv c by (simp_all add: cs_inv_alt [of st _ _ l])
  have live: "io_live i" "\<not> io_shut i" "\<not> cs_fin st l" using d(2) i False by (auto simp: cdir_Some)
  obtain i' rest x where l: "flush_loop io_write i (cs_queue st l) = FlDone i' rest x"
    using f False i by (auto simp: cs_flush_def split: flush_result.splits)
  have st': "st' = cs_set_io l (Some i') (cs_set_queue l rest (if rest = [] then 0 else cs_cap st l) st)"
    using f False i l by (simp add: cs_flush_def)
  note * = io_half.flush_loop_open [OF l live(1,2)]
  have "cdir base h st' (opp l)" using * d(2) i live(3) by (simp add: st' cdir_Some)
  moreover have "cdir base h st' l" using d(1) cdir_cong [of st' l st] by (simp add: st')
  ultimately show ?thesis using c d(3,4) i by (simp add: st' cs_inv_alt [of _ _ _ l])
qed

definition cs_up_ok ::
    "(side \<Rightarrow> bytes) \<Rightarrow> (side \<Rightarrow> bytes) \<Rightarrow> (side \<Rightarrow> upcall \<Rightarrow> 'a cstream_scheme \<Rightarrow> 'a cstream_scheme option) \<Rightarrow> bool" where
  "cs_up_ok base h up \<longleftrightarrow>
     (\<forall>k e st. up k (UpError e) st = None \<or> up k (UpError e) st = Some (cs_close st)) \<and>
     (\<forall>k st st'. cs_inv base h st \<longrightarrow> cs_io st k \<noteq> None \<longrightarrow> up k UpLow st = Some st' \<longrightarrow> cs_inv base h st')"

lemma cs_run_one:
  assumes "cs_up_ok base h up" "ups = [] \<or> (\<exists>u. ups = [u])" "cs_ups (up k) ups st = Some st'"
    "cs_io st k \<noteq> None" "\<not> cs_closing st" "\<not> up_error ups \<Longrightarrow> cs_inv base h st"
  shows "cs_inv base h st'"
  using assms(2)
proof
  assume "\<exists>u. ups = [u]"
  then obtain u where u: "ups = [u]" by blast
  show ?thesis
  proof (cases u)
    case UpLow
    then have "up k UpLow st = Some st'" "cs_inv base h st" using assms(3,6) u by (auto split: option.splits)
    then show ?thesis using assms(1,4) unfolding cs_up_ok_def by blast
  next
    case (UpError e)
    then have "up k (UpError e) st = Some st'" using assms(3) u by (auto split: option.splits)
    moreover have "up k (UpError e) st = None \<or> up k (UpError e) st = Some (cs_close st)"
      using assms(1) unfolding cs_up_ok_def by blast
    ultimately have "st' = cs_close st" by simp
    then show ?thesis using assms(5) by simp
  qed
qed (use assms(3,6) in simp)

lemma cs_shutdown_ok:
  assumes up: "cs_up_ok base h up" and inv: "cs_inv base h st" "cs_io st k = Some i"
    and pre: "cs_queue st k = []" "cs_eof st (opp k)"
    and sh: "cs_shutdown up k (st\<lparr>cs_fin := f\<rparr>) = Some st'" and f: "f (opp k) = cs_fin st (opp k)"
  shows "cs_inv base h st'"
proof -
  obtain i' ups where s: "io_shutdown_send i = (i', ups)" by (cases "io_shutdown_send i")
  then have t: "tm_io_shutdown_send (cs_io st k) = (Some i', ups)" using inv(2) by (simp add: tm_io_shutdown_send_def)
  let ?s = "cs_set_io k (Some i') (st\<lparr>cs_fin := f\<rparr>)"
  have live: "io_live i" "\<not> cs_closing st" using cs_live_leg [OF inv] by simp_all
  have r: "cs_ups (up k) ups ?s = Some st'" using sh t by (simp add: cs_shutdown_def)
  show ?thesis
  proof (rule cs_run_one [OF up shutdown_one [OF t] r])
    assume ne: "\<not> up_error ups"
    have d: "cdir base h st k" "cdir base h st (opp k)" "\<not> cs_flushing st k" "\<not> cs_flushing st (opp k)"
      using inv live(2) by (simp_all add: cs_inv_alt [of st _ _ k])
    have "cdir base h ?s (opp k)" using d(2) inv(2) pre io_half.shutdown_keeps [OF live(1) s ne] by (simp add: cdir_Some)
    moreover have "cdir base h ?s k" using d(1) cdir_cong [of ?s k st] f by simp
    ultimately show "cs_inv base h ?s" using live(2) d(3,4) by (simp add: cs_inv_alt [of _ _ _ k])
  qed (use live in simp_all)
qed

lemma cs_low_ok:
  assumes up: "cs_up_ok base h up" and inv: "cs_inv base h st" "cs_io st l \<noteq> None" and r: "cs_low up l st = Some st'"
  shows "cs_inv base h st'"
proof (cases "cs_closing st")
  case True
  then show ?thesis using r inv by (simp add: cs_low_def)
next
  case False
  then obtain s where s: "cs_flush l st = Some s" using r by (auto simp: cs_low_def split: option.splits)
  have f: "cs_inv base h s" "cs_io s l \<noteq> None" using cs_flush_ok [OF inv(1) _ s] inv(2) by simp_all
  let ?sh = "if cs_eof s (opp l) \<and> \<not> cs_fin s l
      then cs_shutdown up l (s\<lparr>cs_fin := (cs_fin s)(l := True)\<rparr>) else Some s"
  show ?thesis
  proof (cases "cs_queue s l = []")
    case False
    then have "st' = cs_maybe_close s" using r s \<open>\<not> cs_closing st\<close> by (simp add: cs_low_def)
    then show ?thesis using f by simp
  next
    case True
    then obtain s2 where s2: "?sh = Some s2"
      using r s False by (auto simp: cs_low_def split: option.splits if_splits)
    have "cs_inv base h s2"
    proof (cases "cs_eof s (opp l) \<and> \<not> cs_fin s l")
      case fin: True
      obtain i where "cs_io s l = Some i" using f(2) by auto
      from cs_shutdown_ok [OF up f(1) this True] show ?thesis using fin s2 by simp
    qed (use s2 f in auto)
    then have "cs_inv base h (if cs_paused s2 (opp l)
        then cs_set_io (opp l) (tm_io_resume_read (cs_io s2 (opp l))) (s2\<lparr>cs_paused := (cs_paused s2)(opp l := False)\<rparr>)
        else s2)"
      using cs_read_op_ok [OF _ read_ops(2), where st = s2 and l = "opp l"] by simp
    moreover have "st' = cs_maybe_close (if cs_paused s2 (opp l)
        then cs_set_io (opp l) (tm_io_resume_read (cs_io s2 (opp l))) (s2\<lparr>cs_paused := (cs_paused s2)(opp l := False)\<rparr>)
        else s2)"
      using r s s2 True False by (simp add: cs_low_def)
    ultimately show ?thesis by simp
  qed
qed

lemma cs_up_inv: "cs_up_ok base h (cs_up n :: side \<Rightarrow> upcall \<Rightarrow> 'a cstream_scheme \<Rightarrow> 'a cstream_scheme option)"
proof (induction n)
  case (Suc n)
  show ?case
    unfolding cs_up_ok_def
  proof (intro conjI allI impI)
    fix k and st st' :: "'a cstream_scheme"
    assume "cs_inv base h st" "cs_io st k \<noteq> None" "cs_up (Suc n) k UpLow st = Some st'"
    then show "cs_inv base h st'" using cs_low_ok [OF Suc, of st k st'] by simp
  qed simp
qed (simp add: cs_up_ok_def)

lemmas cs_run = cs_run_one [OF cs_up_inv]

text \<open>What the end of a side and a chunk from a side leave behind.\<close>

lemma cs_inv_eof: "cs_inv base h st \<Longrightarrow> cs_inv base h (st\<lparr>cs_eof := (cs_eof st)(l := True)\<rparr>)"
proof -
  let ?s = "st\<lparr>cs_eof := (cs_eof st)(l := True)\<rparr>"
  have "cdir base h ?s k" if "cdir base h st k" for k
    using that by (cases "cs_io st (opp k)") (auto simp: cdir_def)
  then show "cs_inv base h st \<Longrightarrow> cs_inv base h ?s" by (simp add: cs_inv_def)
qed

lemma cs_pass_end_ok:
  assumes "cs_inv base h st" "cs_io st l \<noteq> None" "cs_eof st (opp l)" "cs_pass_end l st = Some st'"
  shows "cs_inv base h st'"
proof (cases "cs_queue st l = []")
  case True
  then obtain s where s: "cs_shutdown cs_up2 l (st\<lparr>cs_fin := (cs_fin st)(l := True)\<rparr>) = Some s" "st' = cs_maybe_close s"
    using assms(4) by (auto simp: cs_pass_end_def)
  obtain i where i: "cs_io st l = Some i" using assms(2) by auto
  from cs_shutdown_ok [OF cs_up_inv assms(1) i True assms(3) s(1)] show ?thesis by (simp add: s(2))
next
  case False
  then have "st' = cs_maybe_close st" using assms(4) by (simp add: cs_pass_end_def)
  then show ?thesis using assms(1) by simp
qed

lemma cs_broker_io: "cs_inv base h st \<Longrightarrow> \<not> cs_closing st \<Longrightarrow> cs_io st Broker \<noteq> None"
  by (cases "cs_io st Broker") (auto simp: cs_inv_alt [of st _ _ Local] cdir_def)

lemma relay_broker_eof_ok:
  assumes "cs_inv base h st" "relay_broker_eof st = Some st'"
  shows "cs_inv base h st'"
proof (cases "cs_closing st \<or> cs_io st Local = None")
  case True
  then show ?thesis using assms cs_inv_eof [OF assms(1), of Broker] by (auto simp: relay_broker_eof_def split: if_splits)
next
  case False
  let ?s = "st\<lparr>cs_eof := (cs_eof st)(Broker := True)\<rparr>"
  obtain s1 s2 where s: "cs_flush Local ?s = Some s1" "cs_flush Broker s1 = Some s2" "cs_pass_end Local s2 = Some st'"
    using assms(2) False by (auto simp: relay_broker_eof_def split: Option.bind_splits)
  have i: "cs_inv base h ?s" by (rule cs_inv_eof [OF assms(1)])
  note f1 = cs_flush_ok [OF i _ s(1)]
  have 1: "cs_inv base h s1" "cs_io s1 Broker \<noteq> None" "cs_io s1 Local \<noteq> None" "cs_eof s1 Broker"
    using f1 False cs_broker_io [OF assms(1)] by simp_all
  note f2 = cs_flush_ok [OF 1(1) _ s(2)]
  show ?thesis by (rule cs_pass_end_ok [OF _ _ _ s(3)]) (use f2 1 in simp_all)
qed

lemma relay_local_eof_ok:
  assumes "cs_inv base h st" "relay_local_eof st = Some st'"
  shows "cs_inv base h st'"
proof (cases "cs_closing st")
  case True
  then show ?thesis using assms by (simp add: relay_local_eof_def)
next
  case False
  let ?s = "st\<lparr>cs_eof := (cs_eof st)(Local := True)\<rparr>"
  obtain s1 where s: "cs_flush Broker ?s = Some s1" "cs_pass_end Broker s1 = Some st'"
    using assms(2) False by (auto simp: relay_local_eof_def split: Option.bind_splits)
  have i: "cs_inv base h ?s" by (rule cs_inv_eof [OF assms(1)])
  note f1 = cs_flush_ok [OF i _ s(1)]
  show ?thesis by (rule cs_pass_end_ok [OF _ _ _ s(2)]) (use f1 cs_broker_io [OF assms(1) False] in simp_all)
qed

lemma cs_forward_ok:
  assumes inv: "cs_inv base h st" "\<not> cs_closing st" and io: "cs_io st (opp l) = Some io" and e: "\<not> cs_eof st l"
    and f: "cs_forward l d st = Some st'"
  shows "cs_inv base (h(l := h l @ d)) st'"
proof -
  let ?h = "h(l := h l @ d)" and ?o = "opp l"
  have d: "cdir base h st l" "cdir base h st ?o" "\<not> cs_flushing st l" "\<not> cs_flushing st ?o"
    using inv by (simp_all add: cs_inv_alt [of st _ _ l])
  then have live: "io_live io" "\<not> io_shut io" "\<not> cs_fin st ?o" using io e by (auto simp: cdir_Some)
  have o: "cdir base ?h st ?o" using d(2) by (subst cdir_hist [where h = h]) simp_all
  have queue: "cs_inv base ?h (cs_set_io l (tm_io_pause_read (cs_io s l)) (s\<lparr>cs_paused := (cs_paused s)(l := True)\<rparr>))"
    if s: "s = cs_append ?o d (cs_set_io ?o (Some i) st)"
      and i: "io_live i" "io_accepted i = io_accepted io" "io_shut i = io_shut io" for s i
  proof (rule cs_read_op_ok [OF _ read_ops(1)])
    have "cdir base ?h s l" using d(1) io i live by (simp add: s cdir_Some cs_append_def)
    moreover have "cdir base ?h s ?o" using o cdir_cong [of s ?o st] by (simp add: s cs_append_def)
    ultimately show "cs_inv base ?h s" using d(3,4) inv(2) by (simp add: s cs_inv_alt [of _ _ _ l] cs_append_def)
  qed
  show ?thesis
  proof (cases "cs_queue st ?o = []")
    case False
    then show ?thesis using f queue [of _ io] live io by (auto simp: cs_forward_def Let_def fun_upd_idem)
  next
    case True
    obtain r i ups where w: "io_write io d = (r, i, ups)" by (rule prod_cases3)
    have shut: "io_shut i = io_shut io" by (rule io_half.put_shut [OF live(1) w])
    have eq: "tm_io_write (cs_io st ?o) d = (r, Some i, ups)" using io w by (simp add: tm_io_write_def)
    show ?thesis
    proof (cases "r = TM_OK")
      case ok: True
      let ?s = "cs_set_io ?o (Some i) st"
      have r: "cs_ups (cs_up2 ?o) ups ?s = Some st'"
        using f True eq ok by (auto simp: cs_forward_def Let_def split: option.splits)
      show ?thesis
      proof (rule cs_run [OF write_one [OF w] r])
        assume "\<not> up_error ups"
        then have "io_live i \<and> io_accepted i = io_accepted io @ d" using io_disp.write_ok [OF live(1)] w ok by simp
        then have "cdir base ?h ?s l" using d(1) io live True shut by (simp add: cdir_Some)
        moreover have "cdir base ?h ?s ?o" using o cdir_cong [of ?s ?o st] by simp
        ultimately show "cs_inv base ?h ?s" using d(3,4) inv(2) by (simp add: cs_inv_alt [of _ _ _ l])
      qed (use inv(2) in simp_all)
    next
      case no: False
      then have i: "io_live i" "io_accepted i = io_accepted io" "ups = []" "r = TM_ERR_BUSY"
        using io_disp.write_refused [OF live(1) w] io_half.put_open [OF live(1,2) w] by auto
      then show ?thesis using f True eq queue [OF refl i(1,2) shut] by (simp add: cs_forward_def Let_def)
    qed
  qed
qed

section \<open>Completed writes\<close>

lemma cs_tcp_tail_ok:
  assumes inv: "cs_inv base h st" and io: "cs_io st l = Some i"
    and t: "tcp_inv t2" "\<not> tc_closed t2" "tc_low_cb t2" "tc_error_cb t2"
      "tcp_accepted t2 = io_accepted i" "tc_write_closed t2 = io_shut i"
    and r: "cs_tcp_done_tail l t2 st = Some st'"
  shows "cs_inv base h st'"
proof -
  obtain t3 ups where p: "tcp_pump t2 = (t3, ups)" by (cases "tcp_pump t2")
  obtain s where s: "cs_ups (cs_up2 l) ups (cs_set_io l (Some (IoTcp t3)) st) = Some s"
    using r p by (auto simp: cs_tcp_done_tail_def tcp_write_done_tail_def split: option.splits)
  have c: "\<not> cs_closing st" using cs_live_leg [OF inv io] by simp
  have "leg_as i (IoTcp t3)" if "\<not> up_error ups"
    using tcp_pump_ok [OF t(1-4) p that] tcp_pump_write_closed [OF p] t(5,6) by (simp add: leg_as_def)
  then have low: "cs_inv base h s"
    using cs_inv_leg [OF inv io] c by (intro cs_run [OF tcp_pump_one [OF p] s]) simp_all
  show ?thesis
  proof (cases "tc_wreq_pending t3 \<or> up_error ups")
    case True
    then show ?thesis using r p s low by (simp add: cs_tcp_done_tail_def tcp_write_done_tail_def)
  next
    case False
    then obtain t4 where t4: "cs_io s l = Some (IoTcp t4)" "st' = cs_set_io l (Some (IoTcp (tcp_pump_tail t4))) s"
      using r p s by (auto simp: cs_tcp_done_tail_def tcp_write_done_tail_def split: option.splits tm_io.splits)
    have "tcp_live t4" using cs_live_leg [OF low t4(1)] by simp
    then have "leg_as (IoTcp t4) (IoTcp (tcp_pump_tail t4))"
      using tcp_pump_tail_live [of t4] by (simp add: leg_as_def tcp_pump_tail_def tcp_fin_def)
    from cs_inv_leg [OF low t4(1) this] show ?thesis using t4(2) by simp
  qed
qed

lemma cs_tcp_done_ok:
  assumes inv: "cs_inv base h st" and io: "cs_io st l = Some (IoTcp t)" and p: "tc_wreq_pending t"
    and r: "cs_write_done l status st = Some st'"
  shows "cs_inv base h st'"
proof -
  have live: "tcp_live t" and c: "\<not> cs_closing st" using cs_live_leg [OF inv io] by simp_all
  then have nf: "\<not> tc_fin_sent t" using p by (auto simp: tcp_live_def tcp_inv_def)
  let ?t = "tcp_write_acked t"
  have a: "tcp_inv ?t" "tcp_accepted ?t = tcp_accepted t" "tc_write_closed ?t = tc_write_closed t" "\<not> tc_wreq_pending ?t"
    using tcp_acked_inv [OF _ nf] live by (simp_all add: tcp_live_def tcp_write_acked_def Let_def)
  consider "st' = st" | (err) "st' = cs_close (cs_set_io l (Some (IoTcp ?t)) st)"
    | (empty) s t2 where "tc_wb ?t = []" "cs_ups (cs_up2 l) [UpLow] (cs_set_io l (Some (IoTcp ?t)) st) = Some s"
        "cs_io s l = Some (IoTcp t2)" "cs_tcp_done_tail l t2 s = Some st'"
    | (more) "cs_tcp_done_tail l ?t (cs_set_io l (Some (IoTcp ?t)) st) = Some st'"
    using r io live
    by (auto simp: cs_write_done_def tcp_write_done_def tcp_error_up_def tcp_maybe_low_def tcp_live_def Let_def numeral_2_eq_2
        split: if_splits option.splits tm_io.splits)
  then show ?thesis
  proof cases
    case err
    then show ?thesis using c by simp
  next
    case empty
    have "leg_as (IoTcp t) (IoTcp ?t)" using a live empty(1) by (simp add: leg_as_def tcp_live_def)
    then have low: "cs_inv base h s"
      using cs_inv_leg [OF inv io] c by (intro cs_run [OF _ empty(2)]) simp_all
    have "tcp_live t2" using cs_live_leg [OF low empty(3)] by simp
    then show ?thesis using cs_tcp_tail_ok [OF low empty(3) _ _ _ _ _ _ empty(4)] by (simp add: tcp_live_def)
  next
    case more
    have "cs_tcp_done_tail l ?t (cs_set_io l (Some (IoTcp ?t)) st) = cs_tcp_done_tail l ?t st"
      by (simp add: cs_tcp_done_tail_def)
    then show ?thesis using cs_tcp_tail_ok [OF inv io _ _ _ _ _ _ , of ?t st'] more a live by (simp add: tcp_live_def)
  qed (use inv in simp)
qed

lemma cs_ssl_tail_ok:
  assumes inv: "cs_inv base h st" and r: "cs_ssl_done_tail l failed st = Some st'"
  shows "cs_inv base h st'"
proof (cases "\<exists>t. cs_io st l = Some (IoSsl t)")
  case False
  then show ?thesis using inv r by (auto simp: cs_ssl_done_tail_def split: option.splits tm_io.splits if_splits)
next
  case True
  then obtain t where t: "cs_io st l = Some (IoSsl t)" by blast
  have live: "ssl_live (is_ssl t)" "\<not> is_closed t" "is_error_cb t" and c: "\<not> cs_closing st"
    using cs_live_leg [OF inv t] by simp_all
  obtain s3 us where s3: "on_write_done_tail (is_ssl t) = (s3, us)" by (cases "on_write_done_tail (is_ssl t)")
  have run: "cs_ups (cs_up2 l) (filter (ssl_up t) us) (cs_set_io l (Some (IoSsl (t\<lparr>is_ssl := s3\<rparr>))) st) = Some st'"
    using r t s3 by (simp add: cs_ssl_done_tail_def ssl_ups_def)
  have "leg_as (IoSsl t) (IoSsl (t\<lparr>is_ssl := s3\<rparr>))" if "\<not> up_error (filter (ssl_up t) us)"
    using on_write_done_tail_live [OF live(1) s3] ssl_done_shut(2) [OF live(1) s3] that live
    by (simp add: leg_as_def up_error_filter)
  moreover have "length us \<le> 1" using on_write_done_tail_one [of "is_ssl t"] s3 by simp
  ultimately show ?thesis using cs_inv_leg [OF inv t] c by (intro cs_run [OF filter_one run]) simp_all
qed

lemma cs_ssl_done_ok:
  assumes inv: "cs_inv base h st" and io: "cs_io st l = Some (IoSsl t)" and r: "cs_write_done l status st = Some st'"
  shows "cs_inv base h st'"
proof (cases "on_write_done (is_ssl t) status")
  case None
  then show ?thesis using r io inv by (simp add: cs_write_done_def)
next
  case (Some x)
  then obtain s1 us cont where d: "on_write_done (is_ssl t) status = Some (s1, us, cont)" by (cases x) auto
  have live: "ssl_live (is_ssl t)" "\<not> is_closed t" "is_error_cb t" and c: "\<not> cs_closing st"
    using cs_live_leg [OF inv io] by simp_all
  let ?t = "t\<lparr>is_ssl := s1\<rparr>" and ?us = "filter (ssl_up t) us"
  obtain s where s: "cs_ups (cs_up2 l) ?us (cs_set_io l (Some (IoSsl ?t)) st) = Some s"
      "(if \<not> cont then Some s else cs_ssl_done_tail l (up_error ?us) s) = Some st'"
    using r io d by (auto simp: cs_write_done_def ssl_ups_def split: option.splits)
  have "leg_as (IoSsl t) (IoSsl ?t)" if "\<not> up_error ?us"
  proof -
    have ne: "\<not> up_error us" using that live by (simp add: up_error_filter)
    then have cont using d live by (auto simp: on_write_done_def finish_close_def ssl_live_def Let_def split: if_splits prod.splits)
    then show ?thesis
      using on_write_done_live [OF live(1) _ ne] ssl_done_shut(1) [OF live(1)] d live by (simp add: leg_as_def)
  qed
  then have low: "cs_inv base h s"
    using cs_inv_leg [OF inv io] c by (intro cs_run [OF filter_one [OF on_write_done_one [OF d]] s(1)]) simp_all
  show ?thesis using s(2) low cs_ssl_tail_ok [OF low, of l "up_error ?us" st'] by (auto split: if_splits)
qed

lemma cs_write_done_ok:
  assumes "cs_inv base h st" "cs_io st l = Some i" "write_in_flight i" "cs_write_done l status st = Some st'"
  shows "cs_inv base h st'"
proof (cases i)
  case (IoTcp t)
  then show ?thesis using cs_tcp_done_ok [OF assms(1) _ _ assms(4)] assms(2,3) by (simp add: write_in_flight_def)
next
  case (IoSsl t)
  then show ?thesis using cs_ssl_done_ok [OF assms(1) _ assms(4)] assms(2) by simp
qed

section \<open>Every life of a relayed stream\<close>

lemma started_tcp:
  obtains i where "tm_io_start (Some (IoTcp (tm_io_tcp_new True True uv))) = Some (IoTcp i)" "tcp_live i"
    "tcp_accepted i = []" "\<not> tc_write_closed i" "tc_wb i = []" "\<not> tc_wreq_pending i"
  using that by (auto simp: tm_io_start_def tcp_start_def tm_io_tcp_new_def tcp_live_def tcp_inv_def tcp_accepted_def)

lemma flush_loop_tcp:
  "flush_loop wr io q = FlDone io' rest x \<Longrightarrow> wr = io_write \<Longrightarrow> \<exists>t. io = IoTcp t \<Longrightarrow> \<exists>t. io' = IoTcp t"
proof (induction wr io q rule: flush_loop.induct)
  case (1 wr io q)
  obtain t where t: "io = IoTcp t" using 1(4) by blast
  let ?n = "if length q < 65536 then length q else 65536"
  obtain r io1 ups where w: "wr io (take ?n q) = (r, io1, ups)" by (rule prod_cases3)
  have e: "flush_loop wr io q =
      (if q = [] then FlDone io [] False else if r = TM_ERR_BUSY then FlDone io1 q False
       else if r \<noteq> TM_OK then FlDone io1 [] True
       else if up_error ups then FlError io1 (take ?n q) (drop ?n q) else flush_loop wr io1 (drop ?n q))"
    by (subst flush_loop.simps) (simp only: Let_def w prod.case)
  have t1: "\<exists>t. io1 = IoTcp t" using w 1(3) t by (auto elim!: io_write_IoTcp)
  show ?case
  proof (cases "q = [] \<or> r = TM_ERR_BUSY \<or> r \<noteq> TM_OK \<or> up_error ups")
    case True
    then show ?thesis using 1(2) t t1 unfolding e by (auto split: if_splits)
  next
    case False
    then show ?thesis using 1(1) [OF _ refl w [symmetric]] 1(2,3) t1 unfolding e by simp
  qed
qed

lemma cs_inv_local:
  assumes "cs_inv base h st" "\<not> cs_closing st" "cs_io st Local = None" "io_live i" "io_accepted i = []" "\<not> io_shut i"
  shows "cs_inv base h (cs_set_io Local (Some i) st)"
proof -
  let ?s = "cs_set_io Local (Some i) st"
  have d: "cdir base h st Local" "cdir base h st Broker" "\<not> cs_flushing st Local" "\<not> cs_flushing st Broker"
    using assms(1,2) by (simp_all add: cs_inv_def)
  have "cdir base h ?s Broker" using d(2) assms(3-6) by (auto simp: cdir_def)
  moreover have "cdir base h ?s Local" using d(1) cdir_cong [of ?s Local st] by simp
  ultimately show ?thesis using d(3,4) assms(2) by (simp add: cs_inv_alt [of _ _ _ Local])
qed

lemma agent_local_connected_ok:
  assumes inv: "cs_inv base h st" and io: "cs_io st Local = None"
    and r: "agent_local_connected uv st = Some st'"
    and kept: "cs_closing st' \<or> (cs_eof st Broker \<longrightarrow> cs_queue st' Local = [])"
  shows "cs_inv base h st'"
proof (cases "cs_closing st")
  case True
  then show ?thesis using r inv by (auto simp: agent_local_connected_def)
next
  case False
  obtain t where t: "tm_io_start (Some (IoTcp (tm_io_tcp_new True True uv))) = Some (IoTcp t)" "tcp_live t"
    "tcp_accepted t = []" "\<not> tc_write_closed t" by (rule started_tcp)
  let ?s1 = "cs_set_io Local (Some (IoTcp t)) (st\<lparr>cs_connecting := False, cs_timer := False, cs_bound := True\<rparr>)"
  let ?s2 = "cs_set_io Broker (tm_io_start (cs_io st Broker)) ?s1"
  have 1: "cs_inv base h ?s1"
    using inv io False t by (intro cs_inv_local) simp_all
  have 2: "cs_inv base h ?s2"
    using cs_read_op_ok [OF 1 read_ops(3), where l = Broker and p = "cs_paused st"] by simp
  obtain s3 where s3: "cs_flush Local ?s2 = Some s3"
    using r False t(1) by (auto simp: agent_local_connected_def Let_def split: Option.bind_splits)
  note f = cs_flush_ok [OF 2 _ s3]
  define s4 where "s4 = (if cs_queue s3 Local \<noteq> []
      then cs_set_io Broker (tm_io_pause_read (cs_io s3 Broker)) (s3\<lparr>cs_paused := (cs_paused s3)(Broker := True)\<rparr>)
      else if cs_paused s3 Broker
      then cs_set_io Broker (tm_io_resume_read (cs_io s3 Broker)) (s3\<lparr>cs_paused := (cs_paused s3)(Broker := False)\<rparr>)
      else s3)"
  have 3: "cs_inv base h s3" "cs_eof s3 = cs_eof st" using f by simp_all
  have 4: "cs_inv base h s4" "cs_eof s4 = cs_eof st"
    using 3 cs_read_op_ok [OF 3(1) read_ops(1), where l = Broker] cs_read_op_ok [OF 3(1) read_ops(2), where l = Broker]
    by (simp_all add: s4_def)
  show ?thesis
  proof (cases "cs_eof st Broker")
    case no: False
    then have "st' = s4" using r False t(1) s3 4(2) by (simp add: agent_local_connected_def Let_def s4_def)
    then show ?thesis using 4(1) by simp
  next
    case True
    then obtain s5 where s5: "cs_shutdown cs_up2 Local s4 = Some s5" "st' = (if cs_eof s5 Local then cs_close s5 else s5)"
      using r False t(1) s3 4(2)
      by (auto simp: agent_local_connected_def Let_def s4_def [symmetric] split: Option.bind_splits)
    obtain t2 where "cs_io s3 Local = Some (IoTcp t2)"
      using s3 by (auto simp: cs_flush_def split: if_splits flush_result.splits dest!: flush_loop_tcp)
    then have t2: "cs_io s4 Local = Some (IoTcp t2)" by (simp add: s4_def)
    then have s5': "s5 = cs_set_io Local (Some (IoTcp (tcp_shutdown_send t2))) s4"
      using s5(1) by (simp add: cs_shutdown_def tm_io_shutdown_send_def)
    show ?thesis
    proof (cases "cs_closing st'")
      case True
      then show ?thesis using s5(2) s5' cs_live_leg [OF 4(1) t2] by (auto split: if_splits)
    next
      case False
      then have q: "st' = s5" "cs_queue s4 Local = []" using kept True s5(2) s5' by (auto simp: cs_close_def split: if_splits)
      have "cs_shutdown cs_up2 Local (s4\<lparr>cs_fin := cs_fin s4\<rparr>) = Some st'" using s5(1) q by simp
      from cs_shutdown_ok [OF cs_up_inv 4(1) t2 q(2) _ this] show ?thesis using True 4(2) by simp
    qed
  qed
qed

text \<open>
  The life of an agent's stream from \<open>DATA_BIND_OK\<close> on. The condition of \<open>connected\<close> excludes the case that
  the last section is about.
\<close>

inductive agent_reach :: "(side \<Rightarrow> bytes) \<Rightarrow> (side \<Rightarrow> bytes) \<Rightarrow> tm_astream \<Rightarrow> bool" where
  bound: "io_live io \<Longrightarrow> \<not> io_shut io \<Longrightarrow>
    agent_reach ((\<lambda>_. [])(Broker := io_accepted io)) ((\<lambda>_. [])(Broker := lo))
      (agent_bind_ok lo ((astream_new sid now)\<lparr>cs_io := [Broker \<mapsto> io], cs_fr := fr\<rparr>))"
| connected: "agent_reach base h st \<Longrightarrow> cs_io st Local = None \<Longrightarrow> agent_local_connected uv st = Some st' \<Longrightarrow>
    cs_closing st' \<or> (cs_eof st Broker \<longrightarrow> cs_queue st' Local = []) \<Longrightarrow> agent_reach base h st'"
| broker_read: "agent_reach base h st \<Longrightarrow> \<not> cs_eof st Broker \<Longrightarrow> agent_broker_read d st = Some st' \<Longrightarrow>
    agent_reach base (h(Broker := h Broker @ d)) st'"
| local_read: "agent_reach base h st \<Longrightarrow> \<not> cs_eof st Local \<Longrightarrow> agent_local_read d st = Some st' \<Longrightarrow>
    agent_reach base (h(Local := h Local @ d)) st'"
| broker_eof: "agent_reach base h st \<Longrightarrow> relay_broker_eof st = Some st' \<Longrightarrow> agent_reach base h st'"
| local_eof: "agent_reach base h st \<Longrightarrow> relay_local_eof st = Some st' \<Longrightarrow> agent_reach base h st'"
| failed: "agent_reach base h st \<Longrightarrow> agent_reach base h (cs_close st)"
| written: "agent_reach base h st \<Longrightarrow> cs_io st l = Some io \<Longrightarrow> write_in_flight io \<Longrightarrow>
    cs_write_done l status st = Some st' \<Longrightarrow> agent_reach base h st'"

text \<open>The life of a peer's session from \<open>DATA_BIND_OK\<close> on.\<close>

inductive peer_reach :: "(side \<Rightarrow> bytes) \<Rightarrow> (side \<Rightarrow> bytes) \<Rightarrow> tm_psess \<Rightarrow> bool" where
  bound: "io_live io \<Longrightarrow> \<not> io_shut io \<Longrightarrow> length lo \<le> TM_IO_HIGH_WATER \<Longrightarrow>
    peer_bind_ok uv lo (psess_new\<lparr>cs_io := [Broker \<mapsto> io], cs_fr := fr, ps_got_hello := True\<rparr>) = Some st \<Longrightarrow>
    peer_reach ((\<lambda>_. [])(Broker := io_accepted io)) ((\<lambda>_. [])(Broker := lo)) st"
| broker_read: "peer_reach base h st \<Longrightarrow> \<not> cs_eof st Broker \<Longrightarrow> peer_broker_read d st = Some st' \<Longrightarrow>
    peer_reach base (h(Broker := h Broker @ d)) st'"
| local_read: "peer_reach base h st \<Longrightarrow> \<not> cs_eof st Local \<Longrightarrow> peer_local_read d st = Some st' \<Longrightarrow>
    peer_reach base (h(Local := h Local @ d)) st'"
| broker_eof: "peer_reach base h st \<Longrightarrow> relay_broker_eof st = Some st' \<Longrightarrow> peer_reach base h st'"
| local_eof: "peer_reach base h st \<Longrightarrow> relay_local_eof st = Some st' \<Longrightarrow> peer_reach base h st'"
| failed: "peer_reach base h st \<Longrightarrow> peer_reach base h (cs_close st)"
| written: "peer_reach base h st \<Longrightarrow> cs_io st l = Some io \<Longrightarrow> write_in_flight io \<Longrightarrow>
    cs_write_done l status st = Some st' \<Longrightarrow> peer_reach base h st'"

lemma cs_append_ok:
  assumes "cs_inv base h st" "\<not> cs_closing st" "cs_io st Local = None" "\<not> cs_eof st Broker"
  shows "cs_inv base (h(Broker := h Broker @ d)) (cs_append Local d st)"
proof -
  let ?h = "h(Broker := h Broker @ d)" and ?s = "cs_append Local d st"
  have d: "cdir base h st Local" "cdir base h st Broker" "\<not> cs_flushing st Local" "\<not> cs_flushing st Broker"
    using assms(1,2) by (simp_all add: cs_inv_def)
  have "cdir base ?h ?s Broker" using d(2) assms(3,4) by (auto simp: cdir_def cs_append_def)
  moreover have "cdir base ?h ?s Local"
    using d(1) cdir_cong [of ?s Local st base ?h] cdir_hist [where h' = ?h and h = h and l = Local and st = st and base = base]
    by (simp add: cs_append_def)
  ultimately show ?thesis using d(3,4) assms(2) by (simp add: cs_inv_alt [of _ _ _ Local] cs_append_def)
qed

lemma agent_frame_fields [simp]:
  "cs_inv base h (st\<lparr>as_up_bytes := n\<rparr>) = cs_inv base h st" "cs_inv base h (st\<lparr>as_down_bytes := n\<rparr>) = cs_inv base h st"
  by (rule cs_inv_cong; simp)+

lemma agent_broker_read_ok:
  assumes "cs_inv base h st" "\<not> cs_eof st Broker" "agent_broker_read d st = Some st'"
  shows "cs_inv base (h(Broker := h Broker @ d)) st'"
proof (cases "cs_closing st")
  case True
  then show ?thesis using assms by (simp add: agent_broker_read_def cs_inv_def)
next
  case False
  let ?s = "st\<lparr>as_up_bytes := as_up_bytes st + of_nat (length d)\<rparr>"
  show ?thesis
  proof (cases "cs_io st Local")
    case None
    have a: "cs_inv base (h(Broker := h Broker @ d)) (cs_append Local d ?s)"
      using assms(1,2) False None by (intro cs_append_ok) simp_all
    show ?thesis
      using assms(3) False None a cs_read_op_ok [OF a read_ops(1), where l = Broker]
      by (auto simp: agent_broker_read_def Let_def split: if_splits)
  next
    case (Some i)
    then have "cs_forward Broker d ?s = Some st'" using assms(3) False by (simp add: agent_broker_read_def)
    from cs_forward_ok [OF _ _ _ _ this] show ?thesis using assms(1,2) False Some by simp
  qed
qed

lemma peer_broker_read_ok:
  assumes "cs_inv base h st" "\<not> cs_eof st Broker" "peer_broker_read d st = Some st'"
  shows "cs_inv base (h(Broker := h Broker @ d)) st'"
proof (cases "cs_closing st")
  case True
  then show ?thesis using assms by (simp add: peer_broker_read_def cs_inv_def)
next
  case False
  show ?thesis
  proof (cases "cs_io st Local")
    case None
    then show ?thesis
      using assms(3) False cs_append_ok [OF assms(1) False _ assms(2)]
      by (auto simp: peer_broker_read_def split: if_splits)
  next
    case (Some i)
    then show ?thesis using cs_forward_ok [of base h st Broker i d st'] assms False by (simp add: peer_broker_read_def)
  qed
qed

lemma local_forward_ok:
  assumes "cs_inv base h st" "\<not> cs_closing st" "\<not> cs_eof st Local" "cs_forward Local d st = Some st'"
  shows "cs_inv base (h(Local := h Local @ d)) st'"
proof -
  obtain i where "cs_io st Broker = Some i" using cs_broker_io [OF assms(1,2)] by auto
  then show ?thesis using cs_forward_ok [OF assms(1,2) _ assms(3,4)] by simp
qed

lemma agent_bind_inv:
  assumes "io_live io" "\<not> io_shut io"
  shows "cs_inv ((\<lambda>_. [])(Broker := io_accepted io)) ((\<lambda>_. [])(Broker := lo))
    (agent_bind_ok lo ((astream_new sid now)\<lparr>cs_io := [Broker \<mapsto> io], cs_fr := fr\<rparr>))"
proof -
  obtain io' where "tm_io_set_cbs (Some io) True True = Some io'" "io_live io'" "io_accepted io' = io_accepted io" "\<not> io_shut io'"
    using io_set_cbs_live [OF assms(1)] assms(2) by metis
  then show ?thesis
    by (simp add: agent_bind_ok_def astream_new_def cstream_new_def cstream.defs tm_astream.defs
        cs_inv_alt [of _ _ _ Local] cdir_def)
qed

lemma tcp_write_fresh:
  assumes "tcp_live t" "tc_wb t = []" "\<not> tc_wreq_pending t" "\<not> tc_write_closed t" "length d \<le> TM_IO_HIGH_WATER"
  shows "fst (tcp_write t d) = TM_OK"
  using assms by (simp add: tcp_write_def tcp_live_def split: prod.split)

lemma peer_bind_inv:
  assumes "io_live io" "\<not> io_shut io" "length lo \<le> TM_IO_HIGH_WATER"
    "peer_bind_ok uv lo (psess_new\<lparr>cs_io := [Broker \<mapsto> io], cs_fr := fr, ps_got_hello := True\<rparr>) = Some st"
  shows "cs_inv ((\<lambda>_. [])(Broker := io_accepted io)) ((\<lambda>_. [])(Broker := lo)) st"
proof -
  obtain io' where io': "tm_io_set_cbs (Some io) True True = Some io'" "io_live io'" "io_accepted io' = io_accepted io" "\<not> io_shut io'"
    using io_set_cbs_live [OF assms(1)] assms(2) by metis
  obtain t where t: "tm_io_start (Some (IoTcp (tm_io_tcp_new True True uv))) = Some (IoTcp t)" "tcp_live t"
    "tcp_accepted t = []" "\<not> tc_write_closed t" "tc_wb t = []" "\<not> tc_wreq_pending t" by (rule started_tcp)
  obtain r i ups where w: "io_write (IoTcp t) lo = (r, i, ups)" by (rule prod_cases3)
  then have ok: "r = TM_OK" using tcp_write_fresh [of t lo] t assms(3) by (auto elim!: io_write_IoTcp)
  have "lo = [] \<or> \<not> up_error ups"
    using assms(4) t(1) w by (auto simp: peer_bind_ok_def tm_io_write_def Let_def split: if_splits)
  then have i: "lo = [] \<or> \<not> up_error ups \<and> io_live i \<and> io_accepted i = lo \<and> \<not> io_shut i"
    using io_disp.write_ok [of "IoTcp t" lo i ups] io_half.put_shut [of "IoTcp t" lo r i ups] w ok t by auto
  show ?thesis
  proof (cases "lo = []")
    case True
    then show ?thesis
      using assms(4) io' t
      by (auto simp: peer_bind_ok_def psess_new_def cstream_new_def cstream.defs tm_psess.defs
          cs_inv_alt [of _ _ _ Local] cdir_def)
  next
    case False
    then have st: "st = psess_new\<lparr>cs_io := [Broker \<mapsto> io', Local \<mapsto> i], cs_fr := fr, ps_got_hello := True,
        cs_queue := (\<lambda>_. []), cs_bound := True, cs_timer := False\<rparr>"
      using assms(4) io'(1) t(1) w i
      by (auto simp: peer_bind_ok_def tm_io_write_def psess_new_def cstream_new_def cstream.defs tm_psess.defs Let_def
          fun_upd_idem)
    then show ?thesis
      using False i io' by (simp add: psess_new_def cstream_new_def cstream.defs tm_psess.defs cs_inv_alt [of _ _ _ Local] cdir_def)
  qed
qed

lemma agent_reach_inv: "agent_reach base h st \<Longrightarrow> cs_inv base h st"
proof (induction rule: agent_reach.induct)
  case (bound io lo sid now fr)
  then show ?case by (rule agent_bind_inv)
next
  case (connected base h st uv st')
  show ?case by (rule agent_local_connected_ok [OF connected.IH connected.hyps(2-4)])
next
  case (broker_read base h st d st')
  show ?case by (rule agent_broker_read_ok [OF broker_read.IH broker_read.hyps(2,3)])
next
  case (local_read base h st d st')
  show ?case
  proof (cases "cs_closing st")
    case True
    then show ?thesis using local_read by (simp add: agent_local_read_def cs_inv_def)
  next
    case False
    then have "cs_forward Local d (st\<lparr>as_down_bytes := as_down_bytes st + of_nat (length d)\<rparr>) = Some st'"
      using local_read.hyps(3) by (simp add: agent_local_read_def)
    then show ?thesis by (rule local_forward_ok [rotated 3]) (use local_read.IH local_read.hyps(2) False in simp_all)
  qed
next
  case (written base h st l io status st')
  show ?case by (rule cs_write_done_ok [OF written.IH written.hyps(2-4)])
qed (auto intro: relay_broker_eof_ok relay_local_eof_ok)

lemma peer_reach_inv: "peer_reach base h st \<Longrightarrow> cs_inv base h st"
proof (induction rule: peer_reach.induct)
  case (bound io lo uv fr st)
  then show ?case by (rule peer_bind_inv)
next
  case (broker_read base h st d st')
  show ?case by (rule peer_broker_read_ok [OF broker_read.IH broker_read.hyps(2,3)])
next
  case (local_read base h st d st')
  show ?case
  proof (cases "cs_closing st")
    case True
    then show ?thesis using local_read by (simp add: peer_local_read_def cs_inv_def)
  next
    case False
    then have "cs_forward Local d st = Some st'" using local_read.hyps(3) by (simp add: peer_local_read_def)
    then show ?thesis by (rule local_forward_ok [OF local_read.IH False local_read.hyps(2)])
  qed
next
  case (written base h st l io status st')
  show ?case by (rule cs_write_done_ok [OF written.IH written.hyps(2-4)])
qed (auto intro: relay_broker_eof_ok relay_local_eof_ok)

text \<open>The stream from side \<open>l\<close> has reached the other side's leg unchanged, as far as it got.\<close>

definition stream_intact :: "(side \<Rightarrow> bytes) \<Rightarrow> (side \<Rightarrow> bytes) \<Rightarrow> 'a cstream_scheme \<Rightarrow> side \<Rightarrow> bool" where
  "stream_intact base h st l \<longleftrightarrow>
     (\<forall>io. cs_io st (opp l) = Some io \<longrightarrow>
        io_accepted io @ cs_queue st (opp l) = base (opp l) @ h l \<and>
        (\<exists>q. base (opp l) @ h l = io_sent io @ q) \<and>
        (io_shut io \<longrightarrow> cs_eof st l \<and> io_accepted io = base (opp l) @ h l))"

lemma cs_inv_intact:
  assumes "cs_inv base h st"
  shows "stream_intact base h st l"
  unfolding stream_intact_def
proof (intro allI impI)
  fix io
  assume io: "cs_io st (opp l) = Some io"
  have "cdir base h st l" and live: "io_live io" using cs_live_leg [OF assms io] assms(1) by (simp_all add: cs_inv_def)
  then have *: "io_accepted io @ cs_queue st (opp l) = base (opp l) @ h l"
      "io_shut io \<Longrightarrow> cs_eof st l \<and> cs_queue st (opp l) = []"
    using io by (simp_all add: cdir_Some)
  obtain q where "io_accepted io = io_sent io @ q" using io_disp.sent_prefix [OF live] by blast
  then have "base (opp l) @ h l = io_sent io @ (q @ cs_queue st (opp l))" using * by simp
  then show "io_accepted io @ cs_queue st (opp l) = base (opp l) @ h l \<and>
      (\<exists>q. base (opp l) @ h l = io_sent io @ q) \<and>
      (io_shut io \<longrightarrow> cs_eof st l \<and> io_accepted io = base (opp l) @ h l)"
    using * by force
qed


section \<open>A tail lost by the agent\<close>

lemma tcp_first_write:
  assumes "t = tcp_start (tm_io_tcp_new True True [])" "length d = 65536"
  obtains t' where "tcp_write t d = (TM_OK, t', [])" "tc_wb t' = d" "tc_wb_off t' = 0" "tc_wb_cap t' = 65536" "tc_wreq_pending t'"
    "tc_in_flight t' = 65536" "tc_sent t' = d" "\<not> tc_closed t'" "\<not> tc_write_closed t'" "\<not> tc_free_after_wreq t'"
    "\<not> tc_fin_sent t'" "tc_uv t' = []" "tc_low_cb t'" "tc_error_cb t'"
  using assms that
  by (auto simp: tcp_write_def tcp_start_def tm_io_tcp_new_def TM_IO_HIGH_WATER_def TM_IO_LOW_WATER_def tcp_enqueue_def
      grow_cap.simps [of 65536] tcp_pump_def Let_def)

lemma early_flush:
  assumes "t = tcp_start (tm_io_tcp_new True True [])" "65536 < length q"
  obtains t' where "flush_loop io_write (IoTcp t) q = FlDone (IoTcp t') (drop 65536 q) False"
    "tc_wb t' = take 65536 q" "tc_wb_off t' = 0" "tc_wreq_pending t'" "tc_in_flight t' = 65536" "tc_sent t' = take 65536 q"
    "\<not> tc_closed t'" "\<not> tc_write_closed t'" "\<not> tc_free_after_wreq t'" "tc_low_cb t'"
proof -
  have "length (take 65536 q) = 65536" using assms(2) by simp
  from tcp_first_write [OF assms(1) this] obtain t1 where t1: "tcp_write t (take 65536 q) = (TM_OK, t1, [])" "tc_wb t1 = take 65536 q"
    "tc_wb_off t1 = 0" "tc_wb_cap t1 = 65536" "tc_wreq_pending t1" "tc_in_flight t1 = 65536" "tc_sent t1 = take 65536 q"
    "\<not> tc_closed t1" "\<not> tc_write_closed t1" "\<not> tc_free_after_wreq t1" "tc_low_cb t1" by blast
  let ?r = "drop 65536 q" and ?n = "if length (drop 65536 q) < 65536 then length (drop 65536 q) else 65536"
  have "?n \<noteq> 0" using assms(2) by simp
  moreover have "?n \<le> 65536" by simp
  ultimately have "tcp_write t1 (take ?n ?r) = (TM_ERR_BUSY, t1\<lparr>tc_above_low := True\<rparr>, [])"
    using t1 assms(2) by (simp add: tcp_write_def TM_IO_HIGH_WATER_def)
  then have "flush_loop io_write (IoTcp t1) ?r = FlDone (IoTcp (t1\<lparr>tc_above_low := True\<rparr>)) ?r False"
    using assms(2) by (simp add: flush_loop.simps [of _ _ ?r] io_write_def Let_def)
  then have "flush_loop io_write (IoTcp t) q = FlDone (IoTcp (t1\<lparr>tc_above_low := True\<rparr>)) ?r False"
    using t1(1) assms(2) by (auto simp: flush_loop.simps [of _ _ q] io_write_def Let_def)
  then show thesis by (rule that) (use t1 in simp_all)
qed

lemma early_connected:
  assumes st: "\<not> cs_closing st" "cs_io st Broker \<noteq> None" "cs_eof st Broker" "\<not> cs_eof st Local" "\<not> cs_flushing st Local"
    "65536 < length (cs_queue st Local)"
  obtains st1 t1 where "agent_local_connected [] st = Some st1" "cs_io st1 Local = Some (IoTcp t1)"
    "cs_queue st1 Local = drop 65536 (cs_queue st Local)" "cs_eof st1 = cs_eof st" "cs_fin st1 = cs_fin st"
    "\<not> cs_flushing st1 Local" "\<not> cs_closing st1"
    "tc_wb t1 = take 65536 (cs_queue st Local)" "tc_wb_off t1 = 0" "tc_wreq_pending t1" "tc_in_flight t1 = 65536"
    "tc_sent t1 = take 65536 (cs_queue st Local)" "\<not> tc_closed t1" "tc_write_closed t1" "\<not> tc_free_after_wreq t1" "tc_low_cb t1"
proof -
  define t where "t = tcp_start (tm_io_tcp_new True True [])"
  from early_flush [OF t_def st(6)] obtain t' where t': "flush_loop io_write (IoTcp t) (cs_queue st Local) =
      FlDone (IoTcp t') (drop 65536 (cs_queue st Local)) False"
    "tc_wb t' = take 65536 (cs_queue st Local)" "tc_wb_off t' = 0" "tc_wreq_pending t'" "tc_in_flight t' = 65536"
    "tc_sent t' = take 65536 (cs_queue st Local)" "\<not> tc_closed t'" "\<not> tc_write_closed t'" "\<not> tc_free_after_wreq t'" "tc_low_cb t'"
    by blast
  have ne: "cs_queue st Local \<noteq> []" "drop 65536 (cs_queue st Local) \<noteq> []" using st(6) by auto
  have start: "tm_io_start (Some (IoTcp (tm_io_tcp_new True True []))) = Some (IoTcp t)" by (simp add: tm_io_start_def t_def)
  obtain b b1 b2 where b: "cs_io st Broker = Some b" "tm_io_start (Some b) = Some b1" "tm_io_pause_read (Some b1) = Some b2"
    using st(2) io_read_ops_Some by (metis not_None_eq)
  define st1 where "st1 = st\<lparr>cs_connecting := False, cs_timer := False, cs_bound := True,
      cs_queue := (cs_queue st)(Local := drop 65536 (cs_queue st Local)), cs_paused := (cs_paused st)(Broker := True),
      cs_io := (cs_io st)(Local \<mapsto> IoTcp (tcp_shutdown_send t'), Broker \<mapsto> b2)\<rparr>"
  show thesis
  proof (rule that [of st1 "tcp_shutdown_send t'"])
    have twist: "f(Local := x, Broker := y, Local := z) = f(Local := z, Broker := y)" for f :: "side \<Rightarrow> tm_io option" and x y z
      by (simp add: fun_eq_iff)
    show "agent_local_connected [] st = Some st1"
      using st ne b start t'(1)
      by (simp add: agent_local_connected_def cs_flush_def cs_shutdown_def tm_io_shutdown_send_def st1_def Let_def twist)
  qed (use st t' in \<open>simp_all add: st1_def tcp_shutdown_send_def Let_def\<close>)
qed

lemma dropped_after_write:
  assumes io: "cs_io st Local = Some (IoTcp t)" "\<not> cs_closing st" and q: "cs_queue st Local \<noteq> []" "\<not> cs_flushing st Local"
    and e: "cs_eof st Broker" "\<not> cs_eof st Local" "\<not> cs_fin st Local"
    and t: "tc_wb t \<noteq> []" "tc_wb_off t = 0" "tc_in_flight t = length (tc_wb t)" "\<not> tc_closed t" "tc_write_closed t"
      "\<not> tc_free_after_wreq t" "tc_low_cb t"
  obtains st2 t2 where "cs_write_done Local UV_OK st = Some st2" "\<not> cs_closing st2" "cs_io st2 Local = Some (IoTcp t2)"
    "tc_write_closed t2" "tc_sent t2 = tc_sent t" "cs_queue st2 Local = []"
proof -
  let ?t = "tcp_write_acked t"
  have a: "tc_wb ?t = []" "tc_wb_off ?t = 0" "\<not> tc_wreq_pending ?t" "\<not> tc_closed ?t" "tc_write_closed ?t" "tc_low_cb ?t"
      "tc_sent ?t = tc_sent t" "\<not> tc_free_after_wreq ?t"
    using t by (simp_all add: tcp_write_acked_def Let_def)
  have w: "tcp_write_done t UV_OK = Some (?t, [UpLow], True)"
    using a by (simp add: tcp_write_done_def tcp_maybe_low_def Let_def)
  have f: "flush_loop io_write (IoTcp ?t) (cs_queue st Local) = FlDone (IoTcp ?t) [] True"
    using a q(1) by (simp add: flush_loop.simps [of _ _ "cs_queue st Local"] io_write_def tcp_write_def Let_def)
  define s1 where "s1 = (let s = st\<lparr>cs_queue := (cs_queue st)(Local := []), cs_cap := (cs_cap st)(Local := 0),
        cs_fin := (cs_fin st)(Local := True), cs_io := (cs_io st)(Local \<mapsto> IoTcp ?t)\<rparr>
      in if cs_paused s Broker then cs_set_io Broker (tm_io_resume_read (cs_io s Broker)) (s\<lparr>cs_paused := (cs_paused s)(Broker := False)\<rparr>) else s)"
  have s1: "cs_up2 Local UpLow (cs_set_io Local (Some (IoTcp ?t)) st) = Some s1"
    using io q e f a
    by (simp add: numeral_2_eq_2 cs_low_def cs_flush_def cs_shutdown_def tm_io_shutdown_send_def tcp_shutdown_send_def
        cs_maybe_close_def s1_def Let_def)
  have k: "cs_io s1 Local = Some (IoTcp ?t)" "cs_queue s1 Local = []" "\<not> cs_closing s1" "cs_fin s1 Local" "\<not> cs_eof s1 Local" "\<not> cs_paused s1 Broker"
    using io(2) e by (simp_all add: s1_def Let_def)
  have p: "tcp_pump ?t = (?t\<lparr>tc_wb := [], tc_wb_off := 0\<rparr>, [UpLow])" using a by (simp add: tcp_pump_def tcp_maybe_low_def Let_def)
  have "?t\<lparr>tc_wb := [], tc_wb_off := 0\<rparr> = ?t" using a by simp
  then have tail: "cs_tcp_done_tail Local ?t s1 = Some (cs_set_io Local (Some (IoTcp (tcp_pump_tail ?t))) s1)"
    using p k a by (simp add: cs_tcp_done_tail_def tcp_write_done_tail_def numeral_2_eq_2 cs_low_def cs_flush_def cs_maybe_close_def fun_upd_idem)
  show thesis
  proof (rule that [of _ "tcp_pump_tail ?t"])
    show "cs_write_done Local UV_OK st = Some (cs_set_io Local (Some (IoTcp (tcp_pump_tail ?t))) s1)"
      using io w s1 k tail by (simp add: cs_write_done_def)
  qed (use k a in \<open>simp_all add: tcp_pump_tail_def tcp_fin_def\<close>)
qed

text \<open>
  (C32) When the broker side ends before the agent's local connection is established and more than 64 KiB have
  arrived, the agent half-closes the local leg although bytes are still queued for it, and discards
  them at the next completed write: the local service receives the first 64 KiB and a clean end
  of stream.
\<close>

theorem early_end_drops_tail:
  assumes "agent_reach base h st" "\<not> cs_closing st" "cs_io st Local = None" "cs_eof st Broker" "\<not> cs_eof st Local"
    "65536 < length (h Broker)"
  shows "\<exists>st1 st2 io. agent_local_connected [] st = Some st1 \<and> cs_write_done Local UV_OK st1 = Some st2 \<and>
    \<not> cs_closing st2 \<and> cs_io st2 Local = Some io \<and> io_shut io \<and> io_sent io = take 65536 (h Broker) \<and>
    cs_queue st2 Local = []"
proof -
  have inv: "cs_inv base h st" by (rule agent_reach_inv [OF assms(1)])
  then have d: "cdir base h st Broker" "\<not> cs_flushing st Local" using assms(2) by (simp_all add: cs_inv_def)
  then have q: "cs_queue st Local = h Broker" "\<not> cs_fin st Local" using assms(3,6) by (auto simp: cdir_def)
  then have len: "65536 < length (cs_queue st Local)" using assms(6) by simp
  from early_connected [OF assms(2) cs_broker_io [OF inv assms(2)] assms(4,5) d(2) len]
  obtain st1 t1 where 1: "agent_local_connected [] st = Some st1" "cs_io st1 Local = Some (IoTcp t1)"
    "cs_queue st1 Local = drop 65536 (cs_queue st Local)" "cs_eof st1 = cs_eof st" "cs_fin st1 = cs_fin st"
    "\<not> cs_flushing st1 Local" "\<not> cs_closing st1"
    "tc_wb t1 = take 65536 (cs_queue st Local)" "tc_wb_off t1 = 0" "tc_wreq_pending t1" "tc_in_flight t1 = 65536"
    "tc_sent t1 = take 65536 (cs_queue st Local)" "\<not> tc_closed t1" "tc_write_closed t1" "\<not> tc_free_after_wreq t1" "tc_low_cb t1"
    by blast
  have 2: "cs_queue st1 Local \<noteq> []" "cs_eof st1 Broker" "\<not> cs_eof st1 Local" "\<not> cs_fin st1 Local" "tc_wb t1 \<noteq> []"
      "tc_in_flight t1 = length (tc_wb t1)"
    using 1 len q assms(4,5) by auto
  from dropped_after_write [OF 1(2,7) 2(1) 1(6) 2(2-5) 1(9) 2(6) 1(13-16)]
  obtain st2 t2 where "cs_write_done Local UV_OK st1 = Some st2" "\<not> cs_closing st2" "cs_io st2 Local = Some (IoTcp t2)"
    "tc_write_closed t2" "tc_sent t2 = tc_sent t1" "cs_queue st2 Local = []" by blast
  then show ?thesis using 1(1,12) q(1) by auto
qed

section \<open>Examples\<close>

lemma demo_leg_fresh: "io_live demo_leg" "\<not> io_shut demo_leg" "io_accepted demo_leg = []"
  by (simp_all add: demo_leg_def demo_ssl_def promote_open_def tm_ssl_stream_new_def ssl_live_def ssl_inv_def ssl_accepted_def)

definition demo_astream :: tm_astream where
  "demo_astream = agent_bind_ok [] ((astream_new 1 0)\<lparr>cs_io := [Broker \<mapsto> demo_leg], cs_fr := None\<rparr>)"

definition demo_psess :: tm_psess where
  "demo_psess = the (peer_bind_ok [] [7, 8] (psess_new\<lparr>cs_io := [Broker \<mapsto> demo_leg], cs_fr := None, ps_got_hello := True\<rparr>))"

lemmas demo_new_defs = demo_astream_def agent_bind_ok_def astream_new_def demo_psess_def peer_bind_ok_def psess_new_def
  cstream_new_def cstream.defs tm_astream.defs tm_psess.defs

lemma demo_astream_reach: "agent_reach (\<lambda>_. []) (\<lambda>_. []) demo_astream"
  using agent_reach.bound [OF demo_leg_fresh(1,2), where lo = "[]" and sid = 1 and now = 0 and fr = None]
  by (simp add: demo_astream_def demo_leg_fresh fun_upd_idem)

lemma demo_psess_reach: "peer_reach (\<lambda>_. []) ((\<lambda>_. [])(Broker := [7, 8])) demo_psess"
proof -
  let ?s = "psess_new\<lparr>cs_io := [Broker \<mapsto> demo_leg], cs_fr := None, ps_got_hello := True\<rparr>"
  have "peer_bind_ok [] [7, 8] ?s = Some demo_psess"
    by (simp add: demo_new_defs tm_io_start_def tm_io_tcp_new_def tcp_start_def tm_io_write_def io_write_def tcp_write_def
        TM_IO_HIGH_WATER_def TM_IO_LOW_WATER_def tcp_enqueue_def grow_cap.simps [of 65536] tcp_pump_def Let_def)
  from peer_reach.bound [OF demo_leg_fresh(1,2) _ this] show ?thesis
    by (simp add: TM_IO_HIGH_WATER_def demo_leg_fresh fun_upd_idem)
qed


theorem early_end_drops_tail_witness:
  "\<exists>st st1 st2 io. agent_reach (\<lambda>_. []) ((\<lambda>_. [])(Broker := replicate 65537 7)) st \<and>
     agent_local_connected [] st = Some st1 \<and> cs_write_done Local UV_OK st1 = Some st2 \<and>
     cs_io st2 Local = Some io \<and> io_shut io \<and> io_sent io = replicate 65536 7 \<and> cs_queue st2 Local = []"
proof -
  let ?d = "replicate 65537 (7 :: u8)"
  obtain s1 where s1: "agent_broker_read ?d demo_astream = Some s1" "\<not> cs_closing s1" "cs_io s1 Local = None" "\<not> cs_eof s1 Local"
    "\<not> cs_eof s1 Broker"
    by (simp add: agent_broker_read_def demo_new_defs TM_IO_HIGH_WATER_def cs_append_def Let_def)
  have r1: "agent_reach (\<lambda>_. []) ((\<lambda>_. [])(Broker := ?d)) s1"
    using agent_reach.broker_read [OF demo_astream_reach _ s1(1)] by (simp add: demo_new_defs)
  let ?s = "s1\<lparr>cs_eof := (cs_eof s1)(Broker := True)\<rparr>"
  have "relay_broker_eof s1 = Some ?s" using s1 by (simp add: relay_broker_eof_def)
  from agent_reach.broker_eof [OF r1 this] have r: "agent_reach (\<lambda>_. []) ((\<lambda>_. [])(Broker := ?d)) ?s" .
  have "\<exists>st1 st2 io. agent_local_connected [] ?s = Some st1 \<and> cs_write_done Local UV_OK st1 = Some st2 \<and>
      \<not> cs_closing st2 \<and> cs_io st2 Local = Some io \<and> io_shut io \<and>
      io_sent io = take 65536 (((\<lambda>_. [])(Broker := ?d)) Broker) \<and> cs_queue st2 Local = []"
    by (rule early_end_drops_tail [OF r]) (use s1 in simp_all)
  then show ?thesis using r by (auto simp: take_replicate)
qed

end
