(* ===== verification/CliUdp.thy ===== *)
theory CliUdp
  imports UdpInv
begin

text \<open>
  The UDP planes of the clients, \<open>agent/src/udp.c\<close> and \<open>peer/src/udp.c\<close>: one DTLS session to the broker
  whose queue and pump the two files share word for word, and a table of local flows. The session
  is \<open>cli_udp\<close>; the agent and the peer extend it with their flows. OpenSSL's answers are the tapes \<open>cu_sw\<close> (to
  \<open>SSL_write\<close>) and \<open>cu_bio\<close> (whether the network BIO has another record); \<open>cu_plain\<close> records the messages
  OpenSSL took and \<open>cu_sent\<close> counts the records given to the socket. What a local socket was
  given is recorded with its destination.
\<close>

section \<open>The session\<close>

record cli_udp =
  cu_ssl :: bool
  cu_authed :: bool
  cu_closing :: bool
  cu_sock :: uv_handle
  cu_timer :: uv_handle
  cu_outq :: bytes
  cu_outq_cap :: nat
  cu_outq_off :: nat
  cu_outq_packets :: nat
  cu_sw :: "dtls_ans list"
  cu_bio :: "bool list"
  cu_plain :: "bytes list"
  cu_sent :: nat

text \<open>
  The first half of \<open>pump_out\<close>: hand the next message to \<open>SSL_write\<close>. \<open>TkIdle\<close>: nothing is queued;
  \<open>TkTook\<close>: OpenSSL took it; \<open>TkStop\<close>: the session has failed; \<open>TkRet\<close>: the function returns.
\<close>

datatype take_result = TkIdle | TkTook | TkStop | TkRet

definition cu_take :: "'a cli_udp_scheme \<Rightarrow> take_result \<times> 'a cli_udp_scheme" where
  "cu_take u =
     (let len = length (cu_outq u); off = cu_outq_off u in
      if \<not> off < len then (TkIdle, u)
      else if len - off < 4 then (TkRet, u)
      else
        let plen = unat (rd_u32 (drop off (cu_outq u))) in
        if len - off - 4 < plen then (TkRet, u)
        else
          let (w, u) = (case cu_sw u of [] \<Rightarrow> (DwWant, u) | a # as \<Rightarrow> (a, u\<lparr>cu_sw := as\<rparr>)) in
          if w = DwWant then (TkRet, u)
          else if w = DwFail then (TkStop, u)
          else
            let n = (case w of DwPart n \<Rightarrow> n | _ \<Rightarrow> plen);
                u = u\<lparr>cu_plain := cu_plain u @ [take n (drop (off + 4) (cu_outq u))]\<rparr>
            in if n \<noteq> plen then (TkRet, u)
               else
                 let u = u\<lparr>cu_outq_off := off + 4 + plen, cu_outq_packets := cu_outq_packets u - 1\<rparr>
                 in (TkTook, if cu_outq_off u = length (cu_outq u)
                             then u\<lparr>cu_outq := [], cu_outq_off := 0\<rparr> else u))"

text \<open>The loop that empties the BIO into the socket.\<close>

definition cu_emit :: "'a cli_udp_scheme \<Rightarrow> 'a cli_udp_scheme" where
  "cu_emit u =
     (let n = length (takeWhile id (cu_bio u))
      in u\<lparr>cu_bio := drop (Suc n) (cu_bio u), cu_sent := cu_sent u + n\<rparr>)"

lemma cu_take_shrinks:
  "cu_take u = (TkTook, u') \<Longrightarrow> length (cu_outq u') - cu_outq_off u' < length (cu_outq u) - cu_outq_off u"
  by (auto simp: cu_take_def Let_def split: if_splits prod.splits list.splits)

text \<open>\<open>pump_out\<close>, which calls itself while messages are queued; the flag is a failed session.\<close>

function cu_pump :: "'a cli_udp_scheme \<Rightarrow> bool \<times> 'a cli_udp_scheme" where
  "cu_pump u =
     (if cu_closing u \<or> \<not> cu_ssl u then (False, u)
      else case cu_take u of
        (TkStop, u) \<Rightarrow> (True, u)
      | (TkRet, u) \<Rightarrow> (False, u)
      | (TkIdle, u) \<Rightarrow> (False, cu_emit u)
      | (TkTook, u) \<Rightarrow>
          let u = cu_emit u
          in if cu_outq_off u < length (cu_outq u) then cu_pump u else (False, u))"
  by pat_completeness auto
termination
  by (relation "measure (\<lambda>u. length (cu_outq u) - cu_outq_off u)")
    (auto dest!: cu_take_shrinks [OF sym] simp: cu_emit_def Let_def)

declare cu_pump.simps [simp del]

definition cu_limit :: "int \<Rightarrow> nat" where
  "cu_limit max_datagram = (256 * (size_of max_datagram + 15)) mod 2 ^ 64"

definition cu_admits :: "int \<Rightarrow> nat \<Rightarrow> 'a cli_udp_scheme \<Rightarrow> bool" where
  "cu_admits max_datagram len u \<longleftrightarrow>
     \<not> (256 \<le> cu_outq_packets u \<or> 2 ^ 32 \<le> len \<or>
        cu_limit max_datagram < length (cu_outq u) - cu_outq_off u + 4 + len)"

text \<open>The copy into the queue, which is compacted before it grows.\<close>

definition cu_append :: "bytes \<Rightarrow> 'a cli_udp_scheme \<Rightarrow> 'a cli_udp_scheme" where
  "cu_append data u =
     (let need = 4 + length data;
          u = (if cu_outq_cap u < length (cu_outq u) + need then
                 let u = (if cu_outq_off u \<noteq> 0
                          then u\<lparr>cu_outq := drop (cu_outq_off u) (cu_outq u), cu_outq_off := 0\<rparr> else u)
                 in if cu_outq_cap u < length (cu_outq u) + need
                    then u\<lparr>cu_outq_cap := grow_cap (if cu_outq_cap u \<noteq> 0 then cu_outq_cap u * 2 else 4096)
                                            (length (cu_outq u) + need)\<rparr>
                    else u
               else u)
      in u\<lparr>cu_outq := cu_outq u @ wr_u32 (of_nat (length data)) @ data,
           cu_outq_packets := cu_outq_packets u + 1\<rparr>)"

text \<open>\<open>udp_queue\<close>.\<close>

definition cu_queue :: "int \<Rightarrow> bytes \<Rightarrow> 'a cli_udp_scheme \<Rightarrow> bool \<times> 'a cli_udp_scheme" where
  "cu_queue max_datagram data u =
     (if cu_closing u \<or> \<not> cu_ssl u then (False, u)
      else if \<not> cu_admits max_datagram (length data) u then (False, u)
      else cu_pump (cu_append data u))"

text \<open>What stopping a session does to it.\<close>

definition cu_reset :: "'a cli_udp_scheme \<Rightarrow> 'a cli_udp_scheme" where
  "cu_reset u =
     u\<lparr>cu_ssl := False, cu_outq := [], cu_outq_cap := 0, cu_outq_off := 0, cu_outq_packets := 0,
       cu_authed := False\<rparr>"

definition close_handle :: "uv_handle \<Rightarrow> uv_handle" where
  "close_handle h = (if h = HClosing then h else HClosing)"

text \<open>The state of the handshake after a datagram: \<open>SSL_get_error\<close> and \<open>SSL_is_init_finished\<close>.\<close>

datatype dtls_hs = HsWant | HsFail | HsNone bool

section \<open>The agent's flows\<close>

record tm_alflow =
  al_flow_id :: u64
  al_last_seen_ms :: u64
  al_pkt_win_start :: u64
  al_pkt_win_count :: int

record udp_cfg =
  uc_secret :: bytes
  uc_flow_idle_timeout_ms :: int
  uc_max_datagram_size :: int
  uc_max_packets_per_flow :: int
  uc_max_flows :: int

text \<open>
  \<open>au_conn\<close>: whether the socket of the next new flow can be connected; past its end it can.
  \<open>au_out\<close>: the datagrams given to the local sockets, by flow.
\<close>

record agent_udp = cli_udp +
  au_flows :: "(addr \<times> tm_alflow) list"
  au_heap :: addr
  au_conn :: "bool list"
  au_out :: "(u64 \<times> bytes) list"

definition agent_flow_close :: "addr \<Rightarrow> agent_udp \<Rightarrow> agent_udp" where
  "agent_flow_close fa u = u\<lparr>au_flows := unlink fa (au_flows u)\<rparr>"

definition agent_flow_find :: "agent_udp \<Rightarrow> u64 \<Rightarrow> (addr \<times> tm_alflow) option" where
  "agent_flow_find u flow_id = List.find (\<lambda>(_, f). al_flow_id f = flow_id) (au_flows u)"

definition tm_agent_udp_stop :: "agent_udp \<Rightarrow> agent_udp" where
  "tm_agent_udp_stop u =
     (if \<not> cu_ssl u \<and> au_flows u = [] \<and> cu_outq_cap u = 0 then u
      else cu_reset (u\<lparr>cu_sock := close_handle (cu_sock u), cu_timer := close_handle (cu_timer u), au_flows := []\<rparr>))"

abbreviation agent_pumped :: "bool \<times> agent_udp \<Rightarrow> agent_udp" where
  "agent_pumped r \<equiv> (case r of (stop, u) \<Rightarrow> if stop then tm_agent_udp_stop u else u)"

definition agent_pump_out :: "agent_udp \<Rightarrow> agent_udp" where
  "agent_pump_out u = agent_pumped (cu_pump u)"

definition agent_udp_queue :: "udp_cfg \<Rightarrow> bytes \<Rightarrow> agent_udp \<Rightarrow> agent_udp" where
  "agent_udp_queue cfg data u = agent_pumped (cu_queue (uc_max_datagram_size cfg) data u)"

text \<open>A datagram from the local service on the socket of the flow at \<open>fa\<close>.\<close>

definition flow_recv_cb :: "udp_cfg \<Rightarrow> u64 \<Rightarrow> addr \<Rightarrow> bytes \<Rightarrow> agent_udp \<Rightarrow> agent_udp option" where
  "flow_recv_cb cfg now fa d u =
     (case map_of (au_flows u) fa of
        None \<Rightarrow> None
      | Some f \<Rightarrow>
          if cu_closing u \<or> \<not> cu_authed u then Some u
          else
            let f = (if 1000 \<le> now - al_pkt_win_start f
                     then f\<lparr>al_pkt_win_start := now, al_pkt_win_count := 0\<rparr> else f) in
            if uc_max_packets_per_flow cfg \<le> al_pkt_win_count f
            then Some (u\<lparr>au_flows := put fa f (au_flows u)\<rparr>)
            else
              let f = f\<lparr>al_pkt_win_count := al_pkt_win_count f + 1, al_last_seen_ms := now\<rparr>;
                  u = u\<lparr>au_flows := put fa f (au_flows u)\<rparr>
              in Some (if size_of (uc_max_datagram_size cfg) < length d then u
                       else agent_udp_queue cfg (tm_env_encode (al_flow_id f) 0 d) u))"

text \<open>A datagram from the broker for the local service.\<close>

definition agent_broker_env :: "udp_cfg \<Rightarrow> u64 \<Rightarrow> u64 \<Rightarrow> bytes \<Rightarrow> agent_udp \<Rightarrow> agent_udp" where
  "agent_broker_env cfg now flow_id payload u =
     (if flow_id = 0 then u
      else if u32_of (uc_max_datagram_size cfg) < length payload then u
      else
        let send = (\<lambda>fa f u. u\<lparr>au_flows := put fa (f\<lparr>al_last_seen_ms := now\<rparr>) (au_flows u),
                                au_out := au_out u @ [(flow_id, payload)]\<rparr>)
        in case agent_flow_find u flow_id of
             Some (fa, f) \<Rightarrow> send fa f u
           | None \<Rightarrow>
               if uc_max_flows cfg \<le> int (length (au_flows u)) then u
               else
                 let ok = (case au_conn u of [] \<Rightarrow> True | r # _ \<Rightarrow> r);
                     u = u\<lparr>au_conn := tl (au_conn u)\<rparr>;
                     fa = au_heap u;
                     f = \<lparr>al_flow_id = flow_id, al_last_seen_ms = now, al_pkt_win_start = 0, al_pkt_win_count = 0\<rparr>
                 in if ok then send fa f (u\<lparr>au_flows := (fa, f) # au_flows u, au_heap := Suc fa\<rparr>)
                    else u\<lparr>au_heap := Suc fa\<rparr>)"

definition agent_flow_sweep :: "udp_cfg \<Rightarrow> u64 \<Rightarrow> agent_udp \<Rightarrow> agent_udp" where
  "agent_flow_sweep cfg now u =
     foldl (\<lambda>u (fa, f). if word_of_int (uc_flow_idle_timeout_ms cfg) < now - al_last_seen_ms f
                        then agent_flow_close fa u else u) u (au_flows u)"

text \<open>The messages of an established session; the flag says that the loop has returned.\<close>

fun agent_udp_messages :: "udp_cfg \<Rightarrow> u64 \<Rightarrow> bytes list \<Rightarrow> agent_udp \<Rightarrow> bool \<times> agent_udp" where
  "agent_udp_messages cfg now [] u = (False, u)"
| "agent_udp_messages cfg now (d # ds) u =
     (case tm_env_decode d of
        None \<Rightarrow> agent_udp_messages cfg now ds u
      | Some (flow_id, flags, payload) \<Rightarrow>
          if flags = TM_ENV_FLAG_AUTH_OK then agent_udp_messages cfg now ds (u\<lparr>cu_authed := True\<rparr>)
          else if flags = TM_ENV_FLAG_AUTH_ERR then (True, tm_agent_udp_stop u)
          else agent_udp_messages cfg now ds
                 (if flags = 0 then agent_broker_env cfg now flow_id payload u else u))"

text \<open>
  \<open>udp_recv_cb\<close> of the agent: \<open>finished\<close> is whether the handshake had finished before, \<open>hs\<close> how it went
  on otherwise, \<open>ds\<close> what \<open>SSL_read\<close> returns.
\<close>

definition agent_udp_recv ::
    "udp_cfg \<Rightarrow> u64 \<Rightarrow> bool \<Rightarrow> dtls_hs \<Rightarrow> bytes list \<Rightarrow> agent_udp \<Rightarrow> agent_udp" where
  "agent_udp_recv cfg now finished hs ds u =
     (if cu_closing u then u
      else if \<not> finished then
        (case hs of
           HsWant \<Rightarrow> agent_pump_out u
         | HsFail \<Rightarrow> tm_agent_udp_stop u
         | HsNone fin \<Rightarrow>
             agent_pump_out
               (if fin then agent_udp_queue cfg (tm_env_encode 0 TM_ENV_FLAG_AUTH_REQ (uc_secret cfg)) u else u))
      else case agent_udp_messages cfg now ds u of
        (returned, u) \<Rightarrow> if returned then u else agent_pump_out u)"

text \<open>
  What can go wrong while a session starts: the address and \<open>uv_udp_connect\<close>, then the three calls that
  set up OpenSSL. The session gets the tapes \<open>sw\<close> and \<open>bio\<close>.
\<close>

record udp_env =
  ue_connects :: bool
  ue_ssl :: bool
  ue_sw :: "dtls_ans list"
  ue_bio :: "bool list"

text \<open>
  libuv requires that a registered or closing handle is not initialised again; the result is \<open>None\<close>
  where the code does.
\<close>

definition tm_agent_udp_start :: "udp_env \<Rightarrow> agent_udp \<Rightarrow> agent_udp option" where
  "tm_agent_udp_start env u =
     (if cu_ssl u then Some u
      else if cu_sock u \<noteq> HNone then None
      else if \<not> ue_connects env \<or> \<not> ue_ssl env then Some (u\<lparr>cu_sock := HClosing\<rparr>)
      else if cu_timer u \<noteq> HNone then None
      else Some (agent_pump_out
             (u\<lparr>cu_sock := HActive, cu_ssl := True, cu_timer := HActive, cu_sw := ue_sw env, cu_bio := ue_bio env\<rparr>)))"

end
