(* ===== verification/PeerUdp.thy ===== *)
theory PeerUdp
  imports CliUdp "HOL-Library.Signed_Division"
begin

text \<open>
  The UDP plane of the peer, \<open>peer/src/udp.c\<close>: a table that maps the source address of a local application to
  a flow id of the peer's choice, and the life of the DTLS session with its reconnect timer. The result
  \<open>None\<close> is a libuv handle initialised while it is registered or closing.
\<close>

section \<open>State\<close>

record tm_pflow =
  pf_flow_id :: u64
  pf_src :: sockaddr
  pf_last_seen_ms :: u64

record peer_udp = cli_udp +
  pu_local :: uv_handle
  pu_flow_timer :: uv_handle
  pu_reconnect :: uv_handle
  pu_reconnect_in :: "u64 option"
  pu_reconnect_delay_ms :: u64
  pu_reconnect_max_ms :: int
  pu_next_flow_id :: u64
  pu_flows :: "(addr \<times> tm_pflow) list"
  pu_heap :: addr
  pu_out :: "(sockaddr \<times> bytes) list"
  pu_shutting_down :: bool

section \<open>The flow table\<close>

definition peer_flow_close :: "addr \<Rightarrow> peer_udp \<Rightarrow> peer_udp" where
  "peer_flow_close fa u = u\<lparr>pu_flows := unlink fa (pu_flows u)\<rparr>"

definition peer_flow_find :: "peer_udp \<Rightarrow> u64 \<Rightarrow> (addr \<times> tm_pflow) option" where
  "peer_flow_find u flow_id = List.find (\<lambda>(_, f). pf_flow_id f = flow_id) (pu_flows u)"

definition peer_flow_find_src :: "peer_udp \<Rightarrow> sockaddr \<Rightarrow> (addr \<times> tm_pflow) option" where
  "peer_flow_find_src u ad = List.find (\<lambda>(_, f). tm_addr_eq (Some (pf_src f)) (Some ad)) (pu_flows u)"

text \<open>
  The loop of \<open>flow_id_new\<close> with fuel; one more than the number of flows is enough,
  since every round tries another id.
\<close>

fun flow_id_loop :: "nat \<Rightarrow> peer_udp \<Rightarrow> (u64 \<times> peer_udp) option" where
  "flow_id_loop 0 u = None"
| "flow_id_loop (Suc n) u =
     (let i = pu_next_flow_id u;
          u = u\<lparr>pu_next_flow_id := i + 1\<rparr>;
          (i, u) = (if i = 0 then (pu_next_flow_id u, u\<lparr>pu_next_flow_id := pu_next_flow_id u + 1\<rparr>) else (i, u))
      in if peer_flow_find u i \<noteq> None then flow_id_loop n u else Some (i, u))"

definition flow_id_new :: "peer_udp \<Rightarrow> (u64 \<times> peer_udp) option" where
  "flow_id_new u = flow_id_loop (Suc (length (pu_flows u))) u"

section \<open>The session's life\<close>

definition peer_jitter :: "u64 \<Rightarrow> u64 \<Rightarrow> u64" where
  "peer_jitter delay now =
     (let jitter = sint delay sdiv 5
      in delay + (now mod word_of_int (2 * jitter + 1) - word_of_int jitter))"

definition tm_peer_udp_stop :: "u64 \<Rightarrow> peer_udp \<Rightarrow> peer_udp option" where
  "tm_peer_udp_stop now u =
     (if \<not> cu_ssl u \<and> pu_flows u = [] \<and> cu_outq_cap u = 0 then Some u
      else
        let u = cu_reset (u\<lparr>cu_sock := close_handle (cu_sock u), pu_local := close_handle (pu_local u),
                            pu_flows := []\<rparr>);
            u = u\<lparr>cu_closing := True\<rparr>
        in if pu_shutting_down u then Some u
           else
             let d = pu_reconnect_delay_ms u * 2;
                 d = (if word_of_int (pu_reconnect_max_ms u) < d then word_of_int (pu_reconnect_max_ms u) else d)
             in if pu_reconnect u \<noteq> HNone then None
                else Some (u\<lparr>pu_reconnect_delay_ms := d, pu_reconnect := HActive,
                             pu_reconnect_in := Some (peer_jitter d now)\<rparr>))"

abbreviation peer_pumped :: "u64 \<Rightarrow> bool \<times> peer_udp \<Rightarrow> peer_udp option" where
  "peer_pumped now r \<equiv> (case r of (stop, u) \<Rightarrow> if stop then tm_peer_udp_stop now u else Some u)"

definition peer_pump_out :: "u64 \<Rightarrow> peer_udp \<Rightarrow> peer_udp option" where
  "peer_pump_out now u = peer_pumped now (cu_pump u)"

definition peer_udp_queue :: "udp_cfg \<Rightarrow> u64 \<Rightarrow> bytes \<Rightarrow> peer_udp \<Rightarrow> peer_udp option" where
  "peer_udp_queue cfg now data u = peer_pumped now (cu_queue (uc_max_datagram_size cfg) data u)"

text \<open>The answers of the environment to \<open>tm_peer_udp_start\<close>, in the order it asks.\<close>

record peer_env =
  pe_listen_addr :: bool
  pe_bind :: bool
  pe_broker_addr :: bool
  pe_connect :: bool
  pe_ssl :: bool
  pe_sw :: "dtls_ans list"
  pe_bio :: "bool list"

definition tm_peer_udp_start :: "peer_env \<Rightarrow> u64 \<Rightarrow> peer_udp \<Rightarrow> peer_udp option" where
  "tm_peer_udp_start env now u =
     (if cu_ssl u \<or> pu_shutting_down u then Some u
      else if pu_local u \<noteq> HNone then None
      else if \<not> pe_listen_addr env then Some (u\<lparr>pu_local := HActive\<rparr>)
      else if \<not> pe_bind env then Some (u\<lparr>pu_local := HClosing\<rparr>)
      else if cu_sock u \<noteq> HNone then None
      else if \<not> pe_broker_addr env then Some (u\<lparr>pu_local := HActive, cu_sock := HActive\<rparr>)
      else if \<not> pe_connect env \<or> \<not> pe_ssl env then Some (u\<lparr>pu_local := HActive, cu_sock := HClosing\<rparr>)
      else if pu_flow_timer u \<noteq> HNone \<or> cu_timer u \<noteq> HNone then None
      else peer_pump_out now
             (u\<lparr>pu_local := HActive, cu_sock := HActive, cu_ssl := True, pu_flow_timer := HActive, cu_timer := HActive,
                cu_closing := False, cu_sw := pe_sw env, cu_bio := pe_bio env\<rparr>))"

text \<open>The reconnect timer fires.\<close>

definition udp_reconnect :: "peer_env \<Rightarrow> u64 \<Rightarrow> peer_udp \<Rightarrow> peer_udp option" where
  "udp_reconnect env now u =
     (if pu_shutting_down u then Some u
      else tm_peer_udp_start env now (u\<lparr>pu_reconnect := HClosing, pu_reconnect_in := None\<rparr>))"

text \<open>libuv has finished closing the sockets and the reconnect timer (the code has no close callbacks).\<close>

definition peer_handles_closed :: "peer_udp \<Rightarrow> peer_udp" where
  "peer_handles_closed u =
     (let done = (\<lambda>h. if h = HClosing then HNone else h)
      in u\<lparr>cu_sock := done (cu_sock u), pu_local := done (pu_local u), pu_reconnect := done (pu_reconnect u)\<rparr>)"

section \<open>Datagrams\<close>

definition local_recv_cb :: "udp_cfg \<Rightarrow> u64 \<Rightarrow> sockaddr \<Rightarrow> bytes \<Rightarrow> peer_udp \<Rightarrow> peer_udp option" where
  "local_recv_cb cfg now ad d u =
     (if cu_closing u \<or> \<not> cu_authed u then Some u
      else if size_of (uc_max_datagram_size cfg) < length d then Some u
      else
        let send = (\<lambda>fa f u. peer_udp_queue cfg now (tm_env_encode (pf_flow_id f) 0 d)
                               (u\<lparr>pu_flows := put fa (f\<lparr>pf_last_seen_ms := now\<rparr>) (pu_flows u)\<rparr>))
        in case peer_flow_find_src u ad of
             Some (fa, f) \<Rightarrow> send fa f u
           | None \<Rightarrow>
               if uc_max_flows cfg \<le> int (length (pu_flows u)) then Some u
               else
                 do { (i, u) \<leftarrow> flow_id_new u;
                      let f = \<lparr>pf_flow_id = i, pf_src = ad, pf_last_seen_ms = now\<rparr>;
                      send (pu_heap u) f (u\<lparr>pu_flows := (pu_heap u, f) # pu_flows u, pu_heap := Suc (pu_heap u)\<rparr>) })"

definition peer_broker_env :: "udp_cfg \<Rightarrow> u64 \<Rightarrow> u64 \<Rightarrow> bytes \<Rightarrow> peer_udp \<Rightarrow> peer_udp" where
  "peer_broker_env cfg now flow_id payload u =
     (if flow_id = 0 then u
      else if u32_of (uc_max_datagram_size cfg) < length payload then u
      else case peer_flow_find u flow_id of
        None \<Rightarrow> u
      | Some (fa, f) \<Rightarrow>
          u\<lparr>pu_flows := put fa (f\<lparr>pf_last_seen_ms := now\<rparr>) (pu_flows u), pu_out := pu_out u @ [(pf_src f, payload)]\<rparr>)"

definition peer_flow_sweep :: "udp_cfg \<Rightarrow> u64 \<Rightarrow> peer_udp \<Rightarrow> peer_udp" where
  "peer_flow_sweep cfg now u =
     foldl (\<lambda>u (fa, f). if word_of_int (uc_flow_idle_timeout_ms cfg) < now - pf_last_seen_ms f
                        then peer_flow_close fa u else u) u (pu_flows u)"

definition keepalive_cb :: "udp_cfg \<Rightarrow> u64 \<Rightarrow> peer_udp \<Rightarrow> peer_udp option" where
  "keepalive_cb cfg now u =
     (if cu_closing u \<or> \<not> cu_authed u then Some u
      else peer_udp_queue cfg now (tm_env_encode 0 0 []) u)"

fun peer_udp_messages :: "udp_cfg \<Rightarrow> u64 \<Rightarrow> bytes list \<Rightarrow> peer_udp \<Rightarrow> (bool \<times> peer_udp) option" where
  "peer_udp_messages cfg now [] u = Some (False, u)"
| "peer_udp_messages cfg now (d # ds) u =
     (case tm_env_decode d of
        None \<Rightarrow> peer_udp_messages cfg now ds u
      | Some (flow_id, flags, payload) \<Rightarrow>
          if flags = TM_ENV_FLAG_AUTH_OK then peer_udp_messages cfg now ds (u\<lparr>cu_authed := True\<rparr>)
          else if flags = TM_ENV_FLAG_AUTH_ERR then map_option (Pair True) (tm_peer_udp_stop now u)
          else peer_udp_messages cfg now ds
                 (if flags = 0 then peer_broker_env cfg now flow_id payload u else u))"

definition peer_udp_recv ::
    "udp_cfg \<Rightarrow> u64 \<Rightarrow> bool \<Rightarrow> dtls_hs \<Rightarrow> bytes list \<Rightarrow> peer_udp \<Rightarrow> peer_udp option" where
  "peer_udp_recv cfg now finished hs ds u =
     (if cu_closing u then Some u
      else if \<not> finished then
        (case hs of
           HsWant \<Rightarrow> peer_pump_out now u
         | HsFail \<Rightarrow> tm_peer_udp_stop now u
         | HsNone fin \<Rightarrow>
             do { u \<leftarrow> (if fin then peer_udp_queue cfg now (tm_env_encode 0 TM_ENV_FLAG_AUTH_REQ (uc_secret cfg)) u
                        else Some u);
                  peer_pump_out now u })
      else do { (returned, u) \<leftarrow> peer_udp_messages cfg now ds u;
                if returned then Some u else peer_pump_out now u })"

definition peer_udp_new :: "int \<Rightarrow> peer_udp" where
  "peer_udp_new max_delay =
     \<lparr>cu_ssl = False, cu_authed = False, cu_closing = False, cu_sock = HNone, cu_timer = HNone, cu_outq = [],
      cu_outq_cap = 0, cu_outq_off = 0, cu_outq_packets = 0, cu_sw = [], cu_bio = [], cu_plain = [], cu_sent = 0,
      pu_local = HNone, pu_flow_timer = HNone, pu_reconnect = HNone, pu_reconnect_in = None,
      pu_reconnect_delay_ms = 0, pu_reconnect_max_ms = max_delay, pu_next_flow_id = 0, pu_flows = [], pu_heap = 0,
      pu_out = [], pu_shutting_down = False\<rparr>"

end
