(* ===== verification/CliUdpInv.thy ===== *)
theory CliUdpInv
  imports PeerUdp
begin

text \<open>
  Properties of the clients' UDP planes: the queue of the DTLS session is a bounded FIFO of whole messages,
  the peer's flow table gives every source its own id and sends replies back to it, and reconnecting
  the peer's session goes wrong.
\<close>

section \<open>The queue\<close>

text \<open>\<open>cu_ok u envs\<close>: the unsent part of the queue is exactly the messages \<open>envs\<close>, each behind its length.\<close>

definition cu_ok :: "'a cli_udp_scheme \<Rightarrow> bytes list \<Rightarrow> bool" where
  "cu_ok u envs \<longleftrightarrow>
     cu_outq_off u \<le> length (cu_outq u) \<and> length (cu_outq u) \<le> cu_outq_cap u \<and>
     drop (cu_outq_off u) (cu_outq u) = concat (map (\<lambda>e. wr_u32 (of_nat (length e)) @ e) envs) \<and>
     cu_outq_packets u = length envs \<and> (\<forall>e \<in> set envs. length e < 2 ^ 32)"

definition cu_whole :: "'a cli_udp_scheme \<Rightarrow> bool" where
  "cu_whole u \<longleftrightarrow> (\<forall>a \<in> set (cu_sw u). \<forall>n. a \<noteq> DwPart n)"

lemma cu_append_ok:
  assumes "cu_ok u envs" "length data < 2 ^ 32"
  shows "cu_ok (cu_append data u) (envs @ [data])"
proof -
  have grow: "n \<le> grow_cap (if c \<noteq> 0 then c * 2 else 4096) n" for c n :: nat
    by (rule grow_cap_ge) simp
  show ?thesis
    using assms grow by (auto simp: cu_ok_def cu_append_def Let_def length_wr_u32)
qed

lemma cu_append_cap:
  assumes "cu_outq_off u \<le> length (cu_outq u)" "length (cu_outq u) - cu_outq_off u + 4 + length data \<le> n"
    and "cu_outq_cap u \<le> max 4096 (2 * n)"
  shows "cu_outq_cap (cu_append data u) \<le> max 4096 (2 * n)"
proof (cases "cu_outq_cap u < length (cu_outq u) - cu_outq_off u + (4 + length data)")
  case True
  let ?need = "length (cu_outq u) - cu_outq_off u + (4 + length data)"
  have "grow_cap (if cu_outq_cap u \<noteq> 0 then cu_outq_cap u * 2 else 4096) ?need \<le> max 4096 (2 * n)"
    using grow_cap_upper [of "if cu_outq_cap u \<noteq> 0 then cu_outq_cap u * 2 else 4096" ?need] True assms(2)
    by (auto split: if_splits)
  then show ?thesis using assms(3) by (auto simp: cu_append_def Let_def)
next
  case False
  then show ?thesis using assms(1,3) by (auto simp: cu_append_def Let_def)
qed

text \<open>One step of the pump takes the first message or leaves the queue as it is.\<close>

lemma cu_take_ok:
  assumes q: "cu_ok u envs" and w: "cu_whole u" and p: "cu_take u = (r, u')"
  shows "cu_whole u' \<and> cu_outq_cap u' = cu_outq_cap u \<and> cu_closing u' = cu_closing u \<and> cu_ssl u' = cu_ssl u \<and>
    (\<exists>rest. cu_ok u' rest \<and> cu_plain u' @ rest = cu_plain u @ envs)"
proof (cases envs)
  case Nil
  then have "\<not> cu_outq_off u < length (cu_outq u)" using q by (simp add: cu_ok_def)
  then show ?thesis using p q w by (auto simp: cu_take_def Let_def)
next
  case (Cons e rest)
  let ?off = "cu_outq_off u" and ?q = "cu_outq u" and ?enc = "\<lambda>e. wr_u32 (of_nat (length e)) @ e"
  have dq: "drop ?off ?q = wr_u32 (of_nat (length e)) @ e @ concat (map ?enc rest)" and le: "length e < 2 ^ 32"
    using q Cons by (auto simp: cu_ok_def)
  have len: "length ?q - ?off = 4 + length e + length (concat (map ?enc rest))"
    using arg_cong [OF dq, of length] by (simp add: length_wr_u32)
  have rd: "unat (rd_u32 (drop ?off ?q)) = length e"
    using le by (simp add: dq unsigned_of_nat take_bit_nat_eq_self)
  have body: "take (length e) (drop (?off + 4) ?q) = e"
    using arg_cong [OF dq, of "drop 4"] by (simp add: length_wr_u32 add.commute)
  have "drop (4 + length e) (drop ?off ?q) = concat (map ?enc rest)" unfolding dq by simp
  then have tail: "drop (?off + 4 + length e) ?q = concat (map ?enc rest)" by (simp add: ac_simps)
  have guards: "?off < length ?q" "\<not> length ?q - ?off < 4" "\<not> length ?q - ?off - 4 < length e"
    using len by simp_all
  obtain a u1 where a: "(case cu_sw u of [] \<Rightarrow> (DwWant, u) | a # as \<Rightarrow> (a, u\<lparr>cu_sw := as\<rparr>)) = (a, u1)" by (rule prod.exhaust)
  then have u1: "cu_whole u1" "\<And>n. a \<noteq> DwPart n" "u1 = u\<lparr>cu_sw := cu_sw u1\<rparr>"
    using w by (auto simp: cu_whole_def split: list.splits)
  have take: "cu_take u =
      (if a = DwWant then (TkRet, u1) else if a = DwFail then (TkStop, u1)
       else let n = (case a of DwPart n \<Rightarrow> n | _ \<Rightarrow> length e);
                u = u1\<lparr>cu_plain := cu_plain u1 @ [take n (drop (?off + 4) (cu_outq u1))]\<rparr>
            in if n \<noteq> length e then (TkRet, u)
               else let u = u\<lparr>cu_outq_off := ?off + 4 + length e, cu_outq_packets := cu_outq_packets u - 1\<rparr>
                    in (TkTook, if cu_outq_off u = length (cu_outq u) then u\<lparr>cu_outq := [], cu_outq_off := 0\<rparr> else u))"
    unfolding cu_take_def Let_def rd using guards a by simp
  have same: "cu_ok u1 envs" "cu_plain u1 = cu_plain u" "cu_outq_cap u1 = cu_outq_cap u" "cu_closing u1 = cu_closing u"
      "cu_ssl u1 = cu_ssl u" "cu_outq u1 = ?q" "cu_outq_packets u1 = cu_outq_packets u"
    using q by (subst u1(3), simp add: cu_ok_def)+
  show ?thesis
  proof (cases "a = DwWhole")
    case False
    then have "u' = u1" using take p u1(2) by (cases a) auto
    then show ?thesis using same u1(1) by auto
  next
    case True
    define v where "v = u1\<lparr>cu_plain := cu_plain u @ [e], cu_outq_off := ?off + 4 + length e, cu_outq_packets := length rest\<rparr>"
    have "cu_outq_packets u - Suc 0 = length rest" using q Cons by (simp add: cu_ok_def)
    then have u': "u' = (if cu_outq_off v = length (cu_outq v) then v\<lparr>cu_outq := [], cu_outq_off := 0\<rparr> else v)"
      using take p True body same by (simp add: v_def Let_def)
    have "cu_ok v rest" using q len tail Cons same by (auto simp: v_def cu_ok_def)
    then have "cu_ok u' rest" unfolding u' by (auto simp: cu_ok_def)
    moreover have "cu_plain u' @ rest = cu_plain u @ envs" unfolding u' by (simp add: v_def Cons)
    ultimately show ?thesis using u1(1) same unfolding u' by (auto simp: v_def cu_whole_def)
  qed
qed

lemma cu_pump_ok:
  "cu_pump u = (stop, u') \<Longrightarrow> cu_ok u envs \<Longrightarrow> cu_whole u \<Longrightarrow>
     cu_whole u' \<and> cu_outq_cap u' = cu_outq_cap u \<and> (\<exists>rest. cu_ok u' rest \<and> cu_plain u' @ rest = cu_plain u @ envs)"
proof (induction u arbitrary: envs rule: cu_pump.induct)
  case (1 u)
  show ?case
  proof (cases "cu_closing u \<or> \<not> cu_ssl u")
    case True
    then show ?thesis using 1(2-4) by (auto simp: cu_pump.simps [of u])
  next
    case False
    obtain r u1 where t: "cu_take u = (r, u1)" by (rule prod.exhaust)
    from cu_take_ok [OF 1(3,4) t] obtain rest where u1: "cu_whole u1" "cu_outq_cap u1 = cu_outq_cap u"
      "cu_ok u1 rest" "cu_plain u1 @ rest = cu_plain u @ envs" by blast
    have e: "cu_whole (cu_emit u1)" "cu_outq_cap (cu_emit u1) = cu_outq_cap u" "cu_ok (cu_emit u1) rest"
        "cu_plain (cu_emit u1) @ rest = cu_plain u @ envs"
      using u1 by (simp_all add: cu_emit_def cu_whole_def cu_ok_def Let_def)
    show ?thesis
    proof (cases r)
      case TkTook
      show ?thesis
      proof (cases "cu_outq_off (cu_emit u1) < length (cu_outq (cu_emit u1))")
        case True
        then have "cu_pump (cu_emit u1) = (stop, u')" using 1(2) False t TkTook by (simp add: cu_pump.simps [of u])
        from 1(1) [OF False t [symmetric] TkTook refl True this e(3,1)] show ?thesis using e by metis
      next
        case no: False
        then have "u' = cu_emit u1" using 1(2) False t TkTook by (simp add: cu_pump.simps [of u])
        then show ?thesis using e by auto
      qed
    qed (use 1(2) False t u1 e in \<open>auto simp: cu_pump.simps [of u]\<close>)
  qed
qed

text \<open>
  (C22) The output queue of a client's DTLS session is a bounded FIFO of whole messages: an admitted message is
  appended to those OpenSSL has taken followed by those still queued, a refused one changes nothing, and
  the memory of the queue stays within twice its byte limit or the initial 4096 bytes.
\<close>

theorem client_queue_fifo:
  assumes "cu_ssl u" "\<not> cu_closing u" "cu_ok u envs" "cu_whole u" "cu_outq_cap u \<le> max 4096 (2 * cu_limit m)"
    and "cu_queue m data u = (stop, u')"
  shows "\<exists>envs'. cu_ok u' envs' \<and> cu_whole u' \<and>
    cu_plain u' @ envs' = cu_plain u @ envs @ (if cu_admits m (length data) u then [data] else []) \<and>
    cu_outq_cap u' \<le> max 4096 (2 * cu_limit m)"
proof (cases "cu_admits m (length data) u")
  case True
  then have adm: "length data < 2 ^ 32" "length (cu_outq u) - cu_outq_off u + 4 + length data \<le> cu_limit m"
    by (auto simp: cu_admits_def)
  have p: "cu_pump (cu_append data u) = (stop, u')" using assms(1,2,6) True by (simp add: cu_queue_def)
  have "cu_whole (cu_append data u)" "cu_plain (cu_append data u) = cu_plain u"
    using assms(4) by (simp_all add: cu_append_def cu_whole_def Let_def)
  then show ?thesis
    using cu_pump_ok [OF p cu_append_ok [OF assms(3) adm(1)]] cu_append_cap [OF _ adm(2) assms(5)] assms(3) True
    by (auto simp: cu_ok_def [of u])
next
  case False
  then show ?thesis using assms by (auto simp: cu_queue_def)
qed

section \<open>Flow ids of the peer\<close>

text \<open>The ids the loop of \<open>flow_id_new\<close> tries, from the counter on.\<close>

fun id_candidates :: "nat \<Rightarrow> u64 \<Rightarrow> u64 list" where
  "id_candidates 0 x = []"
| "id_candidates (Suc n) x = (let i = (if x = 0 then 1 else x) in i # id_candidates n (i + 1))"

definition flow_ids :: "peer_udp \<Rightarrow> u64 list" where
  "flow_ids u = map (\<lambda>(_, f). pf_flow_id f) (pu_flows u)"

lemma peer_flow_find_None: "peer_flow_find u i = None \<longleftrightarrow> i \<notin> set (flow_ids u)"
  by (auto simp: peer_flow_find_def flow_ids_def find_None_iff)

lemma id_candidates_offset: "y \<in> set (id_candidates n x) \<Longrightarrow> \<exists>k < 2 * n. y = x + of_nat k"
proof (induction n arbitrary: x)
  case (Suc n)
  define i where "i = (if x = 0 then 1 else x)"
  have i: "\<exists>j \<le> 1. i = x + of_nat j" by (rule exI [of _ "if x = 0 then 1 else 0"]) (simp add: i_def)
  then obtain j where j: "j \<le> 1" "i = x + of_nat j" by blast
  from Suc.prems have "y = i \<or> y \<in> set (id_candidates n (i + 1))" by (simp add: i_def Let_def)
  then show ?case
  proof
    assume "y = i"
    then show ?thesis using j by (intro exI [of _ j]) simp
  next
    assume "y \<in> set (id_candidates n (i + 1))"
    from Suc.IH [OF this] obtain k where "k < 2 * n" "y = i + 1 + of_nat k" by blast
    then show ?thesis using j by (intro exI [of _ "j + 1 + k"]) (simp add: algebra_simps)
  qed
qed simp

lemma id_candidates_distinct: "n < 2 ^ 63 \<Longrightarrow> distinct (id_candidates n x)"
proof (induction n arbitrary: x)
  case (Suc n)
  define i where "i = (if x = 0 then 1 else x)"
  have "i \<notin> set (id_candidates n (i + 1))"
  proof
    assume "i \<in> set (id_candidates n (i + 1))"
    from id_candidates_offset [OF this] obtain k where k: "k < 2 * n" "i = i + 1 + of_nat k" by blast
    then have "(of_nat (k + 1) :: u64) = 0" by (simp add: algebra_simps)
    then have "2 ^ LENGTH(64) dvd k + 1" unfolding word_of_nat_eq_0_iff .
    then have "2 ^ 64 \<le> k + 1" by (auto dest!: dvd_imp_le)
    then show False using k(1) Suc.prems by simp
  qed
  then show ?case using Suc by (simp add: i_def Let_def)
qed simp

lemma flow_id_loop_result:
  "case flow_id_loop n u of
     None \<Rightarrow> set (id_candidates n (pu_next_flow_id u)) \<subseteq> set (flow_ids u)
   | Some (i, u') \<Rightarrow> i \<noteq> 0 \<and> i \<notin> set (flow_ids u) \<and> (\<exists>x. u' = u\<lparr>pu_next_flow_id := x\<rparr>)"
proof (induction n arbitrary: u)
  case (Suc n)
  define i where "i = (if pu_next_flow_id u = 0 then 1 else pu_next_flow_id u)"
  let ?u = "u\<lparr>pu_next_flow_id := i + 1\<rparr>"
  have ids: "flow_ids ?u = flow_ids u" by (simp add: flow_ids_def)
  have loop: "flow_id_loop (Suc n) u = (if i \<in> set (flow_ids u) then flow_id_loop n ?u else Some (i, ?u))"
    using peer_flow_find_None [of ?u i] ids by (auto simp: i_def Let_def)
  have nz: "i \<noteq> 0" by (simp add: i_def)
  show ?case
  proof (cases "i \<in> set (flow_ids u)")
    case True
    have "pu_next_flow_id ?u = i + 1" by simp
    then show ?thesis using Suc.IH [of ?u] True loop ids by (auto simp: i_def [symmetric] Let_def split: option.splits)
  next
    case False
    then show ?thesis using loop nz by auto
  qed
qed simp

lemma flow_id_new_result:
  assumes "length (pu_flows u) < 2 ^ 63 - 1"
  obtains i x where "flow_id_new u = Some (i, u\<lparr>pu_next_flow_id := x\<rparr>)" "i \<noteq> 0" "i \<notin> set (flow_ids u)"
proof (cases "flow_id_new u")
  case None
  let ?n = "Suc (length (pu_flows u))"
  have "set (id_candidates ?n (pu_next_flow_id u)) \<subseteq> set (flow_ids u)"
    using flow_id_loop_result [of ?n u] None by (simp add: flow_id_new_def)
  then have "card (set (id_candidates ?n (pu_next_flow_id u))) \<le> card (set (flow_ids u))" by (rule card_mono [rotated]) simp
  moreover have "card (set (id_candidates ?n x)) = ?n" for x
  proof -
    have "length (id_candidates m y) = m" for m y by (induction m arbitrary: y) (simp_all add: Let_def)
    then show ?thesis using distinct_card [OF id_candidates_distinct [of ?n x]] assms by simp
  qed
  moreover have "card (set (flow_ids u)) \<le> length (pu_flows u)"
    using card_length [of "flow_ids u"] by (simp add: flow_ids_def)
  ultimately show thesis by simp
next
  case (Some r)
  then show thesis
    using flow_id_loop_result [of "Suc (length (pu_flows u))" u] that by (cases r) (auto simp: flow_id_new_def)
qed

text \<open>
  (C25) \<open>flow_id_new\<close> always returns, after at most one more round than there are flows: the id is not 0, which is
  the keepalive's, no flow has it, and the counter that wraps around at 64 bits is all that changes.
\<close>

theorem flow_id_new_fresh:
  assumes "length (pu_flows u) < 2 ^ 63 - 1"
  shows "\<exists>i x. flow_id_new u = Some (i, u\<lparr>pu_next_flow_id := x\<rparr>) \<and> i \<noteq> 0 \<and> peer_flow_find u i = None"
  using flow_id_new_result [OF assms] peer_flow_find_None by metis

section \<open>The peer's flow table\<close>

text \<open>The pump and the queue touch the session only.\<close>

lemma cu_take_more [simp]: "cli_udp.more (snd (cu_take u)) = cli_udp.more u"
  by (auto simp: cu_take_def Let_def split: prod.split list.split)

lemma cu_pump_more [simp]: "cli_udp.more (snd (cu_pump u)) = cli_udp.more u"
proof (induction u rule: cu_pump.induct)
  case (1 u)
  obtain r u1 where t: "cu_take u = (r, u1)" by (rule prod.exhaust)
  then have m: "cli_udp.more u1 = cli_udp.more u" using cu_take_more [of u] by simp
  have e: "cli_udp.more (cu_emit u1) = cli_udp.more u1" by (simp add: cu_emit_def Let_def)
  show ?case
  proof (cases "cu_closing u \<or> \<not> cu_ssl u")
    case False
    then show ?thesis
      using 1(1) [OF False t [symmetric]] t m e by (cases r) (auto simp: cu_pump.simps [of u] Let_def)
  qed (simp add: cu_pump.simps [of u])
qed

lemma cu_queue_more [simp]: "cli_udp.more (snd (cu_queue m d u)) = cli_udp.more u"
  by (simp add: cu_queue_def cu_append_def Let_def)

definition same_flows :: "peer_udp \<Rightarrow> peer_udp \<Rightarrow> bool" where
  "same_flows u u' \<longleftrightarrow> pu_flows u' = pu_flows u \<and> pu_heap u' = pu_heap u \<and> pu_out u' = pu_out u"

lemma same_flows_more: "cli_udp.more u' = cli_udp.more u \<Longrightarrow> same_flows u u'"
  by (cases u; cases u') (simp add: same_flows_def)

text \<open>Stopping forgets the flows; every other way out of the pump keeps them.\<close>

lemma peer_stop_flows: "tm_peer_udp_stop now u = Some u' \<Longrightarrow> pu_flows u' = [] \<and> pu_heap u' = pu_heap u \<and> pu_out u' = pu_out u"
  by (auto simp: tm_peer_udp_stop_def cu_reset_def Let_def split: if_splits)

lemma peer_pumped_flows:
  assumes "peer_pumped now r = Some u'" "cli_udp.more (snd r) = cli_udp.more u"
  shows "same_flows u u' \<or> pu_flows u' = [] \<and> pu_heap u' = pu_heap u \<and> pu_out u' = pu_out u"
proof (cases r)
  case (Pair stop v)
  have "same_flows u v" using assms(2) Pair by (intro same_flows_more) simp
  then show ?thesis using assms(1) Pair peer_stop_flows [of now v u'] by (auto simp: same_flows_def split: if_splits)
qed

text \<open>What the invariant sees of a flow: its address, its id and its source.\<close>

definition pkeys :: "(addr \<times> tm_pflow) list \<Rightarrow> (addr \<times> u64 \<times> sockaddr) list" where
  "pkeys fs = map (\<lambda>(a, f). (a, pf_flow_id f, pf_src f)) fs"

definition table_ok :: "addr \<Rightarrow> (addr \<times> u64 \<times> sockaddr) list \<Rightarrow> bool" where
  "table_ok heap ks \<longleftrightarrow>
     objs_ok heap ks \<and> distinct (map (fst \<circ> snd) ks) \<and> 0 \<notin> set (map (fst \<circ> snd) ks) \<and>
     sorted_wrt (\<lambda>k k'. \<not> tm_addr_eq (Some (snd (snd k'))) (Some (snd (snd k)))) ks"

definition pflows_ok :: "peer_udp \<Rightarrow> bool" where
  "pflows_ok u \<longleftrightarrow> table_ok (pu_heap u) (pkeys (pu_flows u))"

lemma pkeys_put:
  "map_of fs a = Some y \<Longrightarrow> pf_flow_id x = pf_flow_id y \<Longrightarrow> pf_src x = pf_src y \<Longrightarrow> pkeys (put a x fs) = pkeys fs"
  unfolding pkeys_def by (rule map_put_same) auto

lemma pkeys_unlink: "pkeys (unlink a fs) = unlink a (pkeys fs)"
  by (induction fs) (auto simp: pkeys_def)

lemma table_ok_Nil [simp]: "table_ok heap []"
  by (simp add: table_ok_def)

lemma table_ok_unlink: "table_ok heap ks \<Longrightarrow> table_ok heap (unlink a ks)"
  by (auto simp: table_ok_def objs_ok_unlink) (auto simp: unlink_def distinct_map_filter sorted_wrt_filter)

lemma pflows_same: "same_flows u u' \<Longrightarrow> pflows_ok u' = pflows_ok u"
  by (simp add: same_flows_def pflows_ok_def)

lemma pflows_Nil: "pu_flows u = [] \<Longrightarrow> pflows_ok u"
  by (simp add: pflows_ok_def pkeys_def)

lemma pflows_find:
  assumes "pflows_ok u" "List.find P (pu_flows u) = Some (fa, f)"
  shows "map_of (pu_flows u) fa = Some f"
proof -
  have "distinct (map fst (pu_flows u))" using assms(1)
    by (simp add: pflows_ok_def table_ok_def objs_ok_def pkeys_def comp_def case_prod_unfold)
  then show ?thesis using find_Some_in [OF assms(2)] by simp
qed

lemma pflows_put:
  assumes "pflows_ok u" "map_of (pu_flows u) fa = Some f"
  shows "pflows_ok (u\<lparr>pu_flows := put fa (f\<lparr>pf_last_seen_ms := now\<rparr>) (pu_flows u)\<rparr>)"
  using assms pkeys_put [OF assms(2), of "f\<lparr>pf_last_seen_ms := now\<rparr>"] by (simp add: pflows_ok_def)

lemma pumped_ok: "peer_pumped now r = Some u' \<Longrightarrow> cli_udp.more (snd r) = cli_udp.more u \<Longrightarrow> pflows_ok u \<Longrightarrow> pflows_ok u'"
  using peer_pumped_flows [of now r u' u] pflows_same [of u u'] pflows_Nil [of u'] by blast

lemma pump_out_ok: "peer_pump_out now u = Some u' \<Longrightarrow> pflows_ok u \<Longrightarrow> pflows_ok u'"
  unfolding peer_pump_out_def by (erule pumped_ok) simp_all

lemma udp_queue_ok: "peer_udp_queue cfg now d u = Some u' \<Longrightarrow> pflows_ok u \<Longrightarrow> pflows_ok u'"
  unfolding peer_udp_queue_def by (erule pumped_ok) simp_all

lemma peer_stop_ok: "tm_peer_udp_stop now u = Some u' \<Longrightarrow> pflows_ok u'"
  by (rule pflows_Nil) (drule peer_stop_flows, simp)

lemma broker_env_ok: "pflows_ok u \<Longrightarrow> pflows_ok (peer_broker_env cfg now i d u)"
proof (cases "peer_flow_find u i")
  case (Some p)
  assume ok: "pflows_ok u"
  obtain fa f where p: "p = (fa, f)" by (cases p)
  have "map_of (pu_flows u) fa = Some f" using pflows_find [OF ok] Some p by (simp add: peer_flow_find_def)
  from pflows_put [OF ok this] show ?thesis using ok Some p by (simp add: peer_broker_env_def pflows_ok_def)
qed (simp add: peer_broker_env_def)

lemma sweep_ok: "pflows_ok u \<Longrightarrow> pflows_ok (peer_flow_sweep cfg now u)"
proof -
  have "pflows_ok u \<Longrightarrow> pflows_ok (foldl (\<lambda>u (fa, f). if P f then peer_flow_close fa u else u) u fs)" for P fs
    by (induction fs arbitrary: u)
      (auto simp: peer_flow_close_def pflows_ok_def pkeys_unlink table_ok_unlink split: prod.split)
  then show "pflows_ok u \<Longrightarrow> ?thesis" by (simp add: peer_flow_sweep_def)
qed

lemma messages_ok: "peer_udp_messages cfg now ds u = Some (r, u') \<Longrightarrow> pflows_ok u \<Longrightarrow> pflows_ok u'"
proof (induction ds arbitrary: u)
  case (Cons d ds)
  have authed: "pflows_ok (u\<lparr>cu_authed := True\<rparr>)" using Cons.prems(2) by (simp add: pflows_ok_def)
  from Cons.prems Cons.IH [OF _ authed] Cons.IH [OF _ broker_env_ok] Cons.IH show ?case
    by (auto split: option.splits prod.splits if_splits dest: peer_stop_ok)
qed simp

text \<open>
  A datagram of a local application that is forwarded: the flow it belongs to, found or new, and the
  message that is queued for it.
\<close>

lemma local_recv_cases:
  assumes ok: "pflows_ok u" "length (pu_flows u) < 2 ^ 63 - 1" and r: "local_recv_cb cfg now ad d u = Some u'"
  obtains (ignored) "u' = u"
      "cu_closing u \<or> \<not> cu_authed u \<or> size_of (uc_max_datagram_size cfg) < length d \<or>
       peer_flow_find_src u ad = None \<and> uc_max_flows cfg \<le> int (length (pu_flows u))"
    | (sent) u1 fa f where "pflows_ok u1" "(fa, f) \<in> set (pu_flows u1)"
      "pf_src f = ad \<or> tm_addr_eq (Some (pf_src f)) (Some ad)"
      "peer_udp_queue cfg now (tm_env_encode (pf_flow_id f) 0 d) u1 = Some u'"
proof -
  define send where "send = (\<lambda>fa f u. peer_udp_queue cfg now (tm_env_encode (pf_flow_id f) 0 d)
      (u\<lparr>pu_flows := put fa (f\<lparr>pf_last_seen_ms := now\<rparr>) (pu_flows u)\<rparr>))"
  have go: thesis if "pflows_ok v" "map_of (pu_flows v) fa = Some f"
    "pf_src f = ad \<or> tm_addr_eq (Some (pf_src f)) (Some ad)" "send fa f v = Some u'" for v fa f
  proof (rule sent)
    let ?v = "v\<lparr>pu_flows := put fa (f\<lparr>pf_last_seen_ms := now\<rparr>) (pu_flows v)\<rparr>"
    show "pflows_ok ?v" by (rule pflows_put [OF that(1,2)])
    have "map_of (pu_flows ?v) fa = Some (f\<lparr>pf_last_seen_ms := now\<rparr>)" using that(2) by simp
    then show "(fa, f\<lparr>pf_last_seen_ms := now\<rparr>) \<in> set (pu_flows ?v)" by (rule map_of_SomeD)
    show "peer_udp_queue cfg now (tm_env_encode (pf_flow_id (f\<lparr>pf_last_seen_ms := now\<rparr>)) 0 d) ?v = Some u'"
      using that(4) by (simp add: send_def)
  qed (use that(3) in simp)
  show thesis
  proof (cases "cu_closing u \<or> \<not> cu_authed u \<or> size_of (uc_max_datagram_size cfg) < length d")
    case True
    then show thesis using r ignored by (auto simp: local_recv_cb_def split: if_splits)
  next
    case False
    show thesis
    proof (cases "peer_flow_find_src u ad")
      case (Some p)
      obtain fa f where p: "p = (fa, f)" by (cases p)
      have "map_of (pu_flows u) fa = Some f" "tm_addr_eq (Some (pf_src f)) (Some ad)"
        using pflows_find [OF ok(1)] find_Some_in [of _ "pu_flows u" p] Some p by (auto simp: peer_flow_find_src_def)
      then show thesis using go [OF ok(1)] r False Some p by (simp add: local_recv_cb_def send_def)
    next
      case None
      obtain i x where i: "flow_id_new u = Some (i, u\<lparr>pu_next_flow_id := x\<rparr>)" "i \<noteq> 0" "i \<notin> set (flow_ids u)"
        by (rule flow_id_new_result [OF ok(2)])
      define f where "f = \<lparr>pf_flow_id = i, pf_src = ad, pf_last_seen_ms = now\<rparr>"
      let ?v = "u\<lparr>pu_next_flow_id := x, pu_flows := (pu_heap u, f) # pu_flows u, pu_heap := Suc (pu_heap u)\<rparr>"
      show thesis
      proof (cases "uc_max_flows cfg \<le> int (length (pu_flows u))")
        case True
        then show thesis using r False None ignored by (simp add: local_recv_cb_def)
      next
        case no: False
        have src: "\<not> tm_addr_eq (Some (pf_src g)) (Some ad)" if "(a, g) \<in> set (pu_flows u)" for a g
          using None that by (auto simp: peer_flow_find_src_def find_None_iff_all)
        have "pflows_ok ?v"
          using ok(1) i(2,3) src
          by (auto simp: pflows_ok_def table_ok_def pkeys_def f_def flow_ids_def objs_ok_def comp_def case_prod_unfold)
        then show thesis using go [of ?v "pu_heap u" f] r False None no i(1)
          by (simp add: local_recv_cb_def send_def f_def)
      qed
    qed
  qed
qed

text \<open>Every state of the peer's UDP plane, from its start on.\<close>

inductive peer_udp_reach :: "udp_cfg \<Rightarrow> peer_udp \<Rightarrow> bool" for cfg where
  init: "peer_udp_reach cfg (peer_udp_new max_delay)"
| start: "peer_udp_reach cfg u \<Longrightarrow> tm_peer_udp_start env now u = Some u' \<Longrightarrow> peer_udp_reach cfg u'"
| stop: "peer_udp_reach cfg u \<Longrightarrow> tm_peer_udp_stop now u = Some u' \<Longrightarrow> peer_udp_reach cfg u'"
| shutdown: "peer_udp_reach cfg u \<Longrightarrow> peer_udp_reach cfg (u\<lparr>pu_shutting_down := True\<rparr>)"
| reconnect: "peer_udp_reach cfg u \<Longrightarrow> udp_reconnect env now u = Some u' \<Longrightarrow> peer_udp_reach cfg u'"
| closed: "peer_udp_reach cfg u \<Longrightarrow> peer_udp_reach cfg (peer_handles_closed u)"
| local_recv: "peer_udp_reach cfg u \<Longrightarrow> length (pu_flows u) < 2 ^ 63 - 1 \<Longrightarrow> local_recv_cb cfg now ad d u = Some u' \<Longrightarrow>
    peer_udp_reach cfg u'"
| recv: "peer_udp_reach cfg u \<Longrightarrow> peer_udp_recv cfg now finished hs ds u = Some u' \<Longrightarrow> peer_udp_reach cfg u'"
| sweep: "peer_udp_reach cfg u \<Longrightarrow> peer_udp_reach cfg (peer_flow_sweep cfg now u)"
| keepalive: "peer_udp_reach cfg u \<Longrightarrow> keepalive_cb cfg now u = Some u' \<Longrightarrow> peer_udp_reach cfg u'"

lemma pflows_frame [simp]:
  "pflows_ok (u\<lparr>cu_authed := a\<rparr>) = pflows_ok u" "pflows_ok (u\<lparr>pu_shutting_down := a\<rparr>) = pflows_ok u"
  "pflows_ok (u\<lparr>pu_local := h\<rparr>) = pflows_ok u" "pflows_ok (u\<lparr>cu_sock := h\<rparr>) = pflows_ok u"
  "pflows_ok (u\<lparr>pu_reconnect := h\<rparr>) = pflows_ok u" "pflows_ok (u\<lparr>pu_reconnect_in := t\<rparr>) = pflows_ok u"
  "pflows_ok (u\<lparr>cu_ssl := a\<rparr>) = pflows_ok u" "pflows_ok (u\<lparr>pu_flow_timer := h\<rparr>) = pflows_ok u"
  "pflows_ok (u\<lparr>cu_timer := h\<rparr>) = pflows_ok u" "pflows_ok (u\<lparr>cu_closing := a\<rparr>) = pflows_ok u"
  "pflows_ok (u\<lparr>cu_sw := sw\<rparr>) = pflows_ok u" "pflows_ok (u\<lparr>cu_bio := b\<rparr>) = pflows_ok u"
  by (simp_all add: pflows_ok_def)

lemma start_ok: "tm_peer_udp_start env now u = Some u' \<Longrightarrow> pflows_ok u \<Longrightarrow> pflows_ok u'"
  by (auto simp: tm_peer_udp_start_def split: if_splits dest!: pump_out_ok)

lemma recv_ok: "peer_udp_recv cfg now finished hs ds u = Some u' \<Longrightarrow> pflows_ok u \<Longrightarrow> pflows_ok u'"
  by (auto simp: peer_udp_recv_def split: if_splits dtls_hs.splits Option.bind_splits prod.splits
      dest!: pump_out_ok peer_stop_ok udp_queue_ok messages_ok)

lemma peer_udp_reach_ok: "peer_udp_reach cfg u \<Longrightarrow> pflows_ok u"
proof (induction rule: peer_udp_reach.induct)
  case (local_recv u now ad d u')
  from local_recv.IH local_recv.hyps(2,3) show ?case
    by (rule local_recv_cases) (use local_recv.IH udp_queue_ok in auto)
qed (auto simp: peer_udp_new_def pflows_Nil peer_handles_closed_def Let_def udp_reconnect_def keepalive_cb_def sweep_ok
    split: if_splits dest: start_ok recv_ok peer_stop_ok udp_queue_ok)


section \<open>Reconnecting\<close>

text \<open>The delay is never set to its configured value, and the timers of a session outlive it.\<close>

definition timers_ok :: "peer_udp \<Rightarrow> bool" where
  "timers_ok u \<longleftrightarrow> pu_reconnect_delay_ms u = 0 \<and> (cu_ssl u \<longrightarrow> pu_flow_timer u = HActive \<and> cu_timer u = HActive)"

lemma cu_take_keeps: "cu_ssl (snd (cu_take u)) = cu_ssl u" "cu_timer (snd (cu_take u)) = cu_timer u"
  by (auto simp: cu_take_def Let_def split: prod.split list.split)

lemma cu_pump_keeps: "cu_ssl (snd (cu_pump u)) = cu_ssl u \<and> cu_timer (snd (cu_pump u)) = cu_timer u"
proof (induction u rule: cu_pump.induct)
  case (1 u)
  obtain r u1 where t: "cu_take u = (r, u1)" by (rule prod.exhaust)
  then have m: "cu_ssl u1 = cu_ssl u" "cu_timer u1 = cu_timer u" using cu_take_keeps [of u] by simp_all
  have e: "cu_ssl (cu_emit u1) = cu_ssl u1" "cu_timer (cu_emit u1) = cu_timer u1" by (simp_all add: cu_emit_def Let_def)
  show ?case
  proof (cases "cu_closing u \<or> \<not> cu_ssl u")
    case False
    then show ?thesis
      using 1(1) [OF False t [symmetric]] t m e by (cases r) (auto simp: cu_pump.simps [of u] Let_def)
  qed (simp add: cu_pump.simps [of u])
qed

lemma cu_queue_keeps: "cu_ssl (snd (cu_queue m d u)) = cu_ssl u" "cu_timer (snd (cu_queue m d u)) = cu_timer u"
  using cu_pump_keeps [of "cu_append d u"] by (simp_all add: cu_queue_def cu_append_def Let_def)

lemma more_delay: "cli_udp.more u' = cli_udp.more u \<Longrightarrow>
    pu_reconnect_delay_ms u' = pu_reconnect_delay_ms u \<and> pu_flow_timer u' = pu_flow_timer u"
  by (cases u; cases u') simp

lemma stop_timers: "tm_peer_udp_stop now u = Some u' \<Longrightarrow> timers_ok u \<Longrightarrow> timers_ok u'"
  by (auto simp: tm_peer_udp_stop_def timers_ok_def cu_reset_def Let_def split: if_splits)

lemma pumped_timers:
  assumes "peer_pumped now r = Some u'" "cli_udp.more (snd r) = cli_udp.more u" "cu_ssl (snd r) = cu_ssl u"
    "cu_timer (snd r) = cu_timer u" "timers_ok u"
  shows "timers_ok u'"
proof (cases r)
  case (Pair stop v)
  then have "timers_ok v" using assms(2-5) more_delay [of v u] by (simp add: timers_ok_def)
  then show ?thesis using assms(1) Pair stop_timers [of now v u'] by (auto split: if_splits)
qed

lemma pump_out_timers: "peer_pump_out now u = Some u' \<Longrightarrow> timers_ok u \<Longrightarrow> timers_ok u'"
  unfolding peer_pump_out_def by (erule pumped_timers) (simp_all add: cu_pump_keeps)

lemma udp_queue_timers: "peer_udp_queue cfg now d u = Some u' \<Longrightarrow> timers_ok u \<Longrightarrow> timers_ok u'"
  unfolding peer_udp_queue_def by (erule pumped_timers) (simp_all add: cu_queue_keeps)

lemma messages_timers: "peer_udp_messages cfg now ds u = Some (r, u') \<Longrightarrow> timers_ok u \<Longrightarrow> timers_ok u'"
proof (induction ds arbitrary: u)
  case (Cons d ds)
  have authed: "timers_ok (u\<lparr>cu_authed := True\<rparr>)" using Cons.prems(2) by (simp add: timers_ok_def)
  have env: "timers_ok (peer_broker_env cfg now i p u)" for i p
    using Cons.prems(2) by (auto simp: peer_broker_env_def timers_ok_def split: option.split prod.split)
  from Cons.prems Cons.IH [OF _ authed] Cons.IH [OF _ env] Cons.IH show ?case
    by (auto split: option.splits prod.splits if_splits dest: stop_timers)
qed simp

lemma start_timers: "tm_peer_udp_start env now u = Some u' \<Longrightarrow> timers_ok u \<Longrightarrow> timers_ok u'"
  by (auto simp: tm_peer_udp_start_def timers_ok_def split: if_splits
      dest!: pump_out_timers [unfolded timers_ok_def])

lemma local_recv_timers:
  assumes "local_recv_cb cfg now ad d u = Some u'" "timers_ok u"
  shows "timers_ok u'"
proof -
  have same: "timers_ok v" if "peer_udp_queue cfg now e (w\<lparr>pu_flows := fs\<rparr>) = Some v" "timers_ok w" for v w fs e
    using udp_queue_timers [OF that(1)] that(2) by (simp add: timers_ok_def)
  have new: "timers_ok w" if "flow_id_new u = Some (i, w)" for i w
    using that assms(2) flow_id_loop_result [of "Suc (length (pu_flows u))" u]
    by (auto simp: flow_id_new_def timers_ok_def)
  have made: "timers_ok v" if "peer_udp_queue cfg now e (w\<lparr>pu_heap := n, pu_flows := fs\<rparr>) = Some v" "flow_id_new u = Some (i, w)"
    for v w n fs e i
    using udp_queue_timers [OF that(1)] new [OF that(2)] by (simp add: timers_ok_def)
  show ?thesis
    using assms same made
    by (auto simp: local_recv_cb_def Let_def split: if_splits option.splits prod.splits Option.bind_splits)
qed

lemma peer_udp_reach_timers: "peer_udp_reach cfg u \<Longrightarrow> timers_ok u"
proof (induction rule: peer_udp_reach.induct)
  case (recv u now finished hs ds u')
  then show ?case
    by (auto simp: peer_udp_recv_def split: if_splits dtls_hs.splits Option.bind_splits prod.splits
        dest!: pump_out_timers stop_timers udp_queue_timers messages_timers)
next
  case (sweep u now)
  have "timers_ok u \<Longrightarrow> timers_ok (foldl (\<lambda>u (fa, f). if P f then peer_flow_close fa u else u) u fs)" for P fs u
    by (induction fs arbitrary: u) (auto simp: peer_flow_close_def timers_ok_def split: prod.split)
  then show ?case using sweep by (simp add: peer_flow_sweep_def)
next
  case (reconnect u env now u')
  have "timers_ok (u\<lparr>pu_reconnect := HClosing, pu_reconnect_in := None\<rparr>)" using reconnect.IH by (simp add: timers_ok_def)
  then show ?case using reconnect start_timers by (auto simp: udp_reconnect_def split: if_splits)
next
  case (keepalive u now u')
  then show ?case by (auto simp: keepalive_cb_def split: if_splits dest: udp_queue_timers)
next
  case (closed u)
  then show ?case by (simp add: timers_ok_def peer_handles_closed_def Let_def)
next
  case (shutdown u)
  then show ?case by (simp add: timers_ok_def)
next
  case (init max_delay)
  show ?case by (simp add: timers_ok_def peer_udp_new_def)
qed (blast intro: start_timers stop_timers local_recv_timers)+

text \<open>
  (C35) The peer's UDP session does not survive its first reconnect: whenever a running session is stopped,
  the reconnect timer is armed with a delay of 0 whatever is configured, and when it fires and the
  session can be set up, timers that are still registered are initialised again.
\<close>

theorem peer_udp_reconnect_faults:
  assumes "peer_udp_reach cfg u" "cu_ssl u" "\<not> pu_shutting_down u" "tm_peer_udp_stop now u = Some u'"
    and "pe_listen_addr env" "pe_bind env" "pe_broker_addr env" "pe_connect env" "pe_ssl env"
  shows "pu_reconnect_in u' = Some 0 \<and> udp_reconnect env now' (peer_handles_closed u') = None"
proof -
  have t: "pu_reconnect_delay_ms u = 0" "pu_flow_timer u = HActive"
    using peer_udp_reach_timers [OF assms(1)] assms(2) by (simp_all add: timers_ok_def)
  have jitter: "peer_jitter 0 now = 0" by (simp add: peer_jitter_def)
  have u': "pu_reconnect_in u' = Some 0" "pu_flow_timer u' = HActive" "\<not> cu_ssl u'" "\<not> pu_shutting_down u'"
      "cu_sock u' = HClosing" "pu_local u' = HClosing"
    using assms(2-4) t jitter
    by (auto simp: tm_peer_udp_stop_def cu_reset_def close_handle_def Let_def split: if_splits)
  then show ?thesis
    using assms(5-9) by (simp add: udp_reconnect_def tm_peer_udp_start_def peer_handles_closed_def Let_def)
qed

section \<open>Examples\<close>

definition demo_udp_cfg :: udp_cfg where
  "demo_udp_cfg = \<lparr>uc_secret = [1], uc_flow_idle_timeout_ms = 30000, uc_max_datagram_size = 1400,
     uc_max_packets_per_flow = 1000, uc_max_flows = 1024\<rparr>"

definition demo_peer_env :: peer_env where
  "demo_peer_env = \<lparr>pe_listen_addr = True, pe_bind = True, pe_broker_addr = True, pe_connect = True, pe_ssl = True,
     pe_sw = [], pe_bio = []\<rparr>"

definition demo_pudp :: peer_udp where
  "demo_pudp = (peer_udp_new 30000)\<lparr>pu_local := HActive, cu_sock := HActive, cu_ssl := True, pu_flow_timer := HActive,
     cu_timer := HActive\<rparr>"

lemma demo_pudp_reach: "peer_udp_reach demo_udp_cfg demo_pudp"
  by (rule peer_udp_reach.start [OF peer_udp_reach.init [of _ 30000], where env = demo_peer_env and now = 0])
    (simp add: tm_peer_udp_start_def peer_udp_new_def demo_peer_env_def demo_pudp_def peer_pump_out_def
      cu_pump.simps cu_take_def cu_emit_def Let_def)

text \<open>The session after the broker's \<open>AUTH_OK\<close>.\<close>

lemma demo_pudp_authed: "peer_udp_reach demo_udp_cfg (demo_pudp\<lparr>cu_authed := True\<rparr>)"
proof (rule peer_udp_reach.recv [OF demo_pudp_reach])
  have "tm_env_decode (tm_env_encode 0 TM_ENV_FLAG_AUTH_OK []) = Some (0, TM_ENV_FLAG_AUTH_OK, [])"
    by (rule env_decode_encode) (simp add: env_flag_defs)
  then show "peer_udp_recv demo_udp_cfg 0 True HsWant [tm_env_encode 0 TM_ENV_FLAG_AUTH_OK []] demo_pudp =
      Some (demo_pudp\<lparr>cu_authed := True\<rparr>)"
    by (simp add: peer_udp_recv_def demo_pudp_def peer_udp_new_def peer_pump_out_def cu_pump.simps cu_take_def
        cu_emit_def Let_def)
qed

theorem client_queue_fifo_witness:
  "\<exists>stop u' envs'. cu_queue 1400 [1, 2, 3] demo_pudp = (stop, u') \<and> cu_ok u' envs' \<and> cu_plain u' @ envs' = [[1, 2, 3]]"
proof -
  obtain stop u' where q: "cu_queue 1400 [1, 2, 3] demo_pudp = (stop, u')" by (rule prod.exhaust)
  have "cu_ssl demo_pudp" "\<not> cu_closing demo_pudp" "cu_ok demo_pudp []" "cu_whole demo_pudp" "cu_plain demo_pudp = []"
      "cu_outq_cap demo_pudp \<le> max 4096 (2 * cu_limit 1400)" "cu_admits 1400 (length [1, 2, 3 :: u8]) demo_pudp"
    by (simp_all add: demo_pudp_def peer_udp_new_def cu_ok_def cu_whole_def cu_admits_def cu_limit_def size_of_def)
  then show ?thesis using client_queue_fifo [of demo_pudp "[]" 1400 "[1, 2, 3]" stop u'] q by (auto simp only: if_True append_Nil)
qed

theorem flow_id_new_fresh_witness: "\<exists>i x. flow_id_new demo_pudp = Some (i, demo_pudp\<lparr>pu_next_flow_id := x\<rparr>) \<and> i \<noteq> 0"
  using flow_id_new_fresh [of demo_pudp] by (auto simp: demo_pudp_def peer_udp_new_def)


theorem peer_udp_reconnect_faults_witness:
  "\<exists>u'. tm_peer_udp_stop 0 demo_pudp = Some u' \<and> pu_reconnect_in u' = Some 0 \<and>
     udp_reconnect demo_peer_env 1 (peer_handles_closed u') = None"
proof -
  obtain u' where "tm_peer_udp_stop 0 demo_pudp = Some u'"
    by (simp add: tm_peer_udp_stop_def demo_pudp_def peer_udp_new_def cu_reset_def Let_def)
  then show ?thesis
    using peer_udp_reconnect_faults [OF demo_pudp_reach, of 0 u' demo_peer_env 1]
    by (auto simp: demo_pudp_def peer_udp_new_def demo_peer_env_def)
qed

end
