(* ===== verification/AgentApp.thy ===== *)
theory AgentApp
  imports CliRelay CliUdp Agents
begin

text \<open>
  The agent program: its settings (\<open>agent/src/main.c\<close>), its control connection with heartbeat and reconnect
  (\<open>control.c\<close>), and the streams it opens on request of the broker (\<open>tcp.c\<close>). The answers of the resolver,
  libuv and OpenSSL to an event are in \<open>agent_env\<close>; the random sample of the jitter is \<open>ae_rnd\<close>.

  A timer is whether it is armed, the reconnect timer also with which delay. A one-shot timer is no longer armed when its
  callback runs. \<open>g_ctl_sock\<close> keeps apart a handle that was never initialised and one whose close has completed. The
  agent initialises socket handles again that are already registered with the loop; \<open>g_reinits\<close> counts
  that, and the model goes on as if it were harmless. Closed streams stay in \<open>g_closing\<close> until the close
  callbacks of their handles have run.
\<close>

section \<open>Settings\<close>

definition TM_MAX_AGENT_NAME :: nat where "TM_MAX_AGENT_NAME = 64"

record tm_agent_cfg =
  ag_broker_host :: string
  ag_broker_port :: u16
  ag_broker_udp_port :: u16
  ag_proto :: tm_proto
  ag_tunnel_id :: string
  ag_agent_secret :: string
  ag_local_host :: string
  ag_local_port :: u16
  ag_name :: string
  ag_ca_path :: string
  ag_verify_ca :: bool
  ag_log_level :: string
  ag_heartbeat_interval_ms :: int
  ag_idle_timeout_ms :: int
  ag_reconnect_delay_ms :: int
  ag_reconnect_max_delay_ms :: int
  ag_handshake_timeout_ms :: int
  ag_local_connect_timeout_ms :: int
  ag_udp_flow_idle_timeout_ms :: int
  ag_udp_max_datagram_size :: int
  ag_udp_max_packets_per_flow :: int
  ag_udp_max_flows :: int

definition agent_cfg_defaults :: tm_agent_cfg where
  "agent_cfg_defaults =
     \<lparr>ag_broker_host = [], ag_broker_port = 0, ag_broker_udp_port = 0, ag_proto = TM_PROTO_TCP, ag_tunnel_id = [],
      ag_agent_secret = [], ag_local_host = [], ag_local_port = 0, ag_name = [], ag_ca_path = [],
      ag_verify_ca = True, ag_log_level = ''info'', ag_heartbeat_interval_ms = 5000, ag_idle_timeout_ms = 30000,
      ag_reconnect_delay_ms = 1000, ag_reconnect_max_delay_ms = 30000, ag_handshake_timeout_ms = 15000,
      ag_local_connect_timeout_ms = 10000, ag_udp_flow_idle_timeout_ms = 30000,
      ag_udp_max_datagram_size = TM_DEFAULT_DATAGRAM, ag_udp_max_packets_per_flow = 1000, ag_udp_max_flows = 4096\<rparr>"

text \<open>\<open>strncpy\<close> of a setting into a zeroed array with room for \<open>n\<close> characters and the terminator.\<close>

definition apply_str :: "tm_config \<Rightarrow> string \<Rightarrow> nat \<Rightarrow> string \<Rightarrow> string" where
  "apply_str c key n old = (case tm_config_get_str c key None of (True, Some s) \<Rightarrow> take n s | _ \<Rightarrow> old)"

definition apply_port :: "tm_config \<Rightarrow> string \<Rightarrow> u16 \<Rightarrow> u16" where
  "apply_port c key old = (case tm_config_get_int c key 0 of (True, v) \<Rightarrow> word_of_int v | _ \<Rightarrow> old)"

definition apply_pos :: "tm_config \<Rightarrow> string \<Rightarrow> int \<Rightarrow> int" where
  "apply_pos c key old = (case tm_config_get_int c key 0 of (found, v) \<Rightarrow> if found \<and> 0 < v then v else old)"

definition apply_log_level :: "tm_config \<Rightarrow> string \<Rightarrow> string \<Rightarrow> string" where
  "apply_log_level c key old =
     (case tm_config_get_str c key None of
        (True, Some s) \<Rightarrow>
          if s = ''debug'' \<or> s = ''info'' \<or> s = ''error'' then s
          else if s = ''warn'' \<or> s = ''warning'' then ''warn'' else old
      | _ \<Rightarrow> old)"

definition apply_proto :: "tm_config \<Rightarrow> tm_proto \<Rightarrow> tm_proto option" where
  "apply_proto c old =
     (case tm_config_get_str c ''agent.protocol'' (Some ''tcp'') of
        (True, Some s) \<Rightarrow>
          if s = ''tcp'' then Some TM_PROTO_TCP else if s = ''udp'' then Some TM_PROTO_UDP else None
      | _ \<Rightarrow> Some old)"

text \<open>\<open>cfg_apply\<close>, \<open>None\<close> where it returns an error.\<close>

definition agent_cfg_apply :: "tm_config \<Rightarrow> tm_agent_cfg \<Rightarrow> tm_agent_cfg option" where
  "agent_cfg_apply c g =
     (let g = g\<lparr>ag_broker_host := apply_str c ''agent.broker_host'' 255 (ag_broker_host g),
                ag_broker_port := apply_port c ''agent.broker_port'' (ag_broker_port g),
                ag_broker_udp_port := apply_port c ''agent.broker_udp_port'' (ag_broker_udp_port g),
                ag_tunnel_id := apply_str c ''agent.tunnel_id'' TM_TUNNEL_ID_LEN (ag_tunnel_id g),
                ag_agent_secret := apply_str c ''agent.agent_secret'' TM_MAX_SECRET (ag_agent_secret g),
                ag_local_host := apply_str c ''agent.local_host'' 255 (ag_local_host g),
                ag_local_port := apply_port c ''agent.local_port'' (ag_local_port g),
                ag_name := apply_str c ''agent.name'' TM_MAX_AGENT_NAME (ag_name g),
                ag_ca_path := apply_str c ''agent.ca_path'' 511 (ag_ca_path g),
                ag_verify_ca := (case tm_config_get_bool c ''agent.verify_ca'' True of
                                   (found, v) \<Rightarrow> if found then v else ag_verify_ca g),
                ag_log_level := apply_log_level c ''agent.log_level'' (ag_log_level g),
                ag_heartbeat_interval_ms := apply_pos c ''agent.heartbeat_interval_ms'' (ag_heartbeat_interval_ms g),
                ag_idle_timeout_ms := apply_pos c ''agent.idle_timeout_ms'' (ag_idle_timeout_ms g),
                ag_reconnect_delay_ms := apply_pos c ''agent.reconnect_delay_ms'' (ag_reconnect_delay_ms g),
                ag_reconnect_max_delay_ms := apply_pos c ''agent.reconnect_max_delay_ms'' (ag_reconnect_max_delay_ms g),
                ag_handshake_timeout_ms := apply_pos c ''agent.handshake_timeout_ms'' (ag_handshake_timeout_ms g),
                ag_local_connect_timeout_ms :=
                  apply_pos c ''agent.local_connect_timeout_ms'' (ag_local_connect_timeout_ms g),
                ag_udp_flow_idle_timeout_ms :=
                  apply_pos c ''agent.udp_flow_idle_timeout_ms'' (ag_udp_flow_idle_timeout_ms g),
                ag_udp_max_datagram_size := apply_pos c ''agent.udp_max_datagram_size'' (ag_udp_max_datagram_size g),
                ag_udp_max_packets_per_flow :=
                  apply_pos c ''agent.udp_max_packets_per_flow'' (ag_udp_max_packets_per_flow g),
                ag_udp_max_flows := apply_pos c ''agent.udp_max_flows'' (ag_udp_max_flows g)\<rparr>
      in case apply_proto c (ag_proto g) of
           None \<Rightarrow> None
         | Some p \<Rightarrow>
             let g = g\<lparr>ag_proto := p\<rparr> in
             if ag_broker_host g = [] \<or> ag_broker_port g = 0 then None
             else if ag_proto g = TM_PROTO_UDP \<and> ag_broker_udp_port g = 0 then None
             else if ag_tunnel_id g = [] \<or> ag_agent_secret g = [] then None
             else if ag_local_host g = [] \<or> ag_local_port g = 0 then None
             else Some g)"

definition str_bytes :: "string \<Rightarrow> bytes" where
  "str_bytes s = map of_char s"

definition agent_udp_cfg :: "tm_agent_cfg \<Rightarrow> udp_cfg" where
  "agent_udp_cfg g =
     \<lparr>uc_secret = str_bytes (ag_agent_secret g), uc_flow_idle_timeout_ms = ag_udp_flow_idle_timeout_ms g,
      uc_max_datagram_size = ag_udp_max_datagram_size g, uc_max_packets_per_flow = ag_udp_max_packets_per_flow g,
      uc_max_flows = ag_udp_max_flows g\<rparr>"

section \<open>State\<close>

datatype uv_state = UvZero | UvOpen | UvClosing | UvClosed

definition uv_is_closing :: "uv_state \<Rightarrow> bool" where
  "uv_is_closing s \<longleftrightarrow> s = UvClosing \<or> s = UvClosed"

record tm_agent_app =
  g_cfg :: tm_agent_cfg
  g_ctl_sock :: uv_state
  g_ctl_ssl :: bool
  g_ctl_io :: "tm_io option"
  g_ctl_fr :: tm_frame_reader
  g_hb_timer :: bool
  g_hs_timer :: bool
  g_connected :: bool
  g_connecting :: bool
  g_got_hello :: bool
  g_registered :: bool
  g_last_rx_ms :: u64
  g_last_ping_ms :: u64
  g_reconnect_in :: "u64 option"
  g_reconnect_delay_ms :: u64
  g_streams :: "(addr \<times> tm_astream) list"
  g_stream_count :: int
  g_closing :: "(addr \<times> tm_astream) list"
  g_udp :: agent_udp
  g_shutting_down :: bool
  g_heap :: addr
  g_reinits :: nat

text \<open>The environment of a connection: resolver, \<open>uv_tcp_connect\<close>, the set-up of OpenSSL, and its later answers.\<close>

record conn_env =
  ce_resolves :: bool
  ce_connects :: bool
  ce_ssl :: bool
  ce_bio :: "bio_ans list"
  ce_sw :: "sw_ans list"

record agent_env =
  ae_now :: u64
  ae_rnd :: u64
  ae_ctl :: conn_env
  ae_udp :: udp_env
  ae_open :: "u32 \<Rightarrow> conn_env"

text \<open>
  \<open>tm_tcp_connect\<close> on a handle that is \<open>registered\<close> with the loop or not: its status and by how much the
  number of re-initialised handles grows.
\<close>

definition tcp_connect :: "conn_env \<Rightarrow> bool \<Rightarrow> tm_status \<times> nat" where
  "tcp_connect env registered =
     (if \<not> ce_resolves env then (TM_ERR_INVALID, 0)
      else (if ce_connects env then TM_OK else TM_ERR, if registered then 1 else 0))"

section \<open>Streams of the agent\<close>

definition astream_find :: "tm_agent_app \<Rightarrow> u32 \<Rightarrow> addr option" where
  "astream_find a sid = map_option fst (List.find (\<lambda>(_, st). as_sid st = sid) (g_streams a))"

text \<open>Store a stream after an event; one that the event has closed is unlinked.\<close>

definition put_astream :: "addr \<Rightarrow> tm_astream \<Rightarrow> tm_agent_app \<Rightarrow> tm_agent_app" where
  "put_astream sa st a =
     (if cs_closing st
      then a\<lparr>g_streams := unlink sa (g_streams a),
             g_stream_count := (if 0 < g_stream_count a then g_stream_count a - 1 else g_stream_count a),
             g_closing := (sa, st) # g_closing a\<rparr>
      else a\<lparr>g_streams := put sa st (g_streams a)\<rparr>)"

definition astream_close :: "addr \<Rightarrow> tm_agent_app \<Rightarrow> tm_agent_app" where
  "astream_close sa a =
     (case map_of (g_streams a) sa of None \<Rightarrow> a | Some st \<Rightarrow> put_astream sa (cs_close st) a)"

definition stream_sock_closed :: "addr \<Rightarrow> tm_agent_app \<Rightarrow> tm_agent_app option" where
  "stream_sock_closed sa a =
     (case map_of (g_closing a) sa of
        None \<Rightarrow> None
      | Some st \<Rightarrow>
          Some (case cs_sock_closed st of
                  None \<Rightarrow> a\<lparr>g_closing := unlink sa (g_closing a)\<rparr>
                | Some st' \<Rightarrow> a\<lparr>g_closing := put sa st' (g_closing a)\<rparr>))"

definition tm_astream_open :: "agent_env \<Rightarrow> u32 \<Rightarrow> tm_agent_app \<Rightarrow> tm_agent_app" where
  "tm_astream_open env sid a =
     (if astream_find a sid \<noteq> None then a
      else
        let e = ae_open env sid;
            sa = g_heap a;
            st = astream_new sid (ae_now env);
            a = a\<lparr>g_heap := Suc sa, g_streams := (sa, st) # g_streams a, g_stream_count := g_stream_count a + 1\<rparr>
        in if \<not> ce_ssl e then astream_close sa a
           else
             let st = cs_set_io Broker (Some (IoSsl (tm_io_ssl_new True True (ce_bio e) (ce_sw e)))) st;
                 (r, n) = tcp_connect e True;
                 a = put_astream sa (st\<lparr>cs_connecting := True\<rparr>) (a\<lparr>g_reinits := g_reinits a + n\<rparr>)
             in if r \<noteq> TM_OK then astream_close sa a else a)"

section \<open>The control connection\<close>

definition reconnect_with_jitter :: "u64 \<Rightarrow> u64 \<Rightarrow> u64" where
  "reconnect_with_jitter delay sample =
     (let spread = delay div 5
      in if spread = 0 then delay else delay - spread + sample mod (spread * 2 + 1))"

definition arm_reconnect :: "agent_env \<Rightarrow> tm_agent_app \<Rightarrow> tm_agent_app" where
  "arm_reconnect env a =
     a\<lparr>g_reconnect_in := Some (reconnect_with_jitter (g_reconnect_delay_ms a) (ae_rnd env))\<rparr>"

fun close_astreams :: "addr list \<Rightarrow> tm_agent_app \<Rightarrow> tm_agent_app" where
  "close_astreams [] a = a"
| "close_astreams (sa # sas) a = close_astreams sas (astream_close sa a)"

text \<open>The part of \<open>tm_agent_disconnect\<close> that \<open>tm_agent_shutdown\<close> shares: the connection is dropped.\<close>

definition drop_ctl :: "tm_agent_app \<Rightarrow> tm_agent_app" where
  "drop_ctl a =
     a\<lparr>g_ctl_io := None, g_ctl_ssl := False,
       g_ctl_sock := (if uv_is_closing (g_ctl_sock a) then g_ctl_sock a else UvClosing),
       g_hb_timer := False, g_hs_timer := False\<rparr>"

definition tm_agent_disconnect :: "agent_env \<Rightarrow> tm_agent_app \<Rightarrow> tm_agent_app" where
  "tm_agent_disconnect env a =
     (if \<not> g_connecting a \<and> \<not> g_connected a \<and> \<not> g_registered a then a
      else
        let was_registered = g_registered a;
            a = (drop_ctl a)\<lparr>g_ctl_fr := tm_frame_reader_new, g_connected := False, g_connecting := False,
                             g_registered := False, g_got_hello := False\<rparr>;
            a = (if was_registered
                 then let a = close_astreams (map fst (g_streams a)) a
                      in if ag_proto (g_cfg a) = TM_PROTO_UDP then a\<lparr>g_udp := tm_agent_udp_stop (g_udp a)\<rparr> else a
                 else a)
        in if g_shutting_down a then a
           else
             let d = g_reconnect_delay_ms a * 2;
                 m = word_of_int (ag_reconnect_max_delay_ms (g_cfg a))
             in arm_reconnect env (a\<lparr>g_reconnect_delay_ms := (if m < d then m else d)\<rparr>))"

text \<open>A failing transport calls \<open>ctl_error\<close> from inside the write.\<close>

definition agent_send_frame :: "agent_env \<Rightarrow> u8 \<Rightarrow> u32 \<Rightarrow> bytes \<Rightarrow> tm_agent_app \<Rightarrow> tm_agent_app" where
  "agent_send_frame env type sid payload a =
     (if g_ctl_io a = None then a
      else case encode_msg type sid payload of
        None \<Rightarrow> a
      | Some buf \<Rightarrow>
          let (r, io, ups) = tm_io_write (g_ctl_io a) buf;
              a = a\<lparr>g_ctl_io := io\<rparr>;
              a = (if up_error ups then tm_agent_disconnect env a else a)
          in if r \<noteq> TM_OK then tm_agent_disconnect env a else a)"

definition tm_agent_connect :: "agent_env \<Rightarrow> tm_agent_app \<Rightarrow> tm_agent_app" where
  "tm_agent_connect env a =
     (if g_shutting_down a \<or> g_connected a \<or> g_connecting a then a
      else
        let a = (if g_reconnect_delay_ms a = 0
                 then a\<lparr>g_reconnect_delay_ms := word_of_int (ag_reconnect_delay_ms (g_cfg a))\<rparr> else a);
            (r, n) = tcp_connect (ae_ctl env) (g_ctl_sock a = UvOpen \<or> g_ctl_sock a = UvClosing);
            a = a\<lparr>g_reinits := g_reinits a + n,
                  g_ctl_sock := (if ce_resolves (ae_ctl env) then UvOpen else g_ctl_sock a)\<rparr>
        in if r \<noteq> TM_OK then arm_reconnect env a else a\<lparr>g_connecting := True\<rparr>)"

definition reconnect_timer_cb :: "agent_env \<Rightarrow> tm_agent_app \<Rightarrow> tm_agent_app" where
  "reconnect_timer_cb env a =
     (let a = a\<lparr>g_reconnect_in := None\<rparr>
      in if \<not> g_shutting_down a then tm_agent_connect env a else a)"

text \<open>
  \<open>ctl_connected\<close>; \<open>failed\<close> is a non-zero status. \<open>hs_error\<close>: \<open>tm_io_handshake\<close> calls \<open>ctl_error\<close>, at a moment
  when none of the connection's flags is set.
\<close>

definition ctl_connected :: "agent_env \<Rightarrow> bool \<Rightarrow> bool \<Rightarrow> tm_agent_app \<Rightarrow> tm_agent_app" where
  "ctl_connected env failed hs_error a =
     (if failed then tm_agent_disconnect env a
      else
        let a = a\<lparr>g_connecting := False\<rparr> in
        if \<not> ce_ssl (ae_ctl env) then tm_agent_disconnect env a
        else
          let a = a\<lparr>g_ctl_ssl := True,
                    g_ctl_io := tm_io_start (Some (IoSsl (tm_io_ssl_new False True (ce_bio (ae_ctl env)) (ce_sw (ae_ctl env)))))\<rparr>;
              a = (if hs_error then tm_agent_disconnect env a else a)
          in a\<lparr>g_hs_timer := True, g_connected := True\<rparr>)"

definition ctl_handshake_timeout :: "agent_env \<Rightarrow> tm_agent_app \<Rightarrow> tm_agent_app" where
  "ctl_handshake_timeout env a =
     (let a = a\<lparr>g_hs_timer := False\<rparr> in if g_connected a then tm_agent_disconnect env a else a)"

definition ctl_handshake_done :: "agent_env \<Rightarrow> tm_agent_app \<Rightarrow> tm_agent_app" where
  "ctl_handshake_done env a =
     agent_send_frame env TM_MSG_HELLO 0 (take TM_PROTO_STRING_LEN (str_bytes TM_PROTO_STRING))
       (a\<lparr>g_hs_timer := False, g_last_rx_ms := ae_now env, g_last_ping_ms := ae_now env\<rparr>)"

text \<open>\<open>None\<close>: \<open>uv_close\<close> on a handle that was never initialised.\<close>

definition tm_agent_shutdown :: "tm_agent_app \<Rightarrow> tm_agent_app option" where
  "tm_agent_shutdown a =
     (if g_shutting_down a then Some a
      else if g_ctl_sock a = UvZero then None
      else
        let a = drop_ctl (a\<lparr>g_shutting_down := True, g_reconnect_in := None\<rparr>);
            a = close_astreams (map fst (g_streams a)) a
        in Some (a\<lparr>g_udp := tm_agent_udp_stop (g_udp a)\<rparr>))"

text \<open>One frame in \<open>ctl_read\<close>; the flag says that the function returns.\<close>

definition ctl_frame :: "agent_env \<Rightarrow> tm_frame \<Rightarrow> tm_agent_app \<Rightarrow> (bool \<times> tm_agent_app) option" where
  "ctl_frame env f a =
     (if f_type f = TM_MSG_HELLO_ACK then
        if g_got_hello a then Some (False, a)
        else
          let a = a\<lparr>g_got_hello := True\<rparr>;
              tid = str_bytes (ag_tunnel_id (g_cfg a));
              secret = str_bytes (ag_agent_secret (g_cfg a))
          in if tid = [] \<or> TM_TUNNEL_ID_LEN < length tid \<or> secret = []
             then map_option (Pair True) (tm_agent_shutdown a)
             else Some (False, agent_send_frame env TM_MSG_REGISTER 0
                                 (wr_u16 (of_nat (length tid)) @ tid @ secret) a)
      else if f_type f = TM_MSG_REGISTER_OK then
        if g_registered a then Some (False, a)
        else
          let a = a\<lparr>g_registered := True, g_reconnect_delay_ms := word_of_int (ag_reconnect_delay_ms (g_cfg a))\<rparr>
          in do { a \<leftarrow> (if ag_proto (g_cfg a) = TM_PROTO_UDP
                        then map_option (\<lambda>u. a\<lparr>g_udp := u\<rparr>) (tm_agent_udp_start (ae_udp env) (g_udp a))
                        else Some a);
                  Some (False, a\<lparr>g_hb_timer := True\<rparr>) }
      else if f_type f = TM_MSG_REGISTER_ERROR then Some (False, tm_agent_disconnect env a)
      else if f_type f = TM_MSG_PING then Some (False, agent_send_frame env TM_MSG_PONG 0 [] a)
      else if f_type f = TM_MSG_OPEN_STREAM then
        Some (False, if g_registered a then tm_astream_open env (f_stream_id f) a else a)
      else if f_type f = TM_MSG_CLOSE_STREAM then
        Some (False, case astream_find a (f_stream_id f) of None \<Rightarrow> a | Some sa \<Rightarrow> astream_close sa a)
      else if f_type f = TM_MSG_GOING_AWAY then Some (True, tm_agent_disconnect env a)
      else Some (False, a))"

text \<open>No handler makes the reader longer: it stays as it is, or a disconnect has replaced it by an empty one.\<close>

lemma put_astream_fr [simp]: "g_ctl_fr (put_astream sa st a) = g_ctl_fr a"
  by (simp add: put_astream_def)

lemma astream_close_fr [simp]: "g_ctl_fr (astream_close sa a) = g_ctl_fr a"
  by (simp add: astream_close_def split: option.split)

lemma close_astreams_fr [simp]: "g_ctl_fr (close_astreams sas a) = g_ctl_fr a"
  by (induction sas arbitrary: a) simp_all

lemma disconnect_fr: "g_ctl_fr (tm_agent_disconnect env a) = g_ctl_fr a \<or> g_ctl_fr (tm_agent_disconnect env a) = tm_frame_reader_new"
  by (simp add: tm_agent_disconnect_def arm_reconnect_def Let_def)

lemma send_frame_fr:
  "g_ctl_fr (agent_send_frame env t sid p a) = g_ctl_fr a \<or> g_ctl_fr (agent_send_frame env t sid p a) = tm_frame_reader_new"
proof -
  obtain r io ups where w: "tm_io_write (g_ctl_io a) (the (encode_msg t sid p)) = (r, io, ups)" by (rule prod_cases3)
  let ?a = "a\<lparr>g_ctl_io := io\<rparr>"
  show ?thesis
    using disconnect_fr [of env ?a] disconnect_fr [of env "tm_agent_disconnect env ?a"] w
    by (auto simp: agent_send_frame_def Let_def split: option.split)
qed

lemma ctl_frame_fr:
  "ctl_frame env f a = Some (r, a') \<Longrightarrow> g_ctl_fr a' = g_ctl_fr a \<or> g_ctl_fr a' = tm_frame_reader_new"
  using disconnect_fr [of env a] send_frame_fr [of env TM_MSG_PONG 0 "[]" a]
    send_frame_fr [of env TM_MSG_REGISTER 0 _ "a\<lparr>g_got_hello := True\<rparr>"]
  by (auto simp: ctl_frame_def tm_agent_shutdown_def drop_ctl_def tm_astream_open_def Let_def
      split: if_splits Option.bind_splits option.splits prod.splits)

function ctl_loop :: "agent_env \<Rightarrow> tm_agent_app \<Rightarrow> tm_agent_app option" where
  "ctl_loop env a =
     (case reader_take (g_ctl_fr a) of
        (FeedMore, r) \<Rightarrow> Some (a\<lparr>g_ctl_fr := r\<rparr>)
      | (FeedError, r) \<Rightarrow> Some (tm_agent_disconnect env (a\<lparr>g_ctl_fr := r\<rparr>))
      | (FeedFrame f, r) \<Rightarrow>
          (case ctl_frame env f (a\<lparr>g_ctl_fr := r\<rparr>) of
             None \<Rightarrow> None
           | Some (returned, a') \<Rightarrow> if returned then Some a' else ctl_loop env a'))"
  by pat_completeness auto
termination
  by (relation "measure (\<lambda>(env, a). length (fr_buf (g_ctl_fr a)))")
    (auto dest!: ctl_frame_fr sym [of _ "reader_take _"] reader_take_shrinks
      simp: TM_FRAME_HDR_LEN_def tm_frame_reader_new_def)

declare ctl_loop.simps [simp del]

definition ctl_read :: "agent_env \<Rightarrow> bytes \<Rightarrow> tm_agent_app \<Rightarrow> tm_agent_app option" where
  "ctl_read env data a =
     (let a = a\<lparr>g_last_rx_ms := ae_now env\<rparr>
      in case tm_frame_reader_feed (g_ctl_fr a) data of
           (FeedMore, r) \<Rightarrow> Some (a\<lparr>g_ctl_fr := r\<rparr>)
         | (FeedError, r) \<Rightarrow> Some (tm_agent_disconnect env (a\<lparr>g_ctl_fr := r\<rparr>))
         | (FeedFrame f, r) \<Rightarrow>
             (case ctl_frame env f (a\<lparr>g_ctl_fr := r\<rparr>) of
                None \<Rightarrow> None
              | Some (returned, a') \<Rightarrow> if returned then Some a' else ctl_loop env a'))"

definition ctl_eof :: "agent_env \<Rightarrow> tm_agent_app \<Rightarrow> tm_agent_app" where
  "ctl_eof env a = tm_agent_disconnect env a"

definition ctl_error :: "agent_env \<Rightarrow> tm_agent_app \<Rightarrow> tm_agent_app" where
  "ctl_error env a = tm_agent_disconnect env a"

text \<open>The heartbeat timer is started without a repeat, so it is no longer armed here.\<close>

definition agent_hb_timer_cb :: "agent_env \<Rightarrow> tm_agent_app \<Rightarrow> tm_agent_app" where
  "agent_hb_timer_cb env a =
     (let a = a\<lparr>g_hb_timer := False\<rparr>; now = ae_now env in
      if g_shutting_down a then a
      else if word_of_int (ag_idle_timeout_ms (g_cfg a)) < now - g_last_rx_ms a then tm_agent_disconnect env a
      else if word_of_int (ag_heartbeat_interval_ms (g_cfg a)) \<le> now - g_last_ping_ms a
      then agent_send_frame env TM_MSG_PING 0 [] (a\<lparr>g_last_ping_ms := now\<rparr>)
      else a)"

section \<open>The data connection of a stream\<close>

text \<open>An event of the stream at \<open>sa\<close>, with the handler \<open>h\<close>; a stream that does not exist any more is freed memory.\<close>

definition on_astream :: "addr \<Rightarrow> (tm_astream \<Rightarrow> tm_astream option) \<Rightarrow> tm_agent_app \<Rightarrow> tm_agent_app option" where
  "on_astream sa h a =
     (case map_of (g_streams a) sa of
        None \<Rightarrow> None
      | Some st \<Rightarrow> map_option (\<lambda>st. put_astream sa st a) (h st))"

text \<open>The agent reports a failure on its control connection and closes the stream.\<close>

definition open_failed :: "agent_env \<Rightarrow> addr \<Rightarrow> u32 \<Rightarrow> string \<Rightarrow> tm_agent_app \<Rightarrow> tm_agent_app" where
  "open_failed env sa sid msg a =
     astream_close sa (agent_send_frame env TM_MSG_OPEN_STREAM_ERROR sid (str_bytes msg) a)"

definition data_conn_connected :: "agent_env \<Rightarrow> bool \<Rightarrow> addr \<Rightarrow> tm_agent_app \<Rightarrow> tm_agent_app option" where
  "data_conn_connected env failed sa a =
     (case map_of (g_streams a) sa of
        None \<Rightarrow> None
      | Some st \<Rightarrow>
          let st = st\<lparr>cs_connecting := False\<rparr>; a = put_astream sa st a in
          Some (if cs_closing st then a
                else if failed then open_failed env sa (as_sid st) ''broker connect failed'' a
                else put_astream sa (cs_set_io Broker (tm_io_start (cs_io st Broker)) st) a))"

text \<open>\<open>data_conn_ready\<close>: \<open>DATA_BIND\<close> with the agent's secret goes out on the new connection.\<close>

definition data_conn_ready :: "bytes \<Rightarrow> tm_astream \<Rightarrow> tm_astream option" where
  "data_conn_ready secret st =
     (case encode_msg TM_MSG_DATA_BIND (as_sid st) secret of
        None \<Rightarrow> Some (cs_close st)
      | Some buf \<Rightarrow>
          (case tm_io_write (cs_io st Broker) buf of (r, io, ups) \<Rightarrow>
             map_option (\<lambda>st. if r \<noteq> TM_OK then cs_close st else st)
               (cs_ups (cs_up2 Broker) ups (cs_set_io Broker io st))))"

text \<open>
  The frames before the relay starts, with the readers after them: nothing yet, the stream has to be
  closed, or \<open>DATA_BIND_OK\<close>, and the reader at that point.
\<close>

datatype pre_result = PreMore | PreClose | PreBound

fun pre_frames :: "u32 \<Rightarrow> (tm_frame \<times> tm_frame_reader) list \<Rightarrow> bool \<Rightarrow> tm_frame_reader \<Rightarrow> pre_result \<times> tm_frame_reader" where
  "pre_frames sid [] e r = (if e then PreClose else PreMore, r)"
| "pre_frames sid ((f, r') # ps) e r =
     (if f_type f = TM_MSG_DATA_BIND_OK \<and> f_stream_id f = sid then (PreBound, r')
      else if f_type f = TM_MSG_DATA_BIND_ERROR \<or> f_type f = TM_MSG_DATA_BIND then (PreClose, r')
      else pre_frames sid ps e r)"

definition data_conn_pre_read :: "agent_env \<Rightarrow> addr \<Rightarrow> bytes \<Rightarrow> tm_agent_app \<Rightarrow> tm_agent_app option" where
  "data_conn_pre_read env sa data a =
     (case map_of (g_streams a) sa of
        None \<Rightarrow> None
      | Some st \<Rightarrow>
          if cs_bound st then on_astream sa (agent_broker_read data) a
          else case cs_fr st of
            None \<Rightarrow> None
          | Some fr \<Rightarrow>
              (case feed_trace fr data of (ps, e, r) \<Rightarrow>
                 (case pre_frames (as_sid st) ps e r of
                    (PreMore, r) \<Rightarrow> Some (put_astream sa (st\<lparr>cs_fr := Some r\<rparr>) a)
                  | (PreClose, _) \<Rightarrow> Some (astream_close sa a)
                  | (PreBound, r) \<Rightarrow>
                      let (lo, r) = tm_frame_reader_drain r;
                          st = agent_bind_ok lo (st\<lparr>cs_fr := Some r\<rparr>);
                          (res, n) = tcp_connect (ae_open env (as_sid st)) True;
                          a = put_astream sa st (a\<lparr>g_reinits := g_reinits a + 1 + n\<rparr>)
                      in Some (if res \<noteq> TM_OK then open_failed env sa (as_sid st) ''local connect failed'' a
                               else put_astream sa (st\<lparr>cs_timer := True\<rparr>) a))))"

definition data_conn_eof :: "tm_astream \<Rightarrow> tm_astream option" where
  "data_conn_eof st = (if \<not> cs_bound st then Some (cs_close st) else relay_broker_eof st)"

definition local_connected :: "agent_env \<Rightarrow> bool \<Rightarrow> bool list \<Rightarrow> addr \<Rightarrow> tm_agent_app \<Rightarrow> tm_agent_app option" where
  "local_connected env failed uv sa a =
     (case map_of (g_streams a) sa of
        None \<Rightarrow> None
      | Some st \<Rightarrow>
          if failed
          then let st = st\<lparr>cs_connecting := False\<rparr>; a = put_astream sa st a
               in Some (if cs_closing st then a else open_failed env sa (as_sid st) ''local connect failed'' a)
          else on_astream sa (agent_local_connected uv) a)"

definition local_connect_timeout :: "agent_env \<Rightarrow> addr \<Rightarrow> tm_agent_app \<Rightarrow> tm_agent_app option" where
  "local_connect_timeout env sa a =
     (case map_of (g_streams a) sa of
        None \<Rightarrow> None
      | Some st \<Rightarrow>
          Some (if cs_closing st \<or> cs_bound st then a
                else open_failed env sa (as_sid st) ''local connect timeout''
                       (put_astream sa (st\<lparr>cs_timer := False\<rparr>) a)))"

section \<open>The program\<close>

definition agent_udp_zero :: agent_udp where
  "agent_udp_zero =
     \<lparr>cu_ssl = False, cu_authed = False, cu_closing = False, cu_sock = HNone, cu_timer = HNone, cu_outq = [],
      cu_outq_cap = 0, cu_outq_off = 0, cu_outq_packets = 0, cu_sw = [], cu_bio = [], cu_plain = [], cu_sent = 0,
      au_flows = [], au_heap = 0, au_conn = [], au_out = []\<rparr>"

definition agent_zero :: "tm_agent_cfg \<Rightarrow> tm_agent_app" where
  "agent_zero cfg =
     \<lparr>g_cfg = cfg, g_ctl_sock = UvZero, g_ctl_ssl = False, g_ctl_io = None, g_ctl_fr = tm_frame_reader_new,
      g_hb_timer = False, g_hs_timer = False, g_connected = False, g_connecting = False, g_got_hello = False,
      g_registered = False, g_last_rx_ms = 0, g_last_ping_ms = 0, g_reconnect_in = None, g_reconnect_delay_ms = 0,
      g_streams = [], g_stream_count = 0, g_closing = [], g_udp = agent_udp_zero, g_shutting_down = False,
      g_heap = 0, g_reinits = 0\<rparr>"

text \<open>\<open>main\<close> from the settings to the event loop.\<close>

definition agent_main :: "agent_env \<Rightarrow> tm_config \<Rightarrow> tm_agent_app option" where
  "agent_main env c =
     do { cfg \<leftarrow> agent_cfg_apply c agent_cfg_defaults;
          let a = tm_agent_connect env (agent_zero cfg);
          if ag_proto cfg = TM_PROTO_UDP
          then map_option (\<lambda>u. a\<lparr>g_udp := u\<rparr>) (tm_agent_udp_start (ae_udp env) (g_udp a))
          else Some a }"

end
