(* ===== verification/AgentInv.thy ===== *)
theory AgentInv
  imports AgentApp
begin

text \<open>
  Properties of the agent program: accepted settings fit their arrays and are usable, the agent is always
  connected, connecting or waiting for its reconnect timer, and the delays of that timer stay within
  bounds; and the cases in which the code falls short of this.
\<close>

section \<open>Settings\<close>

text \<open>What the rest of the program relies on.\<close>

definition agent_cfg_ok :: "tm_agent_cfg \<Rightarrow> bool" where
  "agent_cfg_ok g \<longleftrightarrow>
     0 < length (ag_broker_host g) \<and> length (ag_broker_host g) < 256 \<and> ag_broker_port g \<noteq> 0 \<and>
     0 < length (ag_tunnel_id g) \<and> length (ag_tunnel_id g) \<le> TM_TUNNEL_ID_LEN \<and>
     0 < length (ag_agent_secret g) \<and> length (ag_agent_secret g) \<le> TM_MAX_SECRET \<and>
     0 < length (ag_local_host g) \<and> length (ag_local_host g) < 256 \<and> ag_local_port g \<noteq> 0 \<and>
     length (ag_name g) \<le> TM_MAX_AGENT_NAME \<and> length (ag_ca_path g) < 512 \<and>
     (ag_proto g = TM_PROTO_UDP \<longrightarrow> ag_broker_udp_port g \<noteq> 0) \<and>
     (\<forall>v \<in> {ag_heartbeat_interval_ms g, ag_idle_timeout_ms g, ag_reconnect_delay_ms g, ag_reconnect_max_delay_ms g,
            ag_handshake_timeout_ms g, ag_local_connect_timeout_ms g, ag_udp_flow_idle_timeout_ms g,
            ag_udp_max_datagram_size g, ag_udp_max_packets_per_flow g, ag_udp_max_flows g}. 0 < v \<and> v < 2 ^ 63)"

lemma apply_str_le: "length old \<le> n \<Longrightarrow> length (apply_str c key n old) \<le> n"
  by (auto simp: apply_str_def split: prod.split option.split bool.split)

lemma tm_config_get_int_range: "tm_config_get_int c key d = (True, v) \<Longrightarrow> v < 2 ^ 63"
  by (auto simp: tm_config_get_int_def strtoll_def saturate_def Let_def split: option.splits prod.splits if_splits)

lemma apply_pos_range: "0 < old \<Longrightarrow> old < 2 ^ 63 \<Longrightarrow> 0 < apply_pos c key old \<and> apply_pos c key old < 2 ^ 63"
  using tm_config_get_int_range [of c key 0] by (auto simp: apply_pos_def split: prod.split)

lemma agent_cfg_apply_ok:
  assumes "agent_cfg_apply c agent_cfg_defaults = Some g"
  shows "agent_cfg_ok g"
proof -
  have pos: "0 < apply_pos c k old" "apply_pos c k old < 9223372036854775808"
    if "0 < old" "old < 9223372036854775808" for k old
    using apply_pos_range [of old c k] that by auto
  have str: "length (apply_str c k n []) \<le> n" for k n by (rule apply_str_le) simp
  have str': "length (apply_str c k n []) < m" if "n < m" for k n m using str [of k n] that by linarith
  show ?thesis
    using assms unfolding agent_cfg_apply_def Let_def agent_cfg_ok_def
    by (simp add: str str' pos agent_cfg_defaults_def TM_DEFAULT_DATAGRAM_def split: option.split_asm if_split_asm)
       (clarsimp simp: str str' pos)
qed

text \<open>
  (C20) A configuration that the agent accepts is well-formed: every string is within its array and
  the required ones are not empty, ports are not 0, and every interval and limit is positive and within
  \<open>long long\<close>. So the frames that carry tunnel id and secret fit their buffers.
\<close>

theorem agent_cfg_wellformed:
  assumes "agent_cfg_apply c agent_cfg_defaults = Some g"
  shows "agent_cfg_ok g \<and> 2 + length (ag_tunnel_id g) + length (ag_agent_secret g) \<le> 2 + TM_MAX_TUNNEL_ID + TM_MAX_SECRET"
  using agent_cfg_apply_ok [OF assms] by (auto simp: agent_cfg_ok_def TM_TUNNEL_ID_LEN_def TM_MAX_TUNNEL_ID_def)

definition ex_agent_cfg :: tm_config where
  "ex_agent_cfg =
     [(''agent.broker_host'', ''b''), (''agent.broker_port'', ''7''), (''agent.tunnel_id'', ''t''),
      (''agent.agent_secret'', ''s''), (''agent.local_host'', ''l''), (''agent.local_port'', ''8'')]"

theorem agent_cfg_wellformed_witness:
  "case agent_cfg_apply ex_agent_cfg agent_cfg_defaults of None \<Rightarrow> False | Some g \<Rightarrow> agent_cfg_ok g"
proof -
  have "agent_cfg_apply ex_agent_cfg agent_cfg_defaults \<noteq> None" by code_simp
  then show ?thesis using agent_cfg_wellformed [of ex_agent_cfg] by (auto split: option.split)
qed

section \<open>The control connection\<close>

text \<open>
  The runs of the agent: from \<open>main\<close> on, any event at any time at which its timer, connection or stream exists. The
  set-up of the TLS object of the control connection succeeds. A completed write of that connection leaves any
  transport behind, and the events of the UDP session any session: what they do does not matter here.
\<close>

inductive stream_step :: "agent_env \<Rightarrow> tm_agent_app \<Rightarrow> tm_agent_app \<Rightarrow> bool" for env where
  data_connected: "data_conn_connected env failed sa a = Some a' \<Longrightarrow> stream_step env a a'"
| data_ready: "on_astream sa (data_conn_ready (str_bytes (ag_agent_secret (g_cfg a)))) a = Some a' \<Longrightarrow> stream_step env a a'"
| data_read: "data_conn_pre_read env sa data a = Some a' \<Longrightarrow> stream_step env a a'"
| data_eof: "on_astream sa data_conn_eof a = Some a' \<Longrightarrow> stream_step env a a'"
| stream_error: "stream_step env a (astream_close sa a)"
| local_conn: "local_connected env failed uv sa a = Some a' \<Longrightarrow> stream_step env a a'"
| local_timeout: "local_connect_timeout env sa a = Some a' \<Longrightarrow> stream_step env a a'"
| local_read: "on_astream sa (agent_local_read data) a = Some a' \<Longrightarrow> stream_step env a a'"
| local_eof: "on_astream sa relay_local_eof a = Some a' \<Longrightarrow> stream_step env a a'"
| written: "on_astream sa (cs_write_done l status) a = Some a' \<Longrightarrow> stream_step env a a'"
| sock_closed: "stream_sock_closed sa a = Some a' \<Longrightarrow> stream_step env a a'"

inductive agent_step :: "tm_agent_app \<Rightarrow> tm_agent_app \<Rightarrow> bool" where
  reconnect: "g_reconnect_in a \<noteq> None \<Longrightarrow> agent_step a (reconnect_timer_cb env a)"
| connected: "g_connecting a \<Longrightarrow> ce_ssl (ae_ctl env) \<Longrightarrow> agent_step a (ctl_connected env failed hs_error a)"
| hs_timeout: "g_hs_timer a \<Longrightarrow> agent_step a (ctl_handshake_timeout env a)"
| handshake: "g_connected a \<Longrightarrow> agent_step a (ctl_handshake_done env a)"
| read: "g_connected a \<Longrightarrow> ctl_read env data a = Some a' \<Longrightarrow> agent_step a a'"
| eof: "g_connected a \<Longrightarrow> agent_step a (ctl_eof env a)"
| error: "g_connected a \<Longrightarrow> agent_step a (ctl_error env a)"
| ctl_written: "g_connected a \<Longrightarrow> agent_step a (a\<lparr>g_ctl_io := io\<rparr>)"
| heartbeat: "g_hb_timer a \<Longrightarrow> agent_step a (agent_hb_timer_cb env a)"
| ctl_closed: "g_ctl_sock a = UvClosing \<Longrightarrow> agent_step a (a\<lparr>g_ctl_sock := UvClosed\<rparr>)"
| shutdown: "tm_agent_shutdown a = Some a' \<Longrightarrow> agent_step a a'"
| udp: "agent_step a (a\<lparr>g_udp := u\<rparr>)"
| stream: "stream_step env a a' \<Longrightarrow> agent_step a a'"

inductive agent_run :: "tm_agent_app \<Rightarrow> bool" where
  main: "agent_main env c = Some a \<Longrightarrow> agent_run a"
| step: "agent_run a \<Longrightarrow> agent_step a b \<Longrightarrow> agent_run b"

text \<open>The part of the state that says what the control connection is doing, and its invariant.\<close>

definition ctl_view :: "tm_agent_app \<Rightarrow> tm_agent_cfg \<times> bool \<times> bool \<times> bool \<times> u64 option \<times> u64 \<times> bool" where
  "ctl_view a = (g_cfg a, g_connected a, g_connecting a, g_registered a, g_reconnect_in a, g_reconnect_delay_ms a, g_shutting_down a)"

definition delay_ok :: "tm_agent_cfg \<Rightarrow> u64 \<Rightarrow> bool" where
  "delay_ok g d \<longleftrightarrow> (let lo = ag_reconnect_delay_ms g; hi = ag_reconnect_max_delay_ms g in
     0 < lo \<and> lo < 2 ^ 63 \<and> 0 < hi \<and> hi < 2 ^ 63 \<and> min lo hi \<le> uint d \<and> uint d \<le> max lo hi)"

definition armed_ok :: "tm_agent_cfg \<Rightarrow> u64 \<Rightarrow> bool" where
  "armed_ok g v \<longleftrightarrow> (\<exists>d s. delay_ok g d \<and> v = reconnect_with_jitter d s)"

fun view_ok :: "tm_agent_cfg \<times> bool \<times> bool \<times> bool \<times> u64 option \<times> u64 \<times> bool \<Rightarrow> bool" where
  "view_ok (g, conn, conng, reg, rin, d, shut) \<longleftrightarrow>
     delay_ok g d \<and> (reg \<longrightarrow> conn) \<and>
     (shut \<or> (conn \<and> \<not> conng \<and> rin = None) \<or> (\<not> conn \<and> conng \<and> rin = None) \<or>
              (\<not> conn \<and> \<not> conng \<and> (\<exists>v. rin = Some v \<and> armed_ok g v)))"

abbreviation ctl_ok :: "tm_agent_app \<Rightarrow> bool" where
  "ctl_ok a \<equiv> view_ok (ctl_view a)"

lemma put_astream_view [simp]: "ctl_view (put_astream sa st a) = ctl_view a"
  by (simp add: put_astream_def ctl_view_def)

lemma astream_close_view [simp]: "ctl_view (astream_close sa a) = ctl_view a"
  by (simp add: astream_close_def split: option.split)

lemma close_astreams_view [simp]: "ctl_view (close_astreams sas a) = ctl_view a"
  by (induction sas arbitrary: a) simp_all

lemma frame_view [simp]:
  "ctl_view (a\<lparr>g_ctl_io := io\<rparr>) = ctl_view a" "ctl_view (a\<lparr>g_ctl_fr := fr\<rparr>) = ctl_view a"
  "ctl_view (a\<lparr>g_udp := u\<rparr>) = ctl_view a" "ctl_view (a\<lparr>g_ctl_sock := s\<rparr>) = ctl_view a"
  "ctl_view (a\<lparr>g_hb_timer := b\<rparr>) = ctl_view a" "ctl_view (a\<lparr>g_hs_timer := b\<rparr>) = ctl_view a"
  "ctl_view (a\<lparr>g_last_rx_ms := t\<rparr>) = ctl_view a" "ctl_view (a\<lparr>g_last_ping_ms := t\<rparr>) = ctl_view a"
  "ctl_view (a\<lparr>g_closing := c\<rparr>) = ctl_view a" "ctl_view (a\<lparr>g_got_hello := b\<rparr>) = ctl_view a" "ctl_view (a\<lparr>g_reinits := n\<rparr>) = ctl_view a"
  by (simp_all add: ctl_view_def)

lemma tm_astream_open_view [simp]: "ctl_view (tm_astream_open env sid a) = ctl_view a"
  by (simp add: tm_astream_open_def Let_def split: prod.split) (simp add: ctl_view_def)

lemma delay_ok_double:
  assumes "delay_ok g d" and "m = word_of_int (ag_reconnect_max_delay_ms g)"
  shows "delay_ok g (if m < d * 2 then m else d * 2)"
proof -
  have "uint (d * 2) = uint d * 2"
    using assms(1) uint_lt2p [of d] by (simp add: delay_ok_def Let_def uint_word_ariths max_def split: if_splits)
  moreover have "uint m = ag_reconnect_max_delay_ms g"
    using assms by (simp add: delay_ok_def Let_def uint_word_of_int)
  ultimately show ?thesis
    using assms(1) by (auto simp: delay_ok_def Let_def word_less_def min_def max_def split: if_splits)
qed

lemma jitter_bounds:
  assumes "delay_ok g d"
  shows "4 * uint d \<le> 5 * uint (reconnect_with_jitter d s) \<and> 5 * uint (reconnect_with_jitter d s) \<le> 6 * uint d"
proof -
  let ?D = "uint d" and ?S = "uint d div 5" and ?w = "d div 5 * 2 + 1"
  have D: "0 \<le> ?D" "?D < 2 ^ 63" using assms by (auto simp: delay_ok_def Let_def max_def split: if_splits)
  have S: "uint (d div 5) = ?S" by (simp add: uint_div)
  have le: "?S \<le> ?D" "0 \<le> ?S" using D(1) by (presburger, simp add: pos_imp_zdiv_nonneg_iff)
  then have w: "uint ?w = 2 * ?S + 1" using D by (simp add: uint_word_ariths S)
  have "uint (s mod ?w) \<le> 2 * ?S"
    using pos_mod_bound [of "2 * ?S + 1" "uint s"] D by (simp add: uint_mod w del: pos_mod_bound)
  then have m: "0 \<le> uint (s mod ?w)" "uint (s mod ?w) \<le> 2 * ?S" by simp_all
  have sub: "uint (d - d div 5) = ?D - ?S" using D le by (simp add: uint_word_ariths S)
  have "uint (d - d div 5 + s mod ?w) = ?D - ?S + uint (s mod ?w)"
    using D m le by (simp add: uint_word_ariths(1) sub)
  moreover have "5 * ?S \<le> ?D" by presburger
  ultimately have "4 * ?D \<le> 5 * uint (d - d div 5 + s mod ?w) \<and> 5 * uint (d - d div 5 + s mod ?w) \<le> 6 * ?D"
    using m by linarith
  then show ?thesis using D(1) by (simp add: reconnect_with_jitter_def Let_def)
qed

lemma close_astreams_fields [simp]:
  "g_cfg (close_astreams sas a) = g_cfg a" "g_connected (close_astreams sas a) = g_connected a"
  "g_connecting (close_astreams sas a) = g_connecting a" "g_registered (close_astreams sas a) = g_registered a"
  "g_reconnect_in (close_astreams sas a) = g_reconnect_in a"
  "g_reconnect_delay_ms (close_astreams sas a) = g_reconnect_delay_ms a"
  "g_shutting_down (close_astreams sas a) = g_shutting_down a"
  using close_astreams_view [of sas a] by (simp_all add: ctl_view_def)

lemma disconnect_view:
  "ctl_view (tm_agent_disconnect env a) =
     (if \<not> g_connecting a \<and> \<not> g_connected a \<and> \<not> g_registered a then ctl_view a
      else if g_shutting_down a then (g_cfg a, False, False, False, g_reconnect_in a, g_reconnect_delay_ms a, True)
      else let d = g_reconnect_delay_ms a * 2; m = word_of_int (ag_reconnect_max_delay_ms (g_cfg a));
               d' = if m < d then m else d
           in (g_cfg a, False, False, False, Some (reconnect_with_jitter d' (ae_rnd env)), d', False))"
  by (simp add: tm_agent_disconnect_def arm_reconnect_def drop_ctl_def ctl_view_def Let_def)

lemma disconnect_ok: "ctl_ok a \<Longrightarrow> ctl_ok (tm_agent_disconnect env a)"
  using delay_ok_double [OF _ refl, of "g_cfg a" "g_reconnect_delay_ms a"]
  by (auto simp: disconnect_view Let_def) (auto simp: ctl_view_def armed_ok_def)

text \<open>After a disconnect the reader is empty, so the loop over the frames of a chunk ends.\<close>

definition still_on :: "tm_agent_app \<Rightarrow> bool" where
  "still_on a \<longleftrightarrow> g_connected a \<or> g_ctl_fr a = tm_frame_reader_new"

lemma disconnect_still_on: "still_on a \<Longrightarrow> still_on (tm_agent_disconnect env a)"
  by (auto simp: still_on_def tm_agent_disconnect_def arm_reconnect_def Let_def)

lemma send_frame_keeps:
  assumes "\<And>a. P a \<Longrightarrow> P (tm_agent_disconnect env a)" and "\<And>a io. P a \<Longrightarrow> P (a\<lparr>g_ctl_io := io\<rparr>)" and "P a"
  shows "P (agent_send_frame env t sid p a)"
  using assms by (auto simp: agent_send_frame_def Let_def split: option.split prod.split)

lemma send_frame_ok: "ctl_ok a \<Longrightarrow> ctl_ok (agent_send_frame env t sid p a)"
  by (rule send_frame_keeps [where P = ctl_ok]) (simp_all add: disconnect_ok)

lemma send_frame_still_on: "still_on a \<Longrightarrow> still_on (agent_send_frame env t sid p a)"
  by (rule send_frame_keeps [where P = still_on]) (simp_all add: disconnect_still_on, simp add: still_on_def)

lemma shutdown_ok: "ctl_ok a \<Longrightarrow> tm_agent_shutdown a = Some a' \<Longrightarrow> ctl_ok a'"
  by (auto simp: tm_agent_shutdown_def drop_ctl_def Let_def ctl_view_def split: if_splits)

lemma connect_ok:
  assumes "delay_ok (g_cfg a) (if g_reconnect_delay_ms a = 0 then word_of_int (ag_reconnect_delay_ms (g_cfg a)) else g_reconnect_delay_ms a)"
    and "g_reconnect_in a = None" and "\<not> g_registered a" and "\<not> g_connected a" and "\<not> g_connecting a" and "\<not> g_shutting_down a"
  shows "ctl_ok (tm_agent_connect env a)"
  using assms
  by (auto simp: tm_agent_connect_def Let_def arm_reconnect_def armed_ok_def ctl_view_def split: prod.split if_splits)

lemma register_ok:
  assumes "ctl_ok a" and "g_connected a"
  shows "ctl_ok (a\<lparr>g_registered := True, g_reconnect_delay_ms := word_of_int (ag_reconnect_delay_ms (g_cfg a))\<rparr>)"
proof -
  have "delay_ok (g_cfg a) (word_of_int (ag_reconnect_delay_ms (g_cfg a)))"
    using assms(1) by (simp add: ctl_view_def delay_ok_def Let_def uint_word_of_int)
  then show ?thesis using assms by (auto simp: ctl_view_def)
qed

lemma ctl_frame_ok:
  assumes "ctl_frame env f a = Some (returned, a')" and "ctl_ok a" and "g_connected a"
  shows "ctl_ok a' \<and> (returned \<or> still_on a')"
proof -
  have still: "still_on a" "still_on (a\<lparr>g_got_hello := True\<rparr>)" using assms(3) by (simp_all add: still_on_def)
  have open_on: "still_on (tm_astream_open env sid a)" "still_on (astream_close sa a)" for sid sa
    using tm_astream_open_view [of env sid a] astream_close_view [of sa a] assms(3) by (simp_all add: ctl_view_def still_on_def)
  have shut: "ctl_ok b" if "tm_agent_shutdown (a\<lparr>g_got_hello := True\<rparr>) = Some b" for b
    by (rule shutdown_ok [OF _ that]) (use assms(2) in simp)
  show ?thesis
    using assms(1) assms(2) still open_on register_ok [OF assms(2,3)] shut assms(3)
    by (auto simp: ctl_frame_def Let_def disconnect_ok disconnect_still_on send_frame_ok send_frame_still_on
        split: if_splits option.splits Option.bind_splits) (simp_all add: still_on_def)
qed

lemma reader_new_take: "reader_take tm_frame_reader_new = (FeedMore, tm_frame_reader_new)"
  by (simp add: reader_take_def tm_frame_reader_new_def TM_FRAME_HDR_LEN_def)

lemma ctl_loop_ok: "ctl_ok a \<Longrightarrow> still_on a \<Longrightarrow> ctl_loop env a = Some a' \<Longrightarrow> ctl_ok a'"
proof (induction env a arbitrary: a' rule: ctl_loop.induct)
  case (1 env a)
  obtain res r where t: "reader_take (g_ctl_fr a) = (res, r)" by (rule prod.exhaust)
  show ?case
  proof (cases res)
    case (FeedFrame f)
    then have "g_connected a" using 1(3) t reader_new_take by (auto simp: still_on_def)
    moreover obtain ret b where b: "ctl_frame env f (a\<lparr>g_ctl_fr := r\<rparr>) = Some (ret, b)"
      using 1(4) t FeedFrame by (auto simp: ctl_loop.simps [of env a] split: option.splits)
    ultimately have ok: "ctl_ok b \<and> (ret \<or> still_on b)"
      using ctl_frame_ok [OF b] 1(2) by simp
    show ?thesis using 1(4) ok 1(1) [OF t [symmetric] FeedFrame b refl] t FeedFrame b
      by (auto simp: ctl_loop.simps [of env a] split: if_splits)
  qed (use 1 t disconnect_ok [of "a\<lparr>g_ctl_fr := r\<rparr>"] in \<open>auto simp: ctl_loop.simps [of env a]\<close>)
qed

lemma ctl_read_ok:
  assumes "ctl_read env data a = Some a'" and "ctl_ok a" and "g_connected a"
  shows "ctl_ok a'"
proof -
  let ?a = "a\<lparr>g_last_rx_ms := ae_now env\<rparr>"
  have frame: "ctl_ok b \<and> (ret \<or> still_on b)" if "ctl_frame env f (?a\<lparr>g_ctl_fr := r\<rparr>) = Some (ret, b)" for f r ret b
    by (rule ctl_frame_ok [OF that]) (use assms(2,3) in simp_all)
  show ?thesis
    using assms(1,2)
    by (auto simp: ctl_read_def Let_def disconnect_ok dest: frame ctl_loop_ok
        split: prod.splits feed_result.splits option.splits if_splits)
qed

text \<open>The events of the streams touch the control connection only through a failing report on it.\<close>

lemma stream_step_keeps:
  assumes "stream_step env a b" and "P a"
    and dis: "\<And>a. P a \<Longrightarrow> P (tm_agent_disconnect env a)" and io: "\<And>a io. P a \<Longrightarrow> P (a\<lparr>g_ctl_io := io\<rparr>)"
    and put: "\<And>a sa st. P a \<Longrightarrow> P (put_astream sa st a)" and re: "\<And>a n. P a \<Longrightarrow> P (a\<lparr>g_reinits := n\<rparr>)"
    and cl: "\<And>a c. P a \<Longrightarrow> P (a\<lparr>g_closing := c\<rparr>)"
  shows "P b"
proof -
  have close: "P (astream_close sa b)" if "P b" for sa b using that by (simp add: astream_close_def put split: option.split)
  have fail: "P (open_failed env sa sid msg b)" if "P b" for sa sid msg b
    unfolding open_failed_def by (rule close, rule send_frame_keeps [where P = P]) (simp_all add: dis io that)
  have on: "P b" if "on_astream sa h a = Some b" "P a" for sa h a b
    using that by (auto simp: on_astream_def put split: option.splits)
  show ?thesis
    using assms(1,2)
  proof cases
    case (sock_closed sa)
    then show ?thesis using assms(2) by (auto simp: stream_sock_closed_def cl split: option.splits)
  qed (auto simp: data_conn_connected_def data_conn_pre_read_def local_connected_def local_connect_timeout_def Let_def
        fail put re close dest!: on split: option.splits prod.splits pre_result.splits if_splits)
qed

lemma agent_main_ok:
  assumes "agent_main env c = Some a"
  shows "ctl_ok a"
proof -
  obtain g where g: "agent_cfg_apply c agent_cfg_defaults = Some g"
    and a: "ctl_view a = ctl_view (tm_agent_connect env (agent_zero g))"
    using assms by (auto simp: agent_main_def Let_def split: Option.bind_splits if_splits)
  have "delay_ok g (word_of_int (ag_reconnect_delay_ms g))"
    using agent_cfg_apply_ok [OF g] by (auto simp: agent_cfg_ok_def delay_ok_def Let_def uint_word_of_int)
  then have "ctl_ok (tm_agent_connect env (agent_zero g))"
    by (intro connect_ok) (simp_all add: agent_zero_def)
  then show ?thesis by (simp add: a)
qed

lemma reconnect_timer_ok:
  assumes "ctl_ok a" and "g_reconnect_in a \<noteq> None"
  shows "ctl_ok (reconnect_timer_cb env a)"
proof (cases "g_shutting_down a")
  case True
  then show ?thesis using assms by (auto simp: reconnect_timer_cb_def ctl_view_def)
next
  case False
  then have "delay_ok (g_cfg a) (g_reconnect_delay_ms a)" "\<not> g_connected a" "\<not> g_connecting a" "\<not> g_registered a"
    using assms by (auto simp: ctl_view_def)
  moreover from this(1) have "g_reconnect_delay_ms a \<noteq> 0" by (auto simp: delay_ok_def Let_def min_def split: if_splits)
  ultimately have "ctl_ok (tm_agent_connect env (a\<lparr>g_reconnect_in := None\<rparr>))"
    using False by (intro connect_ok) simp_all
  then show ?thesis using False by (simp add: reconnect_timer_cb_def)
qed

lemma ctl_connected_ok:
  assumes "ctl_ok a" and "g_connecting a" and "ce_ssl (ae_ctl env)"
  shows "ctl_ok (ctl_connected env failed hs_error a)"
proof (cases failed)
  case True
  then show ?thesis using assms by (simp add: ctl_connected_def disconnect_ok)
next
  case False
  define b where "b = a\<lparr>g_connecting := False, g_ctl_ssl := True,
    g_ctl_io := tm_io_start (Some (IoSsl (tm_io_ssl_new False True (ce_bio (ae_ctl env)) (ce_sw (ae_ctl env)))))\<rparr>"
  define b' where "b' = (if hs_error then tm_agent_disconnect env b else b)"
  have r: "ctl_connected env failed hs_error a = b'\<lparr>g_hs_timer := True, g_connected := True\<rparr>"
    using False assms(3) by (simp add: ctl_connected_def b_def b'_def)
  show ?thesis
  proof (cases "g_shutting_down a")
    case True
    have "ctl_ok b'" using assms(1) True disconnect_ok [of b env] by (auto simp: b'_def b_def ctl_view_def)
    moreover have "g_shutting_down b'" using True disconnect_view [of env b]
      by (auto simp: b'_def b_def ctl_view_def split: if_splits)
    ultimately show ?thesis by (auto simp: r ctl_view_def)
  next
    case False
    then have "ctl_view b = (g_cfg a, False, False, False, None, g_reconnect_delay_ms a, False)"
      using assms(1,2) by (auto simp: b_def ctl_view_def)
    moreover from this have "b' = b" by (simp add: b'_def tm_agent_disconnect_def ctl_view_def)
    ultimately have "ctl_view b' = (g_cfg a, False, False, False, None, g_reconnect_delay_ms a, False)" by simp
    then show ?thesis using assms(1) by (simp add: r ctl_view_def)
  qed
qed

lemma agent_step_ok: "agent_step a b \<Longrightarrow> ctl_ok a \<Longrightarrow> ctl_ok b"
proof (induction rule: agent_step.induct)
  case (hs_timeout a env)
  then show ?case by (simp add: ctl_handshake_timeout_def Let_def disconnect_ok)
next
  case (handshake a env)
  then show ?case by (simp add: ctl_handshake_done_def send_frame_ok)
next
  case (heartbeat a env)
  then show ?case by (simp add: agent_hb_timer_cb_def Let_def disconnect_ok send_frame_ok)
next
  case (stream env a a')
  then show ?case by (rule stream_step_keeps [where P = ctl_ok]) (simp_all add: disconnect_ok)
qed (simp_all add: ctl_eof_def ctl_error_def disconnect_ok reconnect_timer_ok ctl_connected_ok,
  (blast intro: ctl_read_ok shutdown_ok)+)

lemma agent_run_ok: "agent_run a \<Longrightarrow> ctl_ok a"
  by (induction rule: agent_run.induct) (auto intro: agent_main_ok agent_step_ok)

text \<open>
  (C13) The agent never gives up: as long as TLS objects can be set up, in every reachable state in which it is
  not shutting down it is connected, or connecting, or its reconnect timer is armed, and never two of these at once. The armed delay is within a fifth of
  a delay between the two configured bounds, whatever the random sample is, and however often it was doubled.
\<close>

theorem agent_keeps_trying:
  assumes "agent_run a" and "\<not> g_shutting_down a"
  shows "(case g_reconnect_in a of
            None \<Rightarrow> g_connected a \<noteq> g_connecting a
          | Some v \<Rightarrow> \<not> g_connected a \<and> \<not> g_connecting a \<and>
              (let lo = ag_reconnect_delay_ms (g_cfg a); hi = ag_reconnect_max_delay_ms (g_cfg a) in
               4 * min lo hi \<le> 5 * uint v \<and> 5 * uint v \<le> 6 * max lo hi))"
proof -
  have "4 * min (ag_reconnect_delay_ms (g_cfg a)) (ag_reconnect_max_delay_ms (g_cfg a)) \<le> 5 * uint v \<and>
      5 * uint v \<le> 6 * max (ag_reconnect_delay_ms (g_cfg a)) (ag_reconnect_max_delay_ms (g_cfg a))"
    if v: "armed_ok (g_cfg a) v" for v
  proof -
    obtain d s where d: "delay_ok (g_cfg a) d" "v = reconnect_with_jitter d s" using v by (auto simp: armed_ok_def)
    then show ?thesis using jitter_bounds [OF d(1), of s] by (simp add: delay_ok_def Let_def)
  qed
  then show ?thesis using agent_run_ok [OF assms(1)] assms(2) by (auto simp: ctl_view_def Let_def split: option.split)
qed

definition ex_conn :: "bool \<Rightarrow> bool \<Rightarrow> conn_env" where
  "ex_conn connects ssl = \<lparr>ce_resolves = True, ce_connects = connects, ce_ssl = ssl, ce_bio = [], ce_sw = []\<rparr>"

definition ex_agent_env :: "u64 \<Rightarrow> bool \<Rightarrow> bool \<Rightarrow> agent_env" where
  "ex_agent_env rnd connects ssl =
     \<lparr>ae_now = 0, ae_rnd = rnd, ae_ctl = ex_conn connects ssl, ae_udp = \<lparr>ue_connects = True, ue_ssl = True, ue_sw = [], ue_bio = []\<rparr>, ae_open = (\<lambda>_. ex_conn True True)\<rparr>"

theorem agent_keeps_trying_witness:
  "case agent_main (ex_agent_env 0 True True) ex_agent_cfg of
     None \<Rightarrow> False
   | Some a \<Rightarrow> (let a' = ctl_connected (ex_agent_env 7 True True) True False a in
                g_reconnect_in a' = Some 1607 \<and> \<not> g_connected a' \<and> \<not> g_connecting a')"
proof -
  let ?m = "agent_main (ex_agent_env 0 True True) ex_agent_cfg"
  let ?s = "\<lambda>a. ctl_connected (ex_agent_env 7 True True) True False a"
  have c: "case ?m of None \<Rightarrow> False | Some a \<Rightarrow> g_connecting a \<and> \<not> g_shutting_down (?s a) \<and> g_reconnect_in (?s a) = Some 1607"
    by code_simp
  then obtain a where a: "?m = Some a" by (cases ?m) auto
  have "agent_run (?s a)"
    using c a by (intro agent_run.step [OF agent_run.main [OF a]] agent_step.connected) (simp_all add: ex_agent_env_def ex_conn_def)
  then show ?thesis using agent_keeps_trying [of "?s a"] c a by (simp add: Let_def)
qed

section \<open>Where the agent gets stuck\<close>

text \<open>Not connected, not connecting, and no timer that would change it.\<close>

fun view_dead :: "tm_agent_cfg \<times> bool \<times> bool \<times> bool \<times> u64 option \<times> u64 \<times> bool \<Rightarrow> bool" where
  "view_dead (g, conn, conng, reg, rin, d, shut) \<longleftrightarrow> \<not> conn \<and> \<not> conng \<and> \<not> reg \<and> rin = None"

abbreviation ctl_dead :: "tm_agent_app \<Rightarrow> bool" where
  "ctl_dead a \<equiv> view_dead (ctl_view a)"

lemma ctl_dead_iff:
  "ctl_dead a \<longleftrightarrow> \<not> g_connected a \<and> \<not> g_connecting a \<and> \<not> g_registered a \<and> g_reconnect_in a = None"
  by (simp add: ctl_view_def)

lemma disconnect_dead: "ctl_dead a \<Longrightarrow> tm_agent_disconnect env a = a"
  by (simp add: ctl_dead_iff tm_agent_disconnect_def)

lemma disconnect_keeps_dead: "ctl_dead a \<Longrightarrow> ctl_dead (tm_agent_disconnect env a)"
  by (simp add: disconnect_dead)

lemma send_frame_dead: "ctl_dead a \<Longrightarrow> ctl_dead (agent_send_frame env t sid p a)"
  by (rule send_frame_keeps [where P = ctl_dead]) (simp_all add: disconnect_keeps_dead)

lemma shutdown_dead: "ctl_dead a \<Longrightarrow> tm_agent_shutdown a = Some a' \<Longrightarrow> ctl_dead a'"
  by (auto simp: tm_agent_shutdown_def drop_ctl_def ctl_dead_iff Let_def split: if_splits)

lemma agent_step_dead: "agent_step a b \<Longrightarrow> ctl_dead a \<Longrightarrow> ctl_dead b"
proof (induction rule: agent_step.induct)
  case (hs_timeout a env)
  then show ?case by (simp add: ctl_handshake_timeout_def Let_def disconnect_keeps_dead)
next
  case (heartbeat a env)
  then show ?case by (simp add: agent_hb_timer_cb_def Let_def disconnect_keeps_dead send_frame_dead)
next
  case (stream env a a')
  then show ?case by (rule stream_step_keeps [where P = ctl_dead]) (simp_all add: disconnect_keeps_dead)
next
  case (shutdown a a')
  then show ?case by (blast intro: shutdown_dead)
qed (simp_all add: ctl_dead_iff)

text \<open>
  (C33) When the set-up of the TLS object fails on a new control connection, the agent gets stuck for good:
  \<open>ctl_connected\<close> has cleared the only flag by which \<open>tm_agent_disconnect\<close> would notice the connection, so
  no reconnect is scheduled, and no later event makes the agent connect again.
\<close>

theorem agent_stuck_without_ssl:
  assumes "agent_run a" and "g_connecting a" and "\<not> g_shutting_down a" and "\<not> ce_ssl (ae_ctl env)"
    and "agent_step\<^sup>*\<^sup>* (ctl_connected env False hs_error a) b"
  shows "\<not> g_connected b \<and> \<not> g_connecting b \<and> g_reconnect_in b = None"
proof -
  have "ctl_dead (a\<lparr>g_connecting := False\<rparr>)" using agent_run_ok [OF assms(1)] assms(2,3) by (auto simp: ctl_view_def)
  then have "ctl_dead (ctl_connected env False hs_error a)"
    using assms(4) by (simp add: ctl_connected_def disconnect_keeps_dead)
  with assms(5) have "ctl_dead b" by (induction rule: rtranclp_induct) (auto intro: agent_step_dead)
  then show ?thesis by (simp add: ctl_dead_iff)
qed

theorem agent_stuck_without_ssl_witness:
  "case agent_main (ex_agent_env 0 True True) ex_agent_cfg of
     None \<Rightarrow> False
   | Some a \<Rightarrow> (let a' = ctl_connected (ex_agent_env 0 True False) False False a in
                \<not> g_shutting_down a' \<and> \<not> g_connected a' \<and> \<not> g_connecting a' \<and> g_reconnect_in a' = None)"
proof -
  let ?m = "agent_main (ex_agent_env 0 True True) ex_agent_cfg" and ?e = "ex_agent_env 0 True False"
  have c: "case ?m of None \<Rightarrow> False | Some a \<Rightarrow> g_connecting a \<and> \<not> g_shutting_down a \<and>
      \<not> g_shutting_down (ctl_connected ?e False False a)"
    by code_simp
  then obtain a where a: "?m = Some a" by (cases ?m) auto
  have "\<not> ce_ssl (ae_ctl ?e)" by (simp add: ex_agent_env_def ex_conn_def)
  then show ?thesis using agent_stuck_without_ssl [OF agent_run.main [OF a] _ _ _ rtranclp.rtrancl_refl] c a by (simp add: Let_def)
qed

section \<open>The heartbeat\<close>

lemma close_astreams_hb [simp]: "g_hb_timer (close_astreams sas a) = g_hb_timer a"
  by (induction sas arbitrary: a) (simp_all add: astream_close_def put_astream_def split: option.split)

lemma astream_hb [simp]:
  "g_hb_timer (put_astream sa st a) = g_hb_timer a" "g_registered (put_astream sa st a) = g_registered a"
  "g_hb_timer (astream_close sa a) = g_hb_timer a" "g_registered (astream_close sa a) = g_registered a"
  "g_hb_timer (tm_astream_open env sid a) = g_hb_timer a" "g_registered (tm_astream_open env sid a) = g_registered a"
  by (simp_all add: tm_astream_open_def astream_close_def put_astream_def Let_def split: option.split prod.split)

text \<open>No timer, and if a disconnect ended the registration, no frame is left in the reader.\<close>

definition hb_off :: "tm_agent_app \<Rightarrow> bool" where
  "hb_off a \<longleftrightarrow> \<not> g_hb_timer a \<and> (g_registered a \<or> g_ctl_fr a = tm_frame_reader_new)"

lemma disconnect_hb: "\<not> g_hb_timer a \<Longrightarrow> \<not> g_hb_timer (tm_agent_disconnect env a)"
  by (simp add: tm_agent_disconnect_def drop_ctl_def arm_reconnect_def Let_def)

lemma disconnect_hb_off: "hb_off a \<Longrightarrow> hb_off (tm_agent_disconnect env a)"
  using disconnect_hb [of a env]
  by (auto simp: hb_off_def) (auto simp: tm_agent_disconnect_def arm_reconnect_def Let_def)

lemma send_frame_hb: "\<not> g_hb_timer a \<Longrightarrow> \<not> g_hb_timer (agent_send_frame env t sid p a)"
  by (rule send_frame_keeps [where P = "\<lambda>a. \<not> g_hb_timer a"]) (simp_all add: disconnect_hb)

lemma send_frame_hb_off: "hb_off a \<Longrightarrow> hb_off (agent_send_frame env t sid p a)"
  by (rule send_frame_keeps [where P = hb_off]) (simp_all add: disconnect_hb_off, simp add: hb_off_def)

lemma shutdown_hb: "\<not> g_hb_timer a \<Longrightarrow> tm_agent_shutdown a = Some a' \<Longrightarrow> \<not> g_hb_timer a'"
  by (auto simp: tm_agent_shutdown_def drop_ctl_def Let_def split: if_splits)

lemma ctl_frame_hb:
  assumes "ctl_frame env f a = Some (returned, a')" and "\<not> g_hb_timer a" and "g_registered a"
  shows "\<not> g_hb_timer a' \<and> (returned \<or> hb_off a')"
proof -
  have off: "hb_off a" "hb_off (a\<lparr>g_got_hello := True\<rparr>)" "hb_off (tm_astream_open env sid a)" "hb_off (astream_close sa a)" for sid sa
    using assms(2,3) by (simp_all add: hb_off_def)
  have timer: "\<not> g_hb_timer b" if "hb_off b" for b using that by (simp add: hb_off_def)
  have shut: "\<not> g_hb_timer b" if "tm_agent_shutdown (a\<lparr>g_got_hello := True\<rparr>) = Some b" for b
    by (rule shutdown_hb [OF _ that]) (use assms(2) in simp)
  show ?thesis
    using assms(1,3) off shut
    by (auto simp: ctl_frame_def Let_def timer disconnect_hb_off send_frame_hb_off
        split: if_splits option.splits)
qed

lemma ctl_loop_hb: "hb_off a \<Longrightarrow> ctl_loop env a = Some a' \<Longrightarrow> \<not> g_hb_timer a'"
proof (induction env a arbitrary: a' rule: ctl_loop.induct)
  case (1 env a)
  obtain res r where t: "reader_take (g_ctl_fr a) = (res, r)" by (rule prod.exhaust)
  show ?case
  proof (cases res)
    case (FeedFrame f)
    then have "g_registered a" using 1(2) t reader_new_take by (auto simp: hb_off_def)
    moreover obtain ret b where b: "ctl_frame env f (a\<lparr>g_ctl_fr := r\<rparr>) = Some (ret, b)"
      using 1(3) t FeedFrame by (auto simp: ctl_loop.simps [of env a] split: option.splits)
    ultimately have ok: "\<not> g_hb_timer b \<and> (ret \<or> hb_off b)"
      using ctl_frame_hb [OF b] 1(2) by (auto simp: hb_off_def)
    show ?thesis using 1(3) ok 1(1) [OF t [symmetric] FeedFrame b refl] t FeedFrame b
      by (auto simp: ctl_loop.simps [of env a] split: if_splits)
  qed (use 1 t disconnect_hb [of "a\<lparr>g_ctl_fr := r\<rparr>"] in \<open>auto simp: ctl_loop.simps [of env a] hb_off_def\<close>)
qed

lemma ctl_read_hb:
  assumes "ctl_read env data a = Some a'" and "\<not> g_hb_timer a" and "g_registered a"
  shows "\<not> g_hb_timer a'"
proof -
  let ?a = "a\<lparr>g_last_rx_ms := ae_now env\<rparr>"
  have frame: "\<not> g_hb_timer b \<and> (ret \<or> hb_off b)" if "ctl_frame env f (?a\<lparr>g_ctl_fr := r\<rparr>) = Some (ret, b)" for f r ret b
    by (rule ctl_frame_hb [OF that]) (use assms(2,3) in simp_all)
  show ?thesis
    using assms(1,2)
    by (auto simp: ctl_read_def Let_def disconnect_hb dest: frame ctl_loop_hb
        split: prod.splits feed_result.splits option.splits if_splits)
qed

lemma agent_step_hb: "agent_step a b \<Longrightarrow> g_registered a \<Longrightarrow> \<not> g_hb_timer a \<Longrightarrow> \<not> g_hb_timer b"
proof (induction rule: agent_step.induct)
  case (reconnect a env)
  then show ?case by (simp add: reconnect_timer_cb_def tm_agent_connect_def arm_reconnect_def Let_def split: prod.split)
next
  case (read a env data a')
  from read.hyps(2) read.prems(2,1) show ?case by (rule ctl_read_hb)
next
  case (shutdown a a')
  from shutdown.prems(2) shutdown.hyps show ?case by (rule shutdown_hb)
next
  case (stream env a a')
  from stream.hyps stream.prems(2) show ?case
    by (rule stream_step_keeps [where P = "\<lambda>a. \<not> g_hb_timer a"]) (simp_all add: disconnect_hb)
qed (simp_all add: ctl_connected_def ctl_handshake_timeout_def ctl_handshake_done_def ctl_eof_def ctl_error_def Let_def
  disconnect_hb send_frame_hb)

text \<open>
  (C34) The heartbeat beats once: its timer is started without a repeat, so once it has fired it is not armed again
  as long as the registration lasts, whatever happens. The agent sends at most one \<open>PING\<close> per registration, and it
  does not notice a broker that falls silent later.
\<close>

theorem heartbeat_beats_once:
  assumes "(\<lambda>x y. agent_step x y \<and> g_registered x)\<^sup>*\<^sup>* (agent_hb_timer_cb env a) b"
  shows "\<not> g_hb_timer b"
  using assms
proof (induction rule: rtranclp_induct)
  case base
  show ?case by (simp add: agent_hb_timer_cb_def Let_def disconnect_hb send_frame_hb)
next
  case (step x y)
  then show ?case using agent_step_hb [of x y] by simp
qed

definition ex_registered :: tm_agent_app where
  "ex_registered =
     (ctl_connected (ex_agent_env 0 True True) False False
        (tm_agent_connect (ex_agent_env 0 True True) (agent_zero agent_cfg_defaults)))\<lparr>g_registered := True, g_hb_timer := True\<rparr>"

theorem heartbeat_beats_once_witness:
  "g_hb_timer ex_registered \<and>
   (let b = agent_hb_timer_cb (ex_agent_env 0 True True) ex_registered
    in g_connected b \<and> g_registered b \<and> \<not> g_hb_timer (b\<lparr>g_ctl_io := None\<rparr>))"
proof -
  let ?b = "agent_hb_timer_cb (ex_agent_env 0 True True) ex_registered"
  have c: "g_hb_timer ex_registered" "g_connected ?b" "g_registered ?b" by code_simp+
  have "(\<lambda>x y. agent_step x y \<and> g_registered x)\<^sup>*\<^sup>* ?b (?b\<lparr>g_ctl_io := None\<rparr>)"
    using c(2,3) by (auto intro: agent_step.ctl_written)
  from heartbeat_beats_once [OF this] show ?thesis using c by (simp add: Let_def)
qed

end
