(* ===== verification/Spec2Isabelle.thy ===== *)
theory Spec2Isabelle
  imports Utf8 ControlInv RelayInv CliRelayInv CliUdpInv AgentInv
begin

text \<open>
  A verification library for TunnelMate, a reverse tunnel in C over libuv and OpenSSL.

  \<^bold>\<open>The program.\<close> A \<open>broker\<close> (\<open>src/broker\<close>) owns public TCP and UDP ports, one per tunnel. An \<open>agent\<close>
  (\<open>src/agent\<close>) next to a private service keeps a TLS control connection to the broker. When a
  consumer connects to a public port, the broker asks the agent over the control connection to
  open a data connection (\<open>OPEN_STREAM\<close>), binds the two (\<open>DATA_BIND\<close>) and relays bytes in both
  directions with backpressure and half-close. UDP datagrams travel in envelopes through a DTLS
  session of the agent. A closed tunnel has no public TCP access: a \<open>peer\<close> (\<open>src/peer\<close>) with the shared
  token opens its streams through the control port. \<open>src/common\<close> has what the programs share: frames, the
  legs of a relay (\<open>tm_io\<close>), the TLS stream, the configuration file and small helpers.

  \<^bold>\<open>How the code is modelled.\<close> One HOL function per C function, on explicit states. Structs are records,
  fixed-width integers are words, \<open>size_t\<close> is \<open>nat\<close>, \<open>long long\<close> is \<open>int\<close>, a \<open>NULL\<close> pointer is
  \<open>None\<close>, a linked list of heap objects is an association list from addresses to contents, newest
  first. Handlers return \<open>option\<close> where the C code can reach a memory error: \<open>None\<close> is an access to
  freed memory, a write past an array, or a libuv handle initialised or closed twice. Callbacks that
  a library call makes from inside are lists of \<open>upcall\<close>s that the owner's handlers then run. What
  libuv and OpenSSL answer is a tape in the state or an argument, so the theorems hold for every
  behaviour of these libraries; SHA-256 and HMAC are function arguments; the clock is read once per
  event. Fields that no code reads and that only record what was sent (\<open>tc_sent\<close>, \<open>ss_plain\<close>,
  \<open>s_plain\<close>, \<open>t_out\<close>) are there to state the theorems.

  \<^bold>\<open>Theories.\<close>
  \<^item> \<open>Prelude\<close>: byte lists, capacities that grow by doubling, association lists with \<open>put\<close> and \<open>unlink\<close>.
  \<^item> \<open>Wire\<close> (\<open>common.h\<close>), \<open>Frame\<close> (\<open>frame.c\<close>): message constants, the frame reader and the datagram
    envelope. Every chunking of a byte stream gives the same frames in order, a declared size above
    the limit is an error, and the reader's memory is bounded.
  \<^item> \<open>Utf8\<close> (\<open>common.c\<close>), \<open>Crypto\<close> (\<open>crypto.c\<close>, \<open>net.c\<close>): the UTF-8 check against RFC 3629,
    constant-time comparison, hex digests, address comparison.
  \<^item> \<open>IoLeg\<close>: the contract of a leg as locales \<open>io_leg\<close> and \<open>half_close_leg\<close> (a write that returns
    \<open>TM_OK\<close> has taken the bytes, a refused one has taken none, what was sent is a prefix of what was
    taken) and the flush loop over it. \<open>IoTcp\<close> (\<open>io.c\<close>), \<open>IoSsl\<close> (\<open>tls.c\<close>) and \<open>Io\<close> (the dispatch table)
    model the raw leg, the TLS stream and \<open>tm_io\<close>, and interpret the locales on them.
  \<^item> \<open>Relay\<close> (\<open>relay.c\<close>): the pairing of a consumer leg and an agent leg. Handlers call each other
    through the legs' callbacks with fuel 3, and the fuel is shown never to run out.
    \<open>RelayInv\<close> proves, for every sequence of events in the life of a stream, that each leg is given
    exactly the bytes the other received, in order, and that a normal close loses nothing.
  \<^item> \<open>RateLimit\<close> (\<open>tcp.c\<close>, \<open>udp.c\<close>): the accept limiter and the packet windows, with the bound on every
    window through the locale \<open>fixed_window\<close>.
  \<^item> \<open>Config\<close> (\<open>config.c\<close>): the configuration parser, with the round trip of a printed file.
  \<^item> \<open>BrokerTypes\<close> (\<open>broker.h\<close>, \<open>main.c\<close>), \<open>Streams\<close> (\<open>relay.c\<close>): the broker's state, its
    settings, and the streams of a tunnel.
  \<^item> \<open>Agents\<close>, \<open>Control\<close> (\<open>control.c\<close>): agents' control sessions and the pending connections on the control
    port, from \<open>HELLO\<close> to their promotion. \<open>ControlInv\<close> has their theorems: nothing is opened without
    a credential, refusals look alike, one tunnel's agent cannot touch another tunnel.
  \<^item> \<open>UdpPlane\<close> (\<open>udp.c\<close>): DTLS sessions, flows and forwarding. \<open>UdpInv\<close> proves the invariant of the
    tables and that a reply reaches the client of its flow, \<open>UdpAuth\<close> that an unauthenticated sender
    reaches no tunnel and that the queue of a session is first-in first-out.
  \<^item> \<open>Registry\<close> (\<open>registry.c\<close>, \<open>tcp.c\<close>): tunnels, ports and listeners. \<open>RegistryInv\<close> proves the invariant
    of the registry over all management operations and the life of a listener's handle.

  \<^item> \<open>CliRelay\<close> (\<open>agent/src/tcp.c\<close>, \<open>peer/src/tcp.c\<close>): the relay of the clients, which the two files
    share word for word, on the record \<open>cstream\<close> that \<open>tm_astream\<close> and \<open>tm_psess\<close> extend. \<open>CliRelayInv\<close> proves
    that both byte streams stay intact, and shows the one case in which the agent loses a tail.
  \<^item> \<open>CliUdp\<close> (\<open>agent/src/udp.c\<close>), \<open>PeerUdp\<close> (\<open>peer/src/udp.c\<close>): the DTLS session of a client (\<open>cli_udp\<close>,
    which both programs extend), the agent's and the peer's flows, start, stop and reconnect. \<open>CliUdpInv\<close>
    proves that the queue is first-in first-out, that flow ids are fresh, and that replies reach the
    source that asked; and that the peer's session does not survive a reconnect.
  \<^item> \<open>AgentApp\<close> (\<open>agent/src/main.c\<close>, \<open>control.c\<close>, \<open>tcp.c\<close>): the agent's settings, its control connection
    with registration, heartbeat and reconnect, and the streams it opens. \<open>AgentInv\<close> proves, over every
    sequence of events, that the agent is always connected, connecting or about to reconnect within
    the configured delays, that accepted settings are well-formed, and two ways in which it gets stuck.

  \<^bold>\<open>Bounds.\<close> Three functions have fuel. \<open>relay_up\<close> has 3 and \<open>cs_up\<close> has 2, the depths to which the
  callbacks of a relay nest; \<open>flow_id_loop\<close> has one round more than there are flows, since every round
  tries another id. That it is enough is a theorem for each. Every other function is total by structural
  recursion or a measure; no bound on inputs is assumed beyond what the C types have. Tapes that end
  mean that the library wants more I/O (OpenSSL) or succeeds (libuv).

  \<^bold>\<open>Not modelled.\<close> The peer's exchange with the broker before \<open>DATA_BIND_OK\<close> and its command line
  (\<open>peer/src/main.c\<close>); the read path of the TLS stream and the set-up of TLS contexts (\<open>tls.c\<close>), which are
  calls into OpenSSL; signals and the event loop, which are libuv's; the broker's admin socket and
  metrics (\<open>ipc.c\<close>, \<open>metrics.c\<close>), which translate JSON requests into the modelled registry operations;
  logging; the vendored JSON library; and the Python control plane and SDK, which are web services and
  clients outside of the data plane.
\<close>

end
